(* ===== verification/Prelude.thy ===== *)
theory Prelude
  imports Main "HOL-Library.AList" "HOL-Library.Char_ord" "HOL-Library.List_Lexorder"
    "HOL-Library.Word" "HOL-Library.Sublist" "HOL-Library.Multiset"
begin

text \<open>
  Shared vocabulary of the development: the parts of Go's standard library that the
  sources call (\<^verbatim>\<open>strings\<close>, \<^verbatim>\<open>strconv\<close>, \<^verbatim>\<open>sort\<close>), Go maps as association lists, the result
  type of fallible functions and the generic lemmas the component theories rely on.

  Go strings are byte sequences and are modelled by \<^typ>\<open>string\<close>.  Case conversion and
  white space are those of the ASCII range, which is the range host names, record types,
  header names and identifiers live in.  A Go map is an association list: key lookup is
  \<^const>\<open>map_of\<close>, insertion \<^const>\<open>AList.update\<close>, \<^verbatim>\<open>delete\<close> is \<^const>\<open>AList.delete\<close>, and
  a \<^verbatim>\<open>range\<close> loop visits the entries in list order.  Go leaves that order open, so facts
  about loops over maps are stated for the set of the results or for every entry order.
\<close>

named_theorems str_simps "facts about the string functions"
named_theorems norm_simps "normal forms are fixed points of the normalisers"
named_theorems map_simps "lookups in updated Go maps"

section \<open>Errors and results\<close>

datatype error =
    Err string            \<comment> \<open>\<^verbatim>\<open>fmt.Errorf\<close> or \<^verbatim>\<open>errors.New\<close> with this text\<close>
  | ErrOn string string   \<comment> \<open>an error text formatted with one quoted argument\<close>
  | ErrWrap string error  \<comment> \<open>a wrapped error (\<^verbatim>\<open>%w\<close>)\<close>
  | ErrRecordNotFound     \<comment> \<open>\<^verbatim>\<open>gorm.ErrRecordNotFound\<close>\<close>
  | ErrSnapshotOutOfOrder \<comment> \<open>\<^verbatim>\<open>slave.ErrSnapshotOutOfOrder\<close>\<close>

type_synonym 'a result = "error + 'a"

fun is_ok :: "'a result \<Rightarrow> bool" where
  "is_ok (Inl _) = False"
| "is_ok (Inr _) = True"

section \<open>Package strings\<close>

definition lower_char :: "char \<Rightarrow> char" where
  "lower_char c = (let n = (of_char c :: nat) in if 65 \<le> n \<and> n \<le> 90 then char_of (n + 32) else c)"

definition upper_char :: "char \<Rightarrow> char" where
  "upper_char c = (let n = (of_char c :: nat) in if 97 \<le> n \<and> n \<le> 122 then char_of (n - 32) else c)"

definition is_space :: "char \<Rightarrow> bool" where
  "is_space c = (let n = (of_char c :: nat) in n = 32 \<or> (9 \<le> n \<and> n \<le> 13))"

definition ToLower :: "string \<Rightarrow> string" where
  "ToLower s = map lower_char s"

definition ToUpper :: "string \<Rightarrow> string" where
  "ToUpper s = map upper_char s"

definition TrimLeftFunc :: "(char \<Rightarrow> bool) \<Rightarrow> string \<Rightarrow> string" where
  "TrimLeftFunc p s = dropWhile p s"

definition TrimRightFunc :: "(char \<Rightarrow> bool) \<Rightarrow> string \<Rightarrow> string" where
  "TrimRightFunc p s = rev (dropWhile p (rev s))"

definition TrimFunc :: "(char \<Rightarrow> bool) \<Rightarrow> string \<Rightarrow> string" where
  "TrimFunc p s = TrimRightFunc p (TrimLeftFunc p s)"

definition TrimSpace :: "string \<Rightarrow> string" where
  "TrimSpace s = TrimFunc is_space s"

definition HasPrefix :: "string \<Rightarrow> string \<Rightarrow> bool" where
  "HasPrefix s p = (take (length p) s = p)"

definition HasSuffix :: "string \<Rightarrow> string \<Rightarrow> bool" where
  "HasSuffix s p = (length p \<le> length s \<and> drop (length s - length p) s = p)"

definition TrimPrefix :: "string \<Rightarrow> string \<Rightarrow> string" where
  "TrimPrefix s p = (if HasPrefix s p then drop (length p) s else s)"

definition TrimSuffix :: "string \<Rightarrow> string \<Rightarrow> string" where
  "TrimSuffix s p = (if HasSuffix s p then take (length s - length p) s else s)"

fun Index :: "string \<Rightarrow> string \<Rightarrow> nat option" where
  "Index [] p = (if p = [] then Some 0 else None)"
| "Index (c # s) p = (if HasPrefix (c # s) p then Some 0 else map_option Suc (Index s p))"

definition Contains :: "string \<Rightarrow> string \<Rightarrow> bool" where
  "Contains s p = (Index s p \<noteq> None)"

definition ContainsAny :: "string \<Rightarrow> string \<Rightarrow> bool" where
  "ContainsAny s cs = list_ex (\<lambda>c. c \<in> set cs) s"

fun LastIndexByte :: "string \<Rightarrow> char \<Rightarrow> nat option" where
  "LastIndexByte [] b = None"
| "LastIndexByte (c # s) b = (case LastIndexByte s b of
      Some i \<Rightarrow> Some (Suc i)
    | None \<Rightarrow> if c = b then Some 0 else None)"

text \<open>\<^verbatim>\<open>strings.Split\<close> for a separator of one byte, the only kind the sources use.\<close>

fun Split :: "string \<Rightarrow> char \<Rightarrow> string list" where
  "Split [] b = [[]]"
| "Split (c # s) b = (if c = b then [] # Split s b
     else (case Split s b of [] \<Rightarrow> [[c]] | w # ws \<Rightarrow> (c # w) # ws))"

fun Join :: "string list \<Rightarrow> string \<Rightarrow> string" where
  "Join [] sep = []"
| "Join [w] sep = w"
| "Join (w # v # ws) sep = w @ sep @ Join (v # ws) sep"

text \<open>\<^verbatim>\<open>strings.Fields\<close>: the maximal runs of non-space bytes.\<close>

fun fields_aux :: "string \<Rightarrow> string \<Rightarrow> string list" where
  "fields_aux acc [] = (if acc = [] then [] else [rev acc])"
| "fields_aux acc (c # s) = (if is_space c
     then (if acc = [] then fields_aux [] s else rev acc # fields_aux [] s)
     else fields_aux (c # acc) s)"

definition Fields :: "string \<Rightarrow> string list" where
  "Fields s = fields_aux [] s"

section \<open>Package strconv\<close>

definition digit_char :: "nat \<Rightarrow> char" where
  "digit_char n = char_of (48 + n mod 10)"

definition is_digit :: "char \<Rightarrow> bool" where
  "is_digit c = (let n = (of_char c :: nat) in 48 \<le> n \<and> n \<le> 57)"

definition digit_val :: "char \<Rightarrow> nat" where
  "digit_val c = of_char c - 48"

text \<open>Decimal output, as \<^verbatim>\<open>FormatUint\<close>, \<^verbatim>\<open>Itoa\<close> and the verb \<^verbatim>\<open>%d\<close> produce for non-negative values.\<close>

fun FormatNat :: "nat \<Rightarrow> string" where
  "FormatNat n = (if n < 10 then [digit_char n] else FormatNat (n div 10) @ [digit_char n])"

declare FormatNat.simps [simp del]

fun parse_digits :: "nat \<Rightarrow> string \<Rightarrow> nat option" where
  "parse_digits acc [] = Some acc"
| "parse_digits acc (c # s) = (if is_digit c then parse_digits (acc * 10 + digit_val c) s else None)"

text \<open>\<^verbatim>\<open>strconv.ParseUint(s, 10, bits)\<close>: \<^const>\<open>None\<close> stands for the syntax and the range error.\<close>

definition ParseUint :: "nat \<Rightarrow> string \<Rightarrow> nat option" where
  "ParseUint bits s = (if s = [] then None
     else (case parse_digits 0 s of
        None \<Rightarrow> None
      | Some n \<Rightarrow> if n < 2 ^ bits then Some n else None))"

section \<open>Package sort\<close>

text \<open>\<^verbatim>\<open>sort.Strings\<close>: byte-wise lexicographic order, the order of \<^theory_text>\<open>List_Lexorder\<close> over
  \<^theory_text>\<open>Char_ord\<close>.  Equal strings are indistinguishable, so the result is determined.\<close>

definition sort_Strings :: "string list \<Rightarrow> string list" where
  "sort_Strings xs = sort xs"

section \<open>Lemmas on strings\<close>

lemma lower_char_idem [simp, str_simps]: "lower_char (lower_char c) = lower_char c"
  by (auto simp: lower_char_def Let_def of_char_of)

lemma upper_char_idem [simp, str_simps]: "upper_char (upper_char c) = upper_char c"
  by (auto simp: upper_char_def Let_def of_char_of)

lemma is_space_lower [simp, str_simps]: "is_space (lower_char c) = is_space c"
  by (auto simp: lower_char_def is_space_def Let_def of_char_of)

lemma is_space_upper [simp, str_simps]: "is_space (upper_char c) = is_space c"
  by (auto simp: upper_char_def is_space_def Let_def of_char_of)

lemma ToLower_idem [simp, str_simps]: "ToLower (ToLower s) = ToLower s"
  by (simp add: ToLower_def)

lemma ToUpper_idem [simp, str_simps]: "ToUpper (ToUpper s) = ToUpper s"
  by (simp add: ToUpper_def)

lemma ToLower_Nil [simp]: "ToLower [] = []" "ToLower s = [] \<longleftrightarrow> s = []"
  by (simp_all add: ToLower_def)

lemma ToUpper_Nil [simp]: "ToUpper [] = []" "ToUpper s = [] \<longleftrightarrow> s = []"
  by (simp_all add: ToUpper_def)

lemma ToLower_append [str_simps]: "ToLower (s @ t) = ToLower s @ ToLower t"
  by (simp add: ToLower_def)

lemma TrimFunc_Nil [simp]: "TrimFunc p [] = []"
  by (simp add: TrimFunc_def TrimLeftFunc_def TrimRightFunc_def)

lemma TrimSpace_Nil [simp]: "TrimSpace [] = []"
  by (simp add: TrimSpace_def)

lemma TrimFunc_fixed:
  assumes "s \<noteq> []" "\<not> p (hd s)" "\<not> p (last s)"
  shows "TrimFunc p s = s"
proof -
  have "dropWhile p s = s" using assms(1,2) by (cases s) auto
  moreover have "dropWhile p (rev s) = rev s" using assms(1,3) by (cases "rev s") (auto simp: hd_rev [symmetric])
  ultimately show ?thesis by (simp add: TrimFunc_def TrimLeftFunc_def TrimRightFunc_def)
qed

lemma TrimFunc_ends:
  assumes "TrimFunc p s \<noteq> []"
  shows "\<not> p (hd (TrimFunc p s))" "\<not> p (last (TrimFunc p s))"
proof -
  let ?l = "dropWhile p s" and ?r = "dropWhile p (rev (dropWhile p s))"
  have ne: "?r \<noteq> []" using assms by (simp add: TrimFunc_def TrimLeftFunc_def TrimRightFunc_def)
  then have nl: "?l \<noteq> []" by (metis dropWhile.simps(1) rev.simps(1))
  show "\<not> p (last (TrimFunc p s))"
    using ne hd_dropWhile [OF ne] by (simp add: TrimFunc_def TrimLeftFunc_def TrimRightFunc_def last_rev)
  obtain pre where "rev ?l = pre @ ?r" by (metis takeWhile_dropWhile_id)
  then have "last (rev ?l) = last ?r" using ne by (metis last_appendR)
  then show "\<not> p (hd (TrimFunc p s))"
    using hd_dropWhile [OF nl] ne nl
    by (simp add: TrimFunc_def TrimLeftFunc_def TrimRightFunc_def hd_rev last_rev)
qed

lemma TrimFunc_idem [simp, str_simps]: "TrimFunc p (TrimFunc p s) = TrimFunc p s"
  by (cases "TrimFunc p s = []") (simp_all add: TrimFunc_fixed TrimFunc_ends)

lemma TrimSpace_idem [simp, str_simps]: "TrimSpace (TrimSpace s) = TrimSpace s"
  by (simp add: TrimSpace_def)

lemma dropWhile_map_inv: "(\<And>c. p (f c) = p c) \<Longrightarrow> dropWhile p (map f s) = map f (dropWhile p s)"
  by (induction s) auto

lemma TrimSpace_ToLower: "TrimSpace (ToLower s) = ToLower (TrimSpace s)"
  by (simp add: TrimSpace_def TrimFunc_def TrimLeftFunc_def TrimRightFunc_def ToLower_def
      dropWhile_map_inv rev_map)

lemma TrimSpace_ToUpper: "TrimSpace (ToUpper s) = ToUpper (TrimSpace s)"
  by (simp add: TrimSpace_def TrimFunc_def TrimLeftFunc_def TrimRightFunc_def ToUpper_def
      dropWhile_map_inv rev_map)

lemma HasPrefix_append [simp]: "HasPrefix (p @ s) p"
  by (simp add: HasPrefix_def)

lemma HasPrefix_conv: "HasPrefix s p \<longleftrightarrow> (\<exists>t. s = p @ t)"
  by (metis HasPrefix_append HasPrefix_def append_take_drop_id)

lemma HasSuffix_append [simp]: "HasSuffix (s @ p) p"
  by (simp add: HasSuffix_def)

lemma HasSuffix_conv: "HasSuffix s p \<longleftrightarrow> (\<exists>t. s = t @ p)"
  by (metis HasSuffix_append HasSuffix_def append_take_drop_id)

lemma HasSuffix_single: "HasSuffix s [c] \<longleftrightarrow> s \<noteq> [] \<and> last s = c"
  by (metis HasSuffix_conv append_butlast_last_id last_snoc snoc_eq_iff_butlast)

lemma TrimPrefix_append [simp]: "TrimPrefix (p @ s) p = s"
  by (simp add: TrimPrefix_def)

lemma TrimSuffix_append [simp]: "TrimSuffix (s @ p) p = s"
  by (simp add: TrimSuffix_def)

lemma Index_char: "Index s [b] = None \<longleftrightarrow> b \<notin> set s"
  by (induction s) (auto simp: HasPrefix_def)

lemma Index_charD: "Index s [b] = Some i \<Longrightarrow> i < length s \<and> s ! i = b \<and> b \<notin> set (take i s)"
  by (induction s arbitrary: i) (auto simp: HasPrefix_def split: if_splits)

lemma Index_bound: "Index s p = Some i \<Longrightarrow> i + length p \<le> length s"
  by (induction s arbitrary: i) (auto simp: HasPrefix_def dest!: arg_cong [of _ _ length] split: if_splits)

section \<open>Splitting and joining\<close>

lemma Split_not_Nil [simp]: "Split s b \<noteq> []"
  by (induction s) (auto split: list.splits)

lemma Split_no_sep: "b \<notin> set s \<Longrightarrow> Split s b = [s]"
  by (induction s) auto

lemma Split_append_sep: "b \<notin> set w \<Longrightarrow> Split (w @ b # s) b = w # Split s b"
  by (induction w) auto

lemma Split_parts: "w \<in> set (Split s b) \<Longrightarrow> b \<notin> set w"
  by (induction s arbitrary: w) (auto split: if_splits list.splits)

lemma Split_chars: "w \<in> set (Split s b) \<Longrightarrow> set w \<subseteq> set s"
  by (induction s arbitrary: w) (fastforce split: if_splits list.splits)+

lemma Join_Split [simp]: "Join (Split s b) [b] = s"
proof (induction s)
  case (Cons c s)
  then show ?case
    by (cases "Split s b"; cases "tl (Split s b)") auto
qed simp

lemma Split_Join:
  assumes "ws \<noteq> []" "\<And>w. w \<in> set ws \<Longrightarrow> b \<notin> set w"
  shows "Split (Join ws [b]) b = ws"
  using assms by (induction ws "[b]" rule: Join.induct) (auto simp: Split_no_sep Split_append_sep)

section \<open>Decimal numbers\<close>

lemma Join_chars: "c \<in> set (Join ls sep) \<Longrightarrow> c \<in> set sep \<or> (\<exists>l\<in>set ls. c \<in> set l)"
  by (induction ls sep rule: Join.induct) auto

lemma digit_char_props [simp]:
  "is_digit (digit_char n)" "digit_val (digit_char n) = n mod 10"
  by (simp_all add: is_digit_def digit_val_def digit_char_def Let_def of_char_of)

lemma FormatNat_not_Nil [simp]: "FormatNat n \<noteq> []"
  by (subst FormatNat.simps) simp

lemma FormatNat_digits: "c \<in> set (FormatNat n) \<Longrightarrow> is_digit c"
  by (induction n rule: FormatNat.induct) (subst (asm) (2) FormatNat.simps, auto split: if_splits)

lemma parse_digits_append:
  "parse_digits a (s @ t) = (case parse_digits a s of None \<Rightarrow> None | Some n \<Rightarrow> parse_digits n t)"
  by (induction s arbitrary: a) auto

lemma parse_FormatNat: "parse_digits 0 (FormatNat n) = Some n"
proof (induction n rule: less_induct)
  case (less n)
  show ?case
  proof (cases "n < 10")
    case True
    then show ?thesis by (subst FormatNat.simps) simp
  next
    case False
    then have "parse_digits 0 (FormatNat (n div 10)) = Some (n div 10)" using less by simp
    then show ?thesis
      using False by (subst FormatNat.simps) (simp add: parse_digits_append)
  qed
qed

lemma ParseUint_FormatNat [simp]: "n < 2 ^ bits \<Longrightarrow> ParseUint bits (FormatNat n) = Some n"
  by (simp add: ParseUint_def parse_FormatNat)

lemma FormatNat_inj: "FormatNat m = FormatNat n \<longleftrightarrow> m = n"
  by (metis parse_FormatNat option.inject)

lemma ParseUint_bound: "ParseUint bits s = Some n \<Longrightarrow> n < 2 ^ bits"
  by (auto simp: ParseUint_def split: if_splits option.splits)

section \<open>Go maps\<close>

lemmas map_of_update [map_simps] = update_conv'
lemmas map_of_delete [map_simps] = delete_conv'

lemma map_of_update_apply [simp]:
  "map_of (AList.update k v m) k' = (if k' = k then Some v else map_of m k')"
  by (simp add: update_conv')

lemma map_of_delete_apply [simp]:
  "map_of (AList.delete k m) k' = (if k' = k then None else map_of m k')"
  by (simp add: delete_conv')

lemma distinct_update_keys [simp]: "distinct (map fst m) \<Longrightarrow> distinct (map fst (AList.update k v m))"
  by (rule distinct_update)

lemma distinct_delete_keys [simp]: "distinct (map fst m) \<Longrightarrow> distinct (map fst (AList.delete k m))"
  by (rule distinct_delete)

lemma set_update_cases: "(k', v') \<in> set (AList.update k v m) \<Longrightarrow> (k' = k \<and> v' = v) \<or> (k', v') \<in> set m"
  by (induction m) (auto split: if_splits)

lemma set_delete_cases: "x \<in> set (AList.delete k m) \<Longrightarrow> x \<in> set m"
  by (induction m) (auto split: if_splits)

lemma map_of_map_snd: "map_of (map (\<lambda>(k, v). (k, f k v)) m) k = map_option (f k) (map_of m k)"
  by (induction m) auto

section \<open>Words\<close>

lemma word_inc_unat: "(m :: 'a::len word) + 1 \<noteq> 0 \<Longrightarrow> unat (m + 1) = Suc (unat m)"
  using unatSuc [of m] by (simp add: add.commute)

lemma word_inc_less: "(m :: 'a::len word) + 1 \<noteq> 0 \<Longrightarrow> m < m + 1"
  by (simp add: word_less_nat_alt word_inc_unat)

end
