(* ===== verification/Metadata.thy ===== *)
theory Metadata
  imports Prelude
begin

text \<open>
  The metadata models of \<^verbatim>\<open>repository/metadata\<close>: the rows of the six tables and the two
  query projections, one \<^theory_text>\<open>record\<close> per Go struct with the fields in source order.  The
  embedded struct \<^verbatim>\<open>Shared\<close> is the record the row types extend.  Go's string-based enum
  types stay strings, because values outside the declared constants can occur; the
  constants are abbreviations.  A \<^verbatim>\<open>time.Time\<close> is an integer count of nanoseconds since the
  Unix epoch and \<open>time_Zero\<close> is Go's zero time (January 1 of year 1).  \<^verbatim>\<open>uint32\<close>, \<^verbatim>\<open>uint64\<close>
  and \<^verbatim>\<open>int32\<close> fields are words.
\<close>

type_synonym time = int

definition time_Zero :: time where
  "time_Zero = - 62135596800000000000"

definition IsZero :: "time \<Rightarrow> bool" where
  "IsZero t = (t = time_Zero)"

section \<open>Enumerations\<close>

type_synonym ChallengeType = string
abbreviation ChallengeTypeDNS01 :: ChallengeType where "ChallengeTypeDNS01 \<equiv> ''dns-01''"
abbreviation ChallengeTypeHTTP01 :: ChallengeType where "ChallengeTypeHTTP01 \<equiv> ''http-01''"

type_synonym ACMEProvider = string
abbreviation ProviderLetsEncrypt :: ACMEProvider where "ProviderLetsEncrypt \<equiv> ''letsencrypt''"
abbreviation ProviderZeroSSL :: ACMEProvider where "ProviderZeroSSL \<equiv> ''zerossl''"

type_synonym DNSRecordType = string
abbreviation DNSTypeA :: DNSRecordType where "DNSTypeA \<equiv> ''A''"
abbreviation DNSTypeAAAA :: DNSRecordType where "DNSTypeAAAA \<equiv> ''AAAA''"
abbreviation DNSTypeCNAME :: DNSRecordType where "DNSTypeCNAME \<equiv> ''CNAME''"
abbreviation DNSTypeTXT :: DNSRecordType where "DNSTypeTXT \<equiv> ''TXT''"
abbreviation DNSTypeMX :: DNSRecordType where "DNSTypeMX \<equiv> ''MX''"
abbreviation DNSTypeNS :: DNSRecordType where "DNSTypeNS \<equiv> ''NS''"
abbreviation DNSTypeSRV :: DNSRecordType where "DNSTypeSRV \<equiv> ''SRV''"
abbreviation DNSTypeCAA :: DNSRecordType where "DNSTypeCAA \<equiv> ''CAA''"

type_synonym BackendType = string
abbreviation BackendTypeL4TLSPassthrough :: BackendType where
  "BackendTypeL4TLSPassthrough \<equiv> ''l4-tls-passthrough''"
abbreviation BackendTypeL4TLSTermination :: BackendType where
  "BackendTypeL4TLSTermination \<equiv> ''l4-tls-termination''"
abbreviation BackendTypeL7HTTPS :: BackendType where "BackendTypeL7HTTPS \<equiv> ''l7-https''"
abbreviation BackendTypeL7HTTP :: BackendType where "BackendTypeL7HTTP \<equiv> ''l7-http''"
abbreviation BackendTypeL7HTTPBoth :: BackendType where "BackendTypeL7HTTPBoth \<equiv> ''l7-http-both''"

type_synonym ServiceBackendType = string
abbreviation ServiceBackendTypeSVC :: ServiceBackendType where "ServiceBackendTypeSVC \<equiv> ''SVC''"
abbreviation ServiceBackendTypeExternal :: ServiceBackendType where
  "ServiceBackendTypeExternal \<equiv> ''EXTERNAL''"

type_synonym SnapshotSyncType = string
abbreviation SnapshotSyncTypeDNSRecord :: SnapshotSyncType where
  "SnapshotSyncTypeDNSRecord \<equiv> ''DNSRecord''"
abbreviation SnapshotSyncTypeDomainEntryProjection :: SnapshotSyncType where
  "SnapshotSyncTypeDomainEntryProjection \<equiv> ''DomainEntryProjection''"

type_synonym SnapshotAction = string
abbreviation SnapshotActionDelete :: SnapshotAction where "SnapshotActionDelete \<equiv> ''delete''"
abbreviation SnapshotActionUpsert :: SnapshotAction where "SnapshotActionUpsert \<equiv> ''upsert''"

section \<open>Rows\<close>

record Shared =
  Deleted :: bool
  CreatedAt :: time
  UpdatedAt :: time

record CertificateRevision = Shared +
  cr_ID :: string
  cr_Hostname :: string
  cr_Revision :: "64 word"
  cr_Provider :: ACMEProvider
  cr_ChallengeType :: ChallengeType
  cr_ArtifactBucket :: string
  cr_ArtifactPrefix :: string
  cr_SHA256Crt :: string
  cr_SHA256Key :: string
  cr_NotBefore :: time
  cr_NotAfter :: time

record DNSRecord = Shared +
  dr_ID :: string
  dr_FQDN :: string
  dr_RecordType :: DNSRecordType
  dr_RoutingClass :: string
  dr_TTLSeconds :: "32 word"
  dr_ValuesJSON :: string
  dr_RoutingKey :: string
  dr_Enabled :: bool

record DomainEndpoint = Shared +
  de_Hostname :: string
  de_NeedCert :: bool
  de_BackendType :: BackendType
  de_BindedServiceID :: string

record HTTPRoute = Shared +
  hr_ID :: string
  hr_Hostname :: string
  hr_Path :: string
  hr_Priority :: "32 word"
  hr_BackendRefID :: string

record ServiceBackendRef = Shared +
  sb_ID :: string
  sb_Type :: ServiceBackendType
  sb_ArbitraryEndpoint :: string
  sb_ServiceNamespace :: string
  sb_ServiceName :: string
  sb_Port :: "32 word"

record SnapshotRecord =
  sr_ID :: "64 word"
  sr_SyncType :: SnapshotSyncType
  sr_SyncID :: string
  sr_Action :: SnapshotAction
  sr_CreatedAt :: time

section \<open>Query projections\<close>

record HTTPRouteProjection =
  hp_ID :: string
  hp_Path :: string
  hp_Priority :: "32 word"
  hp_BackendRef :: "ServiceBackendRef option"

record DomainEntryProjection =
  dp_Hostname :: string
  dp_Deleted :: bool
  dp_NeedCert :: bool
  dp_Cert :: "CertificateRevision option"
  dp_BackendType :: BackendType
  dp_HTTPRoutes :: "HTTPRouteProjection list"
  dp_BindedBackendRef :: "ServiceBackendRef option"

section \<open>Zero values\<close>

definition zero_Shared :: Shared where
  "zero_Shared = \<lparr>Deleted = False, CreatedAt = time_Zero, UpdatedAt = time_Zero\<rparr>"

definition zero_DNSRecord :: DNSRecord where
  "zero_DNSRecord = \<lparr>Deleted = False, CreatedAt = time_Zero, UpdatedAt = time_Zero, dr_ID = [], dr_FQDN = [],
     dr_RecordType = [], dr_RoutingClass = [], dr_TTLSeconds = 0, dr_ValuesJSON = [],
     dr_RoutingKey = [], dr_Enabled = False\<rparr>"

definition zero_DomainEndpoint :: DomainEndpoint where
  "zero_DomainEndpoint = \<lparr>Deleted = False, CreatedAt = time_Zero, UpdatedAt = time_Zero,
     de_Hostname = [], de_NeedCert = False, de_BackendType = [], de_BindedServiceID = []\<rparr>"

definition zero_HTTPRoute :: HTTPRoute where
  "zero_HTTPRoute = \<lparr>Deleted = False, CreatedAt = time_Zero, UpdatedAt = time_Zero,
     hr_ID = [], hr_Hostname = [], hr_Path = [], hr_Priority = 0, hr_BackendRefID = []\<rparr>"

definition zero_ServiceBackendRef :: ServiceBackendRef where
  "zero_ServiceBackendRef = \<lparr>Deleted = False, CreatedAt = time_Zero, UpdatedAt = time_Zero,
     sb_ID = [], sb_Type = [], sb_ArbitraryEndpoint = [], sb_ServiceNamespace = [],
     sb_ServiceName = [], sb_Port = 0\<rparr>"

definition zero_CertificateRevision :: CertificateRevision where
  "zero_CertificateRevision = \<lparr>Deleted = False, CreatedAt = time_Zero, UpdatedAt = time_Zero,
     cr_ID = [], cr_Hostname = [], cr_Revision = 0, cr_Provider = [], cr_ChallengeType = [],
     cr_ArtifactBucket = [], cr_ArtifactPrefix = [], cr_SHA256Crt = [], cr_SHA256Key = [],
     cr_NotBefore = time_Zero, cr_NotAfter = time_Zero\<rparr>"

definition zero_DomainEntryProjection :: DomainEntryProjection where
  "zero_DomainEntryProjection = \<lparr>dp_Hostname = [], dp_Deleted = False, dp_NeedCert = False,
     dp_Cert = None, dp_BackendType = [], dp_HTTPRoutes = [], dp_BindedBackendRef = None\<rparr>"

definition zero_HTTPRouteProjection :: HTTPRouteProjection where
  "zero_HTTPRouteProjection = \<lparr>hp_ID = [], hp_Path = [], hp_Priority = 0, hp_BackendRef = None\<rparr>"

end
