(* ===== verification/Dns_Store.thy ===== *)
theory Dns_Store
  imports Metadata
begin

text \<open>
  The DNS memory store of \<^verbatim>\<open>dns/cache.go\<close> with the normalisers of \<^verbatim>\<open>dns/types.go\<close>.  The store
  keeps the records by domain and record id (\<open>byDomain\<close>) and an answer index by question
  (\<open>byKey\<close>).  Every operation is a state transformer; locks are not represented because each
  operation holds the store's mutex from its first to its last statement.

  The table \<^verbatim>\<open>StringToType\<close> of \<^verbatim>\<open>github.com/miekg/dns\<close> is not part of the sources: the
  definitions take the predicate \<open>kt\<close> that tells which type names it contains.

  The lemmas show that the index always agrees with the stored records (\<open>store_inv\<close>) and
  that the store implements a plain finite map from (domain, record id) to record.
\<close>

section \<open>Questions and answers\<close>

record DNSQuestion =
  q_FQDN :: string
  q_RecordType :: DNSRecordType

record DNSAnswerSet =
  as_Question :: DNSQuestion
  as_Found :: bool
  as_Records :: "DNSRecord list"

definition normalizeFQDN :: "string \<Rightarrow> string" where
  "normalizeFQDN v0 = (
     let value = TrimSuffix (TrimSpace (ToLower v0)) ''.'' in
     if value = [] then [] else value @ ''.'')"

definition normalizeRecordType :: "(string \<Rightarrow> bool) \<Rightarrow> DNSRecordType \<Rightarrow> DNSRecordType" where
  "normalizeRecordType kt v0 = (
     let value = ToUpper (TrimSpace v0) in
     if value = [] then [] else if kt value then value else [])"

definition normalizeQuestion :: "(string \<Rightarrow> bool) \<Rightarrow> DNSQuestion \<Rightarrow> DNSQuestion" where
  "normalizeQuestion kt q = \<lparr>q_FQDN = normalizeFQDN (q_FQDN q), q_RecordType = normalizeRecordType kt (q_RecordType q)\<rparr>"

definition dnsCacheKey :: "(string \<Rightarrow> bool) \<Rightarrow> DNSQuestion \<Rightarrow> string" where
  "dnsCacheKey kt q0 = (let q = normalizeQuestion kt q0 in q_FQDN q @ ''|'' @ q_RecordType q)"

definition questionFromRecord :: "DNSRecord \<Rightarrow> DNSQuestion" where
  "questionFromRecord r = \<lparr>q_FQDN = dr_FQDN r, q_RecordType = dr_RecordType r\<rparr>"

definition cloneDNSRecords :: "DNSRecord list \<Rightarrow> DNSRecord list" where
  "cloneDNSRecords rs = rs"

section \<open>The store\<close>

record dnsMemoryStore =
  byKey :: "string \<rightharpoonup> DNSRecord list"
  byDomain :: "(string \<times> (string \<times> DNSRecord) list) list"

definition newDNSMemoryStore :: dnsMemoryStore where
  "newDNSMemoryStore = \<lparr>byKey = Map.empty, byDomain = []\<rparr>"

text \<open>The two nested loops over \<^verbatim>\<open>byDomain\<close> in \<^verbatim>\<open>rebuildQuestionLocked\<close>.\<close>

definition all_records :: "(string \<times> (string \<times> DNSRecord) list) list \<Rightarrow> DNSRecord list" where
  "all_records m = concat (map (\<lambda>(d, rs). map snd rs) m)"

definition answers :: "string \<Rightarrow> DNSRecordType \<Rightarrow> DNSRecord \<Rightarrow> bool" where
  "answers fqdn ty r = (dr_Enabled r \<and> normalizeFQDN (dr_FQDN r) = fqdn \<and> dr_RecordType r = ty)"

definition rebuildQuestionLocked ::
  "(string \<Rightarrow> bool) \<Rightarrow> string \<Rightarrow> DNSRecordType \<Rightarrow> dnsMemoryStore \<Rightarrow> dnsMemoryStore" where
  "rebuildQuestionLocked kt fqdn recordType s = (
     let question = normalizeQuestion kt \<lparr>q_FQDN = fqdn, q_RecordType = recordType\<rparr>;
         key = dnsCacheKey kt question;
         records = filter (answers (q_FQDN question) (q_RecordType question)) (all_records (byDomain s)) in
     if records = [] then s\<lparr>byKey := (byKey s)(key := None)\<rparr>
     else s\<lparr>byKey := (byKey s)(key := Some records)\<rparr>)"

definition domain_records :: "dnsMemoryStore \<Rightarrow> string \<Rightarrow> (string \<times> DNSRecord) list" where
  "domain_records s d = (case map_of (byDomain s) d of None \<Rightarrow> [] | Some rs \<Rightarrow> rs)"

definition upsertLocked :: "(string \<Rightarrow> bool) \<Rightarrow> DNSRecord \<Rightarrow> dnsMemoryStore \<Rightarrow> dnsMemoryStore" where
  "upsertLocked kt r0 s = (
     let record = r0\<lparr>dr_FQDN := normalizeFQDN (dr_FQDN r0)\<rparr>;
         d = dr_FQDN record;
         s1 = (case map_of (byDomain s) d of
             None \<Rightarrow> s\<lparr>byDomain := AList.update d [] (byDomain s)\<rparr>
           | Some rs \<Rightarrow> (case map_of rs (dr_ID record) of
               None \<Rightarrow> s
             | Some existing \<Rightarrow>
                 rebuildQuestionLocked kt (dr_FQDN existing) (dr_RecordType existing)
                   (s\<lparr>byDomain := AList.update d (AList.delete (dr_ID record) rs) (byDomain s)\<rparr>)));
         s2 = s1\<lparr>byDomain := AList.update d (AList.update (dr_ID record) record (domain_records s1 d)) (byDomain s1)\<rparr> in
     rebuildQuestionLocked kt d (dr_RecordType record) s2)"

definition answerSetLocked :: "(string \<Rightarrow> bool) \<Rightarrow> DNSQuestion \<Rightarrow> dnsMemoryStore \<Rightarrow> DNSAnswerSet" where
  "answerSetLocked kt q0 s = (
     let question = normalizeQuestion kt q0 in
     case byKey s (dnsCacheKey kt question) of
       None \<Rightarrow> \<lparr>as_Question = question, as_Found = False, as_Records = []\<rparr>
     | Some records \<Rightarrow> \<lparr>as_Question = question, as_Found = length records > 0, as_Records = cloneDNSRecords records\<rparr>)"

definition store_Lookup :: "(string \<Rightarrow> bool) \<Rightarrow> DNSQuestion \<Rightarrow> dnsMemoryStore \<Rightarrow> DNSAnswerSet \<times> bool" where
  "store_Lookup kt q0 s = (
     let question = normalizeQuestion kt q0 in
     case byKey s (dnsCacheKey kt question) of
       None \<Rightarrow> (\<lparr>as_Question = question, as_Found = False, as_Records = []\<rparr>, False)
     | Some records \<Rightarrow>
         (\<lparr>as_Question = question, as_Found = length records > 0, as_Records = cloneDNSRecords records\<rparr>, True))"

definition store_Restore :: "(string \<Rightarrow> bool) \<Rightarrow> DNSRecord list \<Rightarrow> dnsMemoryStore \<Rightarrow> dnsMemoryStore" where
  "store_Restore kt records s = fold (upsertLocked kt) records (s\<lparr>byKey := Map.empty, byDomain := []\<rparr>)"

definition store_Add :: "(string \<Rightarrow> bool) \<Rightarrow> DNSRecord \<Rightarrow> dnsMemoryStore \<Rightarrow> DNSAnswerSet \<times> dnsMemoryStore" where
  "store_Add kt r s = (let s' = upsertLocked kt r s in (answerSetLocked kt (questionFromRecord r) s', s'))"

definition store_Modify :: "(string \<Rightarrow> bool) \<Rightarrow> string \<Rightarrow> string \<Rightarrow> (DNSRecord \<Rightarrow> DNSRecord result) \<Rightarrow>
    dnsMemoryStore \<Rightarrow> (DNSRecord \<times> DNSAnswerSet) result \<times> dnsMemoryStore" where
  "store_Modify kt domainID recordID apply s = (
     case map_of (byDomain s) domainID of
       None \<Rightarrow> (Inl (ErrOn ''domain not found'' domainID), s)
     | Some domainRecords \<Rightarrow> (case map_of domainRecords recordID of
         None \<Rightarrow> (Inl (ErrOn ''dns record not found'' recordID), s)
       | Some r \<Rightarrow>
           let s1 = rebuildQuestionLocked kt (dr_FQDN r) (dr_RecordType r)
                 (s\<lparr>byDomain := AList.update domainID (AList.delete recordID domainRecords) (byDomain s)\<rparr>) in
           (case apply r of
              Inl e \<Rightarrow> (Inl e, s1)
            | Inr r' \<Rightarrow> let s2 = upsertLocked kt r' s1 in
                (Inr (r', answerSetLocked kt (questionFromRecord r') s2), s2))))"

definition store_Delete :: "(string \<Rightarrow> bool) \<Rightarrow> string \<Rightarrow> string \<Rightarrow>
    dnsMemoryStore \<Rightarrow> (DNSRecord \<times> DNSAnswerSet) result \<times> dnsMemoryStore" where
  "store_Delete kt domainID recordID s = (
     case map_of (byDomain s) domainID of
       None \<Rightarrow> (Inl (ErrOn ''domain not found'' domainID), s)
     | Some domainRecords \<Rightarrow> (case map_of domainRecords recordID of
         None \<Rightarrow> (Inl (ErrOn ''dns record not found'' recordID), s)
       | Some r \<Rightarrow>
           let rest = AList.delete recordID domainRecords;
               s1 = (if rest = [] then s\<lparr>byDomain := AList.delete domainID (byDomain s)\<rparr>
                     else s\<lparr>byDomain := AList.update domainID rest (byDomain s)\<rparr>);
               s2 = rebuildQuestionLocked kt (dr_FQDN r) (dr_RecordType r) s1 in
           (Inr (r, answerSetLocked kt (questionFromRecord r) s2), s2)))"

definition store_RefreshQuestion :: "(string \<Rightarrow> bool) \<Rightarrow> DNSQuestion \<Rightarrow> dnsMemoryStore \<Rightarrow> dnsMemoryStore" where
  "store_RefreshQuestion kt q0 s = (let q = normalizeQuestion kt q0 in
     rebuildQuestionLocked kt (q_FQDN q) (q_RecordType q) s)"

definition store_Clear :: "dnsMemoryStore \<Rightarrow> dnsMemoryStore" where
  "store_Clear s = s\<lparr>byKey := Map.empty, byDomain := []\<rparr>"

section \<open>Histories of operations\<close>

datatype store_op =
    OpRestore "DNSRecord list"
  | OpAdd DNSRecord
  | OpModify string string "DNSRecord \<Rightarrow> DNSRecord result"
  | OpDelete string string
  | OpRefresh DNSQuestion
  | OpClear

fun store_step :: "(string \<Rightarrow> bool) \<Rightarrow> store_op \<Rightarrow> dnsMemoryStore \<Rightarrow> dnsMemoryStore" where
  "store_step kt (OpRestore rs) s = store_Restore kt rs s"
| "store_step kt (OpAdd r) s = snd (store_Add kt r s)"
| "store_step kt (OpModify d i f) s = snd (store_Modify kt d i f s)"
| "store_step kt (OpDelete d i) s = snd (store_Delete kt d i s)"
| "store_step kt (OpRefresh q) s = store_RefreshQuestion kt q s"
| "store_step kt OpClear s = store_Clear s"

definition store_run :: "(string \<Rightarrow> bool) \<Rightarrow> store_op list \<Rightarrow> dnsMemoryStore" where
  "store_run kt ops = fold (store_step kt) ops newDNSMemoryStore"

section \<open>The abstract store\<close>

type_synonym record_map = "string \<times> string \<rightharpoonup> DNSRecord"

definition spec_put :: "DNSRecord \<Rightarrow> record_map \<Rightarrow> record_map" where
  "spec_put r m = m((normalizeFQDN (dr_FQDN r), dr_ID r) \<mapsto> r\<lparr>dr_FQDN := normalizeFQDN (dr_FQDN r)\<rparr>)"

fun spec_step :: "store_op \<Rightarrow> record_map \<Rightarrow> record_map" where
  "spec_step (OpRestore rs) m = fold spec_put rs Map.empty"
| "spec_step (OpAdd r) m = spec_put r m"
| "spec_step (OpModify d i f) m = (case m (d, i) of
      None \<Rightarrow> m
    | Some r \<Rightarrow> (case f r of Inl e \<Rightarrow> m((d, i) := None) | Inr r' \<Rightarrow> spec_put r' (m((d, i) := None))))"
| "spec_step (OpDelete d i) m = m((d, i) := None)"
| "spec_step (OpRefresh q) m = m"
| "spec_step OpClear m = Map.empty"

definition spec_run :: "store_op list \<Rightarrow> record_map" where
  "spec_run ops = fold spec_step ops Map.empty"

definition abs_store :: "dnsMemoryStore \<Rightarrow> record_map" where
  "abs_store s = (\<lambda>(d, i). map_of (domain_records s d) i)"

definition index_ok :: "(string \<Rightarrow> bool) \<Rightarrow> dnsMemoryStore \<Rightarrow> bool" where
  "index_ok kt s = (\<forall>q. byKey s (dnsCacheKey kt q) = (
     let l = filter (answers (q_FQDN (normalizeQuestion kt q)) (q_RecordType (normalizeQuestion kt q)))
               (all_records (byDomain s)) in
     if l = [] then None else Some l))"

definition tables_ok :: "dnsMemoryStore \<Rightarrow> bool" where
  "tables_ok s = (distinct (map fst (byDomain s)) \<and>
     (\<forall>(d, rs) \<in> set (byDomain s). normalizeFQDN d = d \<and> distinct (map fst rs) \<and>
        (\<forall>(i, r) \<in> set rs. dr_ID r = i \<and> dr_FQDN r = d)))"

definition entries_ok :: "string \<Rightarrow> (string \<times> DNSRecord) list \<Rightarrow> bool" where
  "entries_ok d rs = (distinct (map fst rs) \<and> (\<forall>(i, r) \<in> set rs. dr_ID r = i \<and> dr_FQDN r = d))"

definition store_inv :: "(string \<Rightarrow> bool) \<Rightarrow> dnsMemoryStore \<Rightarrow> bool" where
  "store_inv kt s = (tables_ok s \<and> index_ok kt s)"

text \<open>The type names in the table of the DNS library do not contain the separator of the
  cache key.\<close>

definition no_bar :: "(string \<Rightarrow> bool) \<Rightarrow> bool" where
  "no_bar kt = (\<forall>t. kt t \<longrightarrow> CHR ''|'' \<notin> set t)"

text \<open>What a question should be answered with, according to the abstract store.\<close>

definition spec_answers :: "(string \<Rightarrow> bool) \<Rightarrow> record_map \<Rightarrow> DNSQuestion \<Rightarrow> DNSRecord set" where
  "spec_answers kt m q = {r \<in> ran m. dr_Enabled r \<and> normalizeFQDN (dr_FQDN r) = normalizeFQDN (q_FQDN q) \<and>
     dr_RecordType r = normalizeRecordType kt (q_RecordType q)}"

section \<open>Normal forms\<close>

lemma normalizeFQDN_idem [simp, norm_simps]: "normalizeFQDN (normalizeFQDN v) = normalizeFQDN v"
proof (cases "normalizeFQDN v = []")
  case False
  define t where "t = TrimSpace (ToLower v)"
  define w where "w = TrimSuffix t ''.''"
  from False have w: "w \<noteq> []" "normalizeFQDN v = w @ ''.''"
    by (auto simp: normalizeFQDN_def Let_def w_def t_def split: if_splits)
  obtain u where u: "t = w @ u" by (metis w_def TrimSuffix_def append_take_drop_id self_append_conv)
  with w have "t \<noteq> []" "hd t = hd w" by auto
  moreover have "\<not> is_space (hd t)" if "t \<noteq> []"
    using TrimFunc_ends(1) [of is_space "ToLower v"] that by (simp add: t_def TrimSpace_def)
  ultimately have "TrimSpace (w @ ''.'') = w @ ''.''"
    unfolding TrimSpace_def using w by (intro TrimFunc_fixed) (auto simp: is_space_def Let_def)
  moreover have "ToLower (w @ ''.'') = w @ ''.''"
  proof -
    have "ToLower t = t" by (simp add: t_def TrimSpace_ToLower)
    then have "ToLower w = w" using u by (simp add: ToLower_append) (metis append_eq_append_conv length_map ToLower_def)
    then show ?thesis by (simp add: ToLower_append) (simp add: ToLower_def lower_char_def Let_def)
  qed
  ultimately have "TrimSuffix (TrimSpace (ToLower (w @ ''.''))) ''.'' = w" by simp
  then show ?thesis using w by (simp add: normalizeFQDN_def Let_def)
qed (simp add: normalizeFQDN_def TrimSuffix_def HasSuffix_def)

lemma normalizeRecordType_idem [simp, norm_simps]:
  "normalizeRecordType kt (normalizeRecordType kt v) = normalizeRecordType kt v"
  by (auto simp: normalizeRecordType_def Let_def TrimSpace_ToUpper)

lemma normalizeQuestion_idem [simp, norm_simps]:
  "normalizeQuestion kt (normalizeQuestion kt q) = normalizeQuestion kt q"
  by (simp add: normalizeQuestion_def)

lemma normalizeQuestion_sel [simp]:
  "q_FQDN (normalizeQuestion kt q) = normalizeFQDN (q_FQDN q)"
  "q_RecordType (normalizeQuestion kt q) = normalizeRecordType kt (q_RecordType q)"
  by (simp_all add: normalizeQuestion_def)

lemma dnsCacheKey_norm [simp]: "dnsCacheKey kt (normalizeQuestion kt q) = dnsCacheKey kt q"
  by (simp add: dnsCacheKey_def)

lemma append_bar_inj:
  assumes "a @ c # b = a' @ c # b'" "c \<notin> set b" "c \<notin> set b'"
  shows "a = a' \<and> b = b'"
proof -
  have tw: "takeWhile (\<lambda>x. x \<noteq> c) (rev (a @ c # b)) = rev b" if "c \<notin> set b" for a b
    using that by (simp, subst takeWhile_append2) auto
  have "rev b = rev b'" using tw [of b a] tw [of b' a'] assms by simp
  then show ?thesis using assms(1) by simp
qed

lemma dnsCacheKey_inj:
  assumes "no_bar kt"
  shows "dnsCacheKey kt q = dnsCacheKey kt q' \<longleftrightarrow> normalizeQuestion kt q = normalizeQuestion kt q'"
proof
  assume "dnsCacheKey kt q = dnsCacheKey kt q'"
  moreover have "CHR ''|'' \<notin> set (normalizeRecordType kt t)" for t
    using assms by (auto simp: no_bar_def normalizeRecordType_def Let_def)
  ultimately show "normalizeQuestion kt q = normalizeQuestion kt q'"
    by (auto simp: dnsCacheKey_def Let_def normalizeQuestion_def dest!: append_bar_inj)
qed (simp add: dnsCacheKey_def)

section \<open>The answer index\<close>

lemma answers_question:
  "answers (normalizeFQDN (q_FQDN q)) (normalizeRecordType kt (q_RecordType q)) r \<Longrightarrow>
   normalizeQuestion kt q = normalizeQuestion kt (questionFromRecord r)"
  by (auto simp: answers_def questionFromRecord_def normalizeQuestion_def)

lemma rebuild_byDomain [simp]: "byDomain (rebuildQuestionLocked kt f t s) = byDomain s"
  by (simp add: rebuildQuestionLocked_def Let_def)

lemma rebuild_domain_records [simp]: "domain_records (rebuildQuestionLocked kt f t s) = domain_records s"
  by (simp add: domain_records_def fun_eq_iff)

lemma rebuild_tables [simp]: "tables_ok (rebuildQuestionLocked kt f t s) = tables_ok s"
  by (simp add: tables_ok_def)

lemma rebuild_abs [simp]: "abs_store (rebuildQuestionLocked kt f t s) = abs_store s"
  by (simp add: abs_store_def fun_eq_iff)

text \<open>Rebuilding the question of a record repairs the index after any change of the tables
  that concerns that record only.\<close>

lemma rebuild_repairs:
  assumes "no_bar kt" "index_ok kt s" "byKey s' = byKey s"
    and only: "\<And>P. \<not> P r \<Longrightarrow> filter P (all_records (byDomain s')) = filter P (all_records (byDomain s))"
  shows "index_ok kt (rebuildQuestionLocked kt (dr_FQDN r) (dr_RecordType r) s')"
  unfolding index_ok_def
proof
  fix q
  let ?rq = "normalizeQuestion kt (questionFromRecord r)"
  let ?P = "answers (q_FQDN (normalizeQuestion kt q)) (q_RecordType (normalizeQuestion kt q))"
  have key: "dnsCacheKey kt q = dnsCacheKey kt (questionFromRecord r) \<longleftrightarrow> normalizeQuestion kt q = ?rq"
    using dnsCacheKey_inj [OF assms(1)] by simp
  show "byKey (rebuildQuestionLocked kt (dr_FQDN r) (dr_RecordType r) s') (dnsCacheKey kt q) =
     (let l = filter ?P (all_records (byDomain (rebuildQuestionLocked kt (dr_FQDN r) (dr_RecordType r) s'))) in
      if l = [] then None else Some l)"
  proof (cases "normalizeQuestion kt q = ?rq")
    case True
    then have "q_FQDN (normalizeQuestion kt q) = normalizeFQDN (dr_FQDN r)"
      "q_RecordType (normalizeQuestion kt q) = normalizeRecordType kt (dr_RecordType r)"
      "dnsCacheKey kt q = dnsCacheKey kt (questionFromRecord r)"
      using key by (simp_all add: questionFromRecord_def)
    then show ?thesis
      by (simp add: rebuildQuestionLocked_def Let_def questionFromRecord_def)
  next
    case False
    then have "\<not> ?P r" using answers_question by fastforce
    moreover have "dnsCacheKey kt (questionFromRecord r) \<noteq> dnsCacheKey kt q" using key False by metis
    ultimately show ?thesis
      using assms(2) only [of ?P]
      by (auto simp: rebuildQuestionLocked_def Let_def index_ok_def assms(3) questionFromRecord_def)
  qed
qed

lemma filter_update_same:
  "(\<And>old. map_of m k = Some old \<Longrightarrow> \<not> P old) \<Longrightarrow> \<not> P v \<Longrightarrow>
   filter P (map snd (AList.update k v m)) = filter P (map snd m)"
  by (induction m) auto

lemma filter_delete_same:
  "(\<And>old. (k, old) \<in> set m \<Longrightarrow> \<not> P old) \<Longrightarrow> filter P (map snd (AList.delete k m)) = filter P (map snd m)"
  by (induction m) auto

lemma all_records_update:
  assumes "filter P (map snd rs) = filter P (map snd (case map_of m d of None \<Rightarrow> [] | Some rs' \<Rightarrow> rs'))"
  shows "filter P (all_records (AList.update d rs m)) = filter P (all_records m)"
  using assms by (induction m) (auto simp: all_records_def)

lemma all_records_delete:
  assumes "distinct (map fst m)" "map_of m d = Some rs" "filter P (map snd rs) = []"
  shows "filter P (all_records (AList.delete d m)) = filter P (all_records m)"
proof -
  have "filter P (all_records (AList.delete d m)) = filter P (all_records m)"
    if "\<And>rs. (d, rs) \<in> set m \<Longrightarrow> filter P (map snd rs) = []"
    using that by (induction m) (auto simp: all_records_def)
  then show ?thesis using assms by (metis map_of_eq_Some_iff option.inject)
qed

section \<open>The tables\<close>

lemma entries_Nil [simp]: "entries_ok d []"
  by (simp add: entries_ok_def)

lemma tables_ok_alt:
  "tables_ok s \<longleftrightarrow> distinct (map fst (byDomain s)) \<and>
     (\<forall>(d, rs) \<in> set (byDomain s). normalizeFQDN d = d \<and> entries_ok d rs)"
  by (auto simp: tables_ok_def entries_ok_def)

lemma tables_domain:
  assumes "tables_ok s" "map_of (byDomain s) d = Some rs"
  shows "entries_ok d rs" "normalizeFQDN d = d"
  using assms by (auto simp: tables_ok_alt dest!: map_of_SomeD)

lemma tables_domain_records: "tables_ok s \<Longrightarrow> entries_ok d (domain_records s d)"
  by (auto simp: domain_records_def dest: tables_domain split: option.splits)

lemma tables_update:
  "tables_ok s \<Longrightarrow> normalizeFQDN d = d \<Longrightarrow> entries_ok d rs \<Longrightarrow>
   tables_ok (s\<lparr>byDomain := AList.update d rs (byDomain s)\<rparr>)"
  by (auto simp: tables_ok_alt dest!: set_update_cases)

lemma tables_delete: "tables_ok s \<Longrightarrow> tables_ok (s\<lparr>byDomain := AList.delete d (byDomain s)\<rparr>)"
  by (auto simp: tables_ok_alt dest!: set_delete_cases)

lemma entries_delete: "entries_ok d rs \<Longrightarrow> entries_ok d (AList.delete i rs)"
  by (auto simp: entries_ok_def dest!: set_delete_cases)

lemma entries_update: "entries_ok d rs \<Longrightarrow> dr_ID r = i \<Longrightarrow> dr_FQDN r = d \<Longrightarrow> entries_ok d (AList.update i r rs)"
  by (auto simp: entries_ok_def dest!: set_update_cases)

lemma domain_records_update:
  "domain_records (s\<lparr>byDomain := AList.update d rs (byDomain s)\<rparr>) d' = (if d' = d then rs else domain_records s d')"
  by (simp add: domain_records_def)

lemma abs_update:
  "abs_store (s\<lparr>byDomain := AList.update d rs (byDomain s)\<rparr>) =
   (\<lambda>(d', i). if d' = d then map_of rs i else abs_store s (d', i))"
  by (auto simp: abs_store_def domain_records_update fun_eq_iff)

text \<open>Removing the record \<open>r\<close> stored under \<open>d\<close> and \<open>i\<close> from the tables, as \<open>Modify\<close> and the
  replacing branch of \<open>upsertLocked\<close> do.\<close>

lemma remove_record:
  assumes "no_bar kt" "store_inv kt s" "map_of (byDomain s) d = Some rs" "map_of rs i = Some r"
  defines "s' \<equiv> rebuildQuestionLocked kt (dr_FQDN r) (dr_RecordType r)
    (s\<lparr>byDomain := AList.update d (AList.delete i rs) (byDomain s)\<rparr>)"
  shows "store_inv kt s'" "abs_store s' = (abs_store s)((d, i) := None)"
proof -
  have t: "tables_ok s" "index_ok kt s" using assms(2) by (auto simp: store_inv_def)
  have e: "entries_ok d rs" "normalizeFQDN d = d" using tables_domain [OF t(1) assms(3)] by auto
  have only: "filter P (all_records (AList.update d (AList.delete i rs) (byDomain s))) = filter P (all_records (byDomain s))"
    if "\<not> P r" for P
  proof (rule all_records_update)
    have "old = r" if "(i, old) \<in> set rs" for old
      using that assms(4) e(1) by (metis entries_ok_def map_of_eq_Some_iff option.inject)
    then have "filter P (map snd (AList.delete i rs)) = filter P (map snd rs)"
      using \<open>\<not> P r\<close> by (intro filter_delete_same) auto
    then show "filter P (map snd (AList.delete i rs)) =
       filter P (map snd (case map_of (byDomain s) d of None \<Rightarrow> [] | Some rs' \<Rightarrow> rs'))"
      by (simp add: assms(3))
  qed
  have "index_ok kt s'"
    unfolding s'_def using only by (intro rebuild_repairs [OF assms(1) t(2)]) auto
  moreover have "tables_ok s'" unfolding s'_def using t e by (simp add: tables_update entries_delete)
  ultimately show "store_inv kt s'" by (simp add: store_inv_def)
  show "abs_store s' = (abs_store s)((d, i) := None)"
    using assms(3) by (auto simp: s'_def abs_update abs_store_def domain_records_def fun_eq_iff)
qed

lemma insert_record:
  assumes "no_bar kt" "store_inv kt s" "abs_store s (d, i) = None" "normalizeFQDN d = d"
    "dr_ID r = i" "dr_FQDN r = d"
  defines "s' \<equiv> rebuildQuestionLocked kt d (dr_RecordType r)
    (s\<lparr>byDomain := AList.update d (AList.update i r (domain_records s d)) (byDomain s)\<rparr>)"
  shows "store_inv kt s'" "abs_store s' = (abs_store s)((d, i) \<mapsto> r)"
proof -
  have t: "tables_ok s" "index_ok kt s" using assms(2) by (auto simp: store_inv_def)
  have none: "map_of (domain_records s d) i = None" using assms(3) by (simp add: abs_store_def)
  have only: "filter P (all_records (AList.update d (AList.update i r (domain_records s d)) (byDomain s)))
      = filter P (all_records (byDomain s))" if "\<not> P r" for P
    using that none by (intro all_records_update, fold domain_records_def) (rule filter_update_same, simp_all)
  have "index_ok kt (rebuildQuestionLocked kt (dr_FQDN r) (dr_RecordType r)
    (s\<lparr>byDomain := AList.update d (AList.update i r (domain_records s d)) (byDomain s)\<rparr>))"
    using only by (intro rebuild_repairs [OF assms(1) t(2)]) auto
  moreover have "tables_ok s'" unfolding s'_def
    using t assms tables_domain_records [OF t(1), of d] by (simp add: tables_update entries_update)
  ultimately show "store_inv kt s'" using assms(6) by (simp add: store_inv_def s'_def)
  show "abs_store s' = (abs_store s)((d, i) \<mapsto> r)"
    by (auto simp: s'_def abs_store_def domain_records_update fun_eq_iff)
qed

lemma touch_domain:
  assumes "store_inv kt s" "map_of (byDomain s) d = None" "normalizeFQDN d = d"
  defines "s' \<equiv> s\<lparr>byDomain := AList.update d [] (byDomain s)\<rparr>"
  shows "store_inv kt s'" "abs_store s' = abs_store s"
proof -
  have "filter P (all_records (AList.update d [] (byDomain s))) = filter P (all_records (byDomain s))" for P
    using assms(2) by (intro all_records_update) simp
  then have "index_ok kt s'" using assms(1) by (simp add: store_inv_def index_ok_def s'_def)
  moreover have "tables_ok s'"
    unfolding s'_def using assms by (intro tables_update) (auto simp: store_inv_def entries_ok_def)
  ultimately show "store_inv kt s'" by (simp add: store_inv_def)
  show "abs_store s' = abs_store s"
    using assms(2) by (auto simp: s'_def abs_update abs_store_def domain_records_def fun_eq_iff)
qed

lemma upsertLocked_refines:
  assumes "no_bar kt" "store_inv kt s"
  shows "store_inv kt (upsertLocked kt r s) \<and> abs_store (upsertLocked kt r s) = spec_put r (abs_store s)"
proof -
  define rec where "rec = r\<lparr>dr_FQDN := normalizeFQDN (dr_FQDN r)\<rparr>"
  define d where "d = normalizeFQDN (dr_FQDN r)"
  have rd: "dr_FQDN rec = d" by (simp add: rec_def d_def)
  define s1 where "s1 = (case map_of (byDomain s) d of
             None \<Rightarrow> s\<lparr>byDomain := AList.update d [] (byDomain s)\<rparr>
           | Some rs \<Rightarrow> (case map_of rs (dr_ID rec) of
               None \<Rightarrow> s
             | Some existing \<Rightarrow>
                 rebuildQuestionLocked kt (dr_FQDN existing) (dr_RecordType existing)
                   (s\<lparr>byDomain := AList.update d (AList.delete (dr_ID rec) rs) (byDomain s)\<rparr>)))"
  have u: "upsertLocked kt r s = rebuildQuestionLocked kt d (dr_RecordType rec)
     (s1\<lparr>byDomain := AList.update d (AList.update (dr_ID rec) rec (domain_records s1 d)) (byDomain s1)\<rparr>)"
    unfolding upsertLocked_def Let_def s1_def rec_def [symmetric] rd by (rule refl)
  have s1: "store_inv kt s1 \<and> abs_store s1 = (abs_store s)((d, dr_ID rec) := None)"
  proof (cases "map_of (byDomain s) d")
    case None
    then show ?thesis using touch_domain [OF assms(2) None]
      by (auto simp: s1_def d_def abs_store_def domain_records_def fun_eq_iff)
  next
    case (Some rs)
    show ?thesis
    proof (cases "map_of rs (dr_ID rec)")
      case None
      then show ?thesis using assms Some
        by (auto simp: s1_def abs_store_def domain_records_def fun_eq_iff)
    next
      case Some2: (Some e)
      then show ?thesis using remove_record [OF assms Some Some2] Some by (simp add: s1_def)
    qed
  qed
  then have "store_inv kt (upsertLocked kt r s) \<and> abs_store (upsertLocked kt r s) = (abs_store s1)((d, dr_ID rec) \<mapsto> rec)"
    unfolding u using insert_record [OF assms(1), of s1 d "dr_ID rec" rec] by (simp add: d_def rec_def)
  then show ?thesis using s1 by (simp add: spec_put_def d_def rec_def)
qed

section \<open>Operations\<close>

lemma store_inv_new [simp]: "store_inv kt newDNSMemoryStore" "abs_store newDNSMemoryStore = Map.empty"
  by (auto simp: store_inv_def tables_ok_def index_ok_def newDNSMemoryStore_def all_records_def
      abs_store_def domain_records_def fun_eq_iff)

lemma store_inv_Clear [simp]: "store_inv kt (store_Clear s)" "abs_store (store_Clear s) = Map.empty"
  by (auto simp: store_inv_def tables_ok_def index_ok_def store_Clear_def all_records_def
      abs_store_def domain_records_def fun_eq_iff)

lemma upserts_refine:
  assumes "no_bar kt" "store_inv kt s"
  shows "store_inv kt (fold (upsertLocked kt) rs s) \<and> abs_store (fold (upsertLocked kt) rs s) = fold spec_put rs (abs_store s)"
  using assms(2) by (induction rs arbitrary: s) (auto simp: upsertLocked_refines [OF assms(1)])

lemma store_Restore_refines:
  assumes "no_bar kt"
  shows "store_inv kt (store_Restore kt rs s) \<and> abs_store (store_Restore kt rs s) = fold spec_put rs Map.empty"
  using upserts_refine [OF assms store_inv_Clear(1), of rs s] by (simp add: store_Restore_def store_Clear_def [symmetric])

lemma store_Modify_refines:
  assumes "no_bar kt" "store_inv kt s"
  shows "store_inv kt (snd (store_Modify kt d i f s)) \<and>
     abs_store (snd (store_Modify kt d i f s)) = spec_step (OpModify d i f) (abs_store s)"
proof (cases "map_of (byDomain s) d")
  case None
  then show ?thesis using assms by (simp add: store_Modify_def abs_store_def domain_records_def)
next
  case (Some rs)
  show ?thesis
  proof (cases "map_of rs i")
    case None
    then show ?thesis using assms Some by (simp add: store_Modify_def abs_store_def domain_records_def)
  next
    case Some2: (Some r)
    then have a: "abs_store s (d, i) = Some r" using Some by (simp add: abs_store_def domain_records_def)
    note rm = remove_record [OF assms Some Some2]
    show ?thesis
      using Some Some2 a rm upsertLocked_refines [OF assms(1) rm(1)]
      by (cases "f r") (simp_all add: store_Modify_def Let_def)
  qed
qed

lemma store_Delete_refines:
  assumes "no_bar kt" "store_inv kt s"
  shows "store_inv kt (snd (store_Delete kt d i s)) \<and>
     abs_store (snd (store_Delete kt d i s)) = (abs_store s)((d, i) := None)"
proof (cases "map_of (byDomain s) d")
  case None
  then show ?thesis using assms by (auto simp: store_Delete_def abs_store_def domain_records_def fun_eq_iff)
next
  case (Some rs)
  have t: "tables_ok s" "index_ok kt s" using assms(2) by (auto simp: store_inv_def)
  show ?thesis
  proof (cases "map_of rs i")
    case None
    then show ?thesis using assms Some by (auto simp: store_Delete_def abs_store_def domain_records_def fun_eq_iff)
  next
    case Some2: (Some r)
    show ?thesis
    proof (cases "AList.delete i rs = []")
      case False
      then show ?thesis using remove_record [OF assms Some Some2] Some Some2 by (simp add: store_Delete_def Let_def)
    next
      case True
      have only: "filter P (all_records (AList.delete d (byDomain s))) = filter P (all_records (byDomain s))" if "\<not> P r" for P
      proof (rule all_records_delete [OF _ Some])
        have e: "entries_ok d rs" using tables_domain [OF t(1) Some] by simp
        have "old = r" if "(i, old) \<in> set rs" for old
          using that Some2 e by (metis entries_ok_def map_of_eq_Some_iff option.inject)
        then have "filter P (map snd (AList.delete i rs)) = filter P (map snd rs)"
          using \<open>\<not> P r\<close> by (intro filter_delete_same) auto
        then show "filter P (map snd rs) = []" using True by simp
      qed (use t in \<open>simp add: tables_ok_def\<close>)
      have "index_ok kt (rebuildQuestionLocked kt (dr_FQDN r) (dr_RecordType r) (s\<lparr>byDomain := AList.delete d (byDomain s)\<rparr>))"
        using only by (intro rebuild_repairs [OF assms(1) t(2)]) auto
      moreover have "map_of rs j = None" if "j \<noteq> i" for j
        using that map_of_delete_apply [of i rs j] True by simp
      ultimately show ?thesis
        using t Some Some2 True
        by (auto simp: store_Delete_def Let_def store_inv_def tables_delete abs_store_def domain_records_def fun_eq_iff)
    qed
  qed
qed

lemma index_ok_rebuild:
  assumes "index_ok kt s" "no_bar kt"
  shows "index_ok kt (rebuildQuestionLocked kt f t s)"
  using rebuild_repairs [OF assms(2,1), of s "zero_DNSRecord\<lparr>dr_FQDN := f, dr_RecordType := t\<rparr>"] by simp

lemma store_step_refines:
  assumes "no_bar kt" "store_inv kt s"
  shows "store_inv kt (store_step kt op s) \<and> abs_store (store_step kt op s) = spec_step op (abs_store s)"
  using assms
proof (cases op)
  case (OpRefresh q)
  then show ?thesis
    using assms by (simp add: store_RefreshQuestion_def Let_def store_inv_def index_ok_rebuild)
qed (simp_all add: store_Restore_refines store_Add_def Let_def upsertLocked_refines store_Delete_refines,
     use store_Modify_refines in force)

lemma store_run_refines:
  assumes "no_bar kt"
  shows "store_inv kt (store_run kt ops) \<and> abs_store (store_run kt ops) = spec_run ops"
proof -
  have "store_inv kt (fold (store_step kt) ops s) \<and> abs_store (fold (store_step kt) ops s) = fold spec_step ops (abs_store s)"
    if "store_inv kt s" for s
    using that by (induction ops arbitrary: s) (auto simp: store_step_refines [OF assms])
  from this [of newDNSMemoryStore] show ?thesis by (simp add: store_run_def spec_run_def)
qed

section \<open>Answers\<close>

lemma set_all_records: "set (all_records m) = {r. \<exists>d rs i. (d, rs) \<in> set m \<and> (i, r) \<in> set rs}"
proof (induction m)
  case (Cons x m)
  have "set (all_records (x # m)) = snd ` set (snd x) \<union> set (all_records m)"
    by (simp add: all_records_def case_prod_beta)
  moreover have "r \<in> snd ` set (snd x) \<longleftrightarrow> (\<exists>d rs i. (d, rs) = x \<and> (i, r) \<in> set rs)" for r
    by (cases x) force
  ultimately have "r \<in> set (all_records (x # m)) \<longleftrightarrow>
      (\<exists>d rs i. (d, rs) = x \<and> (i, r) \<in> set rs) \<or> (\<exists>d rs i. (d, rs) \<in> set m \<and> (i, r) \<in> set rs)" for r
    using Cons by simp
  then show ?case by (auto simp: set_eq_iff)
qed (simp add: all_records_def)

lemma distinct_all_records:
  "distinct (map fst m) \<Longrightarrow> (\<And>d rs. (d, rs) \<in> set m \<Longrightarrow> entries_ok d rs) \<Longrightarrow> distinct (all_records m)"
proof (induction m)
  case (Cons x m)
  obtain d rs where x: "x = (d, rs)" by (cases x)
  have e: "entries_ok d rs" using Cons.prems(2) x by simp
  have "inj_on snd (set rs)"
  proof (rule inj_onI)
    fix a b assume "a \<in> set rs" "b \<in> set rs" "snd a = snd b"
    with e have "fst a = dr_ID (snd a)" "fst b = dr_ID (snd b)" by (auto simp: entries_ok_def)
    then show "a = b" using \<open>snd a = snd b\<close> by (simp add: prod_eq_iff)
  qed
  moreover have "distinct rs" using e by (simp add: entries_ok_def distinct_map)
  ultimately have "distinct (map snd rs)" by (simp add: distinct_map)
  moreover have "r \<notin> set (all_records m)" if r: "r \<in> set (map snd rs)" for r
  proof
    assume "r \<in> set (all_records m)"
    then obtain d' rs' i' where d': "(d', rs') \<in> set m" "(i', r) \<in> set rs'" by (auto simp: set_all_records)
    then have "entries_ok d' rs'" using Cons.prems(2) by simp
    then have "dr_FQDN r = d'" using d'(2) by (auto simp: entries_ok_def)
    moreover have "dr_FQDN r = d" using r e by (auto simp: entries_ok_def)
    ultimately have "d \<in> fst ` set m" using d'(1) by force
    then show False using Cons.prems(1) by (simp add: x)
  qed
  ultimately show ?case using Cons by (auto simp: x all_records_def)
qed (simp add: all_records_def)

lemma all_records_abs:
  assumes "tables_ok s"
  shows "set (all_records (byDomain s)) = ran (abs_store s)" "distinct (all_records (byDomain s))"
proof -
  have *: "abs_store s (d, i) = Some r \<longleftrightarrow> (\<exists>rs. (d, rs) \<in> set (byDomain s) \<and> (i, r) \<in> set rs)" for d i r
  proof
    assume "abs_store s (d, i) = Some r"
    then show "\<exists>rs. (d, rs) \<in> set (byDomain s) \<and> (i, r) \<in> set rs"
      by (auto simp: abs_store_def domain_records_def dest!: map_of_SomeD split: option.splits)
  next
    assume "\<exists>rs. (d, rs) \<in> set (byDomain s) \<and> (i, r) \<in> set rs"
    then obtain rs where rs: "(d, rs) \<in> set (byDomain s)" "(i, r) \<in> set rs" by blast
    then have "map_of (byDomain s) d = Some rs" "map_of rs i = Some r"
      using assms by (auto simp: tables_ok_def intro!: map_of_is_SomeI)
    then show "abs_store s (d, i) = Some r" by (simp add: abs_store_def domain_records_def)
  qed
  show "set (all_records (byDomain s)) = ran (abs_store s)"
    unfolding ran_def set_all_records using * by auto
  show "distinct (all_records (byDomain s))"
    using assms by (intro distinct_all_records) (auto simp: tables_ok_alt)
qed

lemma store_Lookup_answers:
  fixes q :: DNSQuestion
  assumes "store_inv kt s"
  defines "M \<equiv> spec_answers kt (abs_store s) q"
  shows "set (as_Records (fst (store_Lookup kt q s))) = M" "distinct (as_Records (fst (store_Lookup kt q s)))"
    "snd (store_Lookup kt q s) \<longleftrightarrow> M \<noteq> {}" "as_Found (fst (store_Lookup kt q s)) \<longleftrightarrow> M \<noteq> {}"
    "as_Question (fst (store_Lookup kt q s)) = normalizeQuestion kt q"
proof -
  let ?l = "filter (answers (normalizeFQDN (q_FQDN q)) (normalizeRecordType kt (q_RecordType q))) (all_records (byDomain s))"
  have t: "tables_ok s" using assms by (simp add: store_inv_def)
  have k: "byKey s (dnsCacheKey kt q) = (if ?l = [] then None else Some ?l)"
    using assms by (simp add: store_inv_def index_ok_def Let_def)
  have m: "set ?l = M" "distinct ?l" using all_records_abs [OF t] by (auto simp: M_def spec_answers_def answers_def)
  then have e: "?l = [] \<longleftrightarrow> M = {}" by (metis set_empty)
  have L: "store_Lookup kt q s = (if ?l = [] then (\<lparr>as_Question = normalizeQuestion kt q, as_Found = False, as_Records = []\<rparr>, False)
     else (\<lparr>as_Question = normalizeQuestion kt q, as_Found = True, as_Records = ?l\<rparr>, True))"
    by (simp add: store_Lookup_def k cloneDNSRecords_def)
  show "set (as_Records (fst (store_Lookup kt q s))) = M" "distinct (as_Records (fst (store_Lookup kt q s)))"
    "snd (store_Lookup kt q s) \<longleftrightarrow> M \<noteq> {}" "as_Found (fst (store_Lookup kt q s)) \<longleftrightarrow> M \<noteq> {}"
    "as_Question (fst (store_Lookup kt q s)) = normalizeQuestion kt q"
    unfolding L using m e by (auto split: if_splits)
qed

section \<open>Properties\<close>

text \<open>C3. After any history of restores, additions, modifications, deletions, refreshes and
  clears, a lookup returns exactly the enabled records that the history leaves stored for
  the normalised question, each of them once, and reports a hit exactly when there is one:
  the incrementally maintained index never drifts from the records.  The history is
  evaluated in the abstract store, a finite map from (domain, record id) to record.\<close>
theorem store_Lookup_exact:
  assumes "no_bar kt"
  shows "set (as_Records (fst (store_Lookup kt q (store_run kt ops)))) = spec_answers kt (spec_run ops) q
    \<and> distinct (as_Records (fst (store_Lookup kt q (store_run kt ops))))
    \<and> (snd (store_Lookup kt q (store_run kt ops)) \<longleftrightarrow> spec_answers kt (spec_run ops) q \<noteq> {})
    \<and> as_Found (fst (store_Lookup kt q (store_run kt ops))) = snd (store_Lookup kt q (store_run kt ops))
    \<and> as_Question (fst (store_Lookup kt q (store_run kt ops))) = normalizeQuestion kt q"
  using store_Lookup_answers [of kt "store_run kt ops" q] store_run_refines [OF assms, of ops] by simp

theorem store_Lookup_exact_witness:
  "no_bar (\<lambda>t. t = ''A'') \<and>
   as_Found (fst (store_Lookup (\<lambda>t. t = ''A'') \<lparr>q_FQDN = ''a.b'', q_RecordType = ''a''\<rparr>
     (store_run (\<lambda>t. t = ''A'')
       [OpAdd (zero_DNSRecord\<lparr>dr_ID := ''1'', dr_FQDN := ''A.b'', dr_RecordType := ''A'', dr_Enabled := True\<rparr>),
        OpAdd (zero_DNSRecord\<lparr>dr_ID := ''2'', dr_FQDN := ''a.b.'', dr_RecordType := ''A'', dr_Enabled := True\<rparr>),
        OpDelete ''a.b.'' ''2'']))) "
proof -
  let ?kt = "\<lambda>t. t = ''A''" and ?q = "\<lparr>q_FQDN = ''a.b'', q_RecordType = ''a''\<rparr>"
  let ?r = "zero_DNSRecord\<lparr>dr_ID := ''1'', dr_FQDN := ''A.b'', dr_RecordType := ''A'', dr_Enabled := True\<rparr>"
  let ?ops = "[OpAdd ?r, OpAdd (zero_DNSRecord\<lparr>dr_ID := ''2'', dr_FQDN := ''a.b.'', dr_RecordType := ''A'', dr_Enabled := True\<rparr>),
    OpDelete ''a.b.'' ''2'']"
  have nb: "no_bar ?kt" by (simp add: no_bar_def)
  have n: "normalizeFQDN ''A.b'' = ''a.b.''" "normalizeFQDN ''a.b.'' = ''a.b.''" "normalizeFQDN ''a.b'' = ''a.b.''"
    "normalizeRecordType ?kt ''a'' = ''A''" by code_simp+
  have "spec_run ?ops (''a.b.'', ''1'') = Some (?r\<lparr>dr_FQDN := ''a.b.''\<rparr>)"
    by (simp add: spec_run_def spec_put_def n)
  then have "?r\<lparr>dr_FQDN := ''a.b.''\<rparr> \<in> spec_answers ?kt (spec_run ?ops) ?q"
    unfolding spec_answers_def by (auto simp: n intro: ranI)
  then have "as_Found (fst (store_Lookup ?kt ?q (store_run ?kt ?ops)))"
    using store_Lookup_exact [OF nb, of ?q ?ops] by (metis empty_iff)
  then show ?thesis using nb by simp
qed

end
