(* ===== verification/Repository.thy ===== *)
theory Repository
  imports Metadata "HOL-Library.Product_Lexorder"
begin

text \<open>
  The repository of \<^verbatim>\<open>repository/functions\<close>: the generic operations on a table
  (\<^verbatim>\<open>gorm_generic_repository.go\<close>), the queries of the per-table repositories and the projection
  query of \<^verbatim>\<open>gorm_repository.go\<close>.  A table is the list of its rows.  The database driver and
  the ORM are not part of the sources; what they contribute is a component of the state:
  \<open>db_fault\<close> is the error the driver reports for statements on a table (if any), the
  \<open>db_save\<close> fields say what the ORM stores for a row it is asked to create (timestamps and
  column defaults), and \<open>db_now\<close> is the time it writes on updates.

  The lemmas give the laws of a soft-deleting table (\<open>keyed_table\<close>, instantiated for
  all tables) and describe the projection query.
\<close>

section \<open>Tables\<close>

record database =
  db_fault :: "string \<Rightarrow> error option"
  db_now :: time
  db_save_domain :: "DomainEndpoint \<Rightarrow> DomainEndpoint"
  db_save_backend :: "ServiceBackendRef \<Rightarrow> ServiceBackendRef"
  db_save_route :: "HTTPRoute \<Rightarrow> HTTPRoute"
  db_save_dns :: "DNSRecord \<Rightarrow> DNSRecord"
  db_save_cert :: "CertificateRevision \<Rightarrow> CertificateRevision"
  domain_endpoints :: "DomainEndpoint list"
  service_backend_refs :: "ServiceBackendRef list"
  http_routes :: "HTTPRoute list"
  dns_records :: "DNSRecord list"
  certificate_revisions :: "CertificateRevision list"
  snapshot_records :: "SnapshotRecord list"

text \<open>The text columns of each table that a query condition can name.\<close>

definition domain_column :: "string \<Rightarrow> (DomainEndpoint \<Rightarrow> string) option" where
  "domain_column f = map_of [(''hostname'', de_Hostname), (''backend_type'', de_BackendType),
     (''binded_service_ref'', de_BindedServiceID)] f"

definition backend_column :: "string \<Rightarrow> (ServiceBackendRef \<Rightarrow> string) option" where
  "backend_column f = map_of [(''id'', sb_ID), (''type'', sb_Type), (''arbitrary_endpoint'', sb_ArbitraryEndpoint),
     (''service_namespace'', sb_ServiceNamespace), (''service_name'', sb_ServiceName)] f"

definition route_column :: "string \<Rightarrow> (HTTPRoute \<Rightarrow> string) option" where
  "route_column f = map_of [(''id'', hr_ID), (''hostname'', hr_Hostname), (''path'', hr_Path),
     (''backend_ref_id'', hr_BackendRefID)] f"

definition dns_column :: "string \<Rightarrow> (DNSRecord \<Rightarrow> string) option" where
  "dns_column f = map_of [(''id'', dr_ID), (''fqdn'', dr_FQDN), (''record_type'', dr_RecordType),
     (''routing_class'', dr_RoutingClass), (''values_json'', dr_ValuesJSON), (''routing_key'', dr_RoutingKey)] f"

section \<open>Generic operations\<close>

text \<open>\<^verbatim>\<open>First\<close> returns the first match in primary key order.\<close>

definition GetResourceByField :: "error option \<Rightarrow> (string \<Rightarrow> ('a Shared_scheme \<Rightarrow> string) option) \<Rightarrow>
    ('a Shared_scheme \<Rightarrow> string) \<Rightarrow> string \<Rightarrow> string \<Rightarrow> 'a Shared_scheme list \<Rightarrow> 'a Shared_scheme result" where
  "GetResourceByField fault column pk field value rows = (case fault of
      Some e \<Rightarrow> Inl e
    | None \<Rightarrow> (case column field of
        None \<Rightarrow> Inl (ErrOn ''no such column'' field)
      | Some col \<Rightarrow> (case sort_key pk (filter (\<lambda>r. \<not> Deleted r \<and> col r = value) rows) of
          [] \<Rightarrow> Inl ErrRecordNotFound
        | r # _ \<Rightarrow> Inr r)))"

definition ListResource :: "error option \<Rightarrow> (string \<Rightarrow> ('a Shared_scheme \<Rightarrow> string) option) \<Rightarrow>
    string \<Rightarrow> 'a Shared_scheme list \<Rightarrow> 'a Shared_scheme list result" where
  "ListResource fault column orderBy rows = (case fault of
      Some e \<Rightarrow> Inl e
    | None \<Rightarrow> (case column orderBy of
        None \<Rightarrow> Inl (ErrOn ''no such column'' orderBy)
      | Some col \<Rightarrow> Inr (sort_key col (filter (\<lambda>r. \<not> Deleted r) rows))))"

text \<open>\<^verbatim>\<open>INSERT ... ON CONFLICT UPDATE\<close>: the row with the same primary key is replaced.\<close>

fun upsert_row :: "('r \<Rightarrow> 'k) \<Rightarrow> 'r \<Rightarrow> 'r list \<Rightarrow> 'r list" where
  "upsert_row pk r [] = [r]"
| "upsert_row pk r (x # xs) = (if pk x = pk r then r # xs else x # upsert_row pk r xs)"

definition UpsertResource :: "error option \<Rightarrow> ('r \<Rightarrow> 'r) \<Rightarrow> ('r \<Rightarrow> string) \<Rightarrow> 'r \<Rightarrow> 'r list \<Rightarrow> 'r list result" where
  "UpsertResource fault save pk model rows = (case fault of
      Some e \<Rightarrow> Inl e
    | None \<Rightarrow> Inr (upsert_row pk (save model) rows))"

definition DeleteResourceByField :: "error option \<Rightarrow> time \<Rightarrow> (string \<Rightarrow> ('a Shared_scheme \<Rightarrow> string) option) \<Rightarrow>
    string \<Rightarrow> string \<Rightarrow> 'a Shared_scheme list \<Rightarrow> 'a Shared_scheme list result" where
  "DeleteResourceByField fault now column field value rows = (case fault of
      Some e \<Rightarrow> Inl e
    | None \<Rightarrow> (case column field of
        None \<Rightarrow> Inl (ErrOn ''no such column'' field)
      | Some col \<Rightarrow> Inr (map (\<lambda>r. if \<not> Deleted r \<and> col r = value
          then r\<lparr>Deleted := True, UpdatedAt := now\<rparr> else r) rows)))"

section \<open>Per-table queries\<close>

definition GetDomainEndpointByHostname :: "string \<Rightarrow> database \<Rightarrow> DomainEndpoint result" where
  "GetDomainEndpointByHostname hostname db =
     GetResourceByField (db_fault db ''domain_endpoints'') domain_column de_Hostname ''hostname'' hostname (domain_endpoints db)"

definition GetDNSRecord :: "string \<Rightarrow> database \<Rightarrow> DNSRecord result" where
  "GetDNSRecord i db =
     GetResourceByField (db_fault db ''dns_records'') dns_column dr_ID ''id'' i (dns_records db)"

definition ListDNSRecordsByQuestion :: "string \<Rightarrow> string \<Rightarrow> database \<Rightarrow> DNSRecord list result" where
  "ListDNSRecordsByQuestion fqdn recordType db = (case db_fault db ''dns_records'' of
      Some e \<Rightarrow> Inl e
    | None \<Rightarrow> Inr (sort_key (\<lambda>r. (dr_FQDN r, dr_RecordType r, dr_ID r))
        (filter (\<lambda>r. \<not> Deleted r \<and> dr_FQDN r = fqdn \<and> dr_RecordType r = recordType \<and> dr_Enabled r) (dns_records db))))"

text \<open>The table \<^verbatim>\<open>dns_records\<close> has no column \<^verbatim>\<open>hostname\<close>, which this query names.\<close>

definition ListDNSRecordsByHostname :: "string \<Rightarrow> database \<Rightarrow> DNSRecord list result" where
  "ListDNSRecordsByHostname hostname db = (case db_fault db ''dns_records'' of
      Some e \<Rightarrow> Inl e
    | None \<Rightarrow> (case dns_column ''hostname'' of
        None \<Rightarrow> Inl (ErrOn ''no such column'' ''hostname'')
      | Some col \<Rightarrow> Inr (sort_key (\<lambda>r. (dr_FQDN r, dr_RecordType r))
          (filter (\<lambda>r. \<not> Deleted r \<and> col r = hostname) (dns_records db)))))"

text \<open>The order \<^verbatim>\<open>priority desc, length(path) desc, id asc\<close>.\<close>

definition route_rank :: "HTTPRoute \<Rightarrow> int \<times> int \<times> string" where
  "route_rank r = (- sint (hr_Priority r), - int (length (hr_Path r)), hr_ID r)"

definition ListHTTPRoutesByHostname :: "string \<Rightarrow> database \<Rightarrow> HTTPRoute list result" where
  "ListHTTPRoutesByHostname hostname db = (case db_fault db ''http_routes'' of
      Some e \<Rightarrow> Inl e
    | None \<Rightarrow> Inr (sort_key route_rank (filter (\<lambda>r. \<not> Deleted r \<and> hr_Hostname r = hostname) (http_routes db))))"

definition ListServiceBindingsByHostname :: "string \<Rightarrow> database \<Rightarrow> ServiceBackendRef list result" where
  "ListServiceBindingsByHostname hostname db = (case db_fault db ''service_backend_refs'' of
      Some e \<Rightarrow> Inl e
    | None \<Rightarrow> Inr (sort_key sb_ID (concat (map (\<lambda>b. map (\<lambda>r. b)
        (filter (\<lambda>r. hr_BackendRefID r = sb_ID b \<and> \<not> Deleted r \<and> hr_Hostname r = hostname) (http_routes db)))
        (filter (\<lambda>b. \<not> Deleted b) (service_backend_refs db))))))"

text \<open>\<^verbatim>\<open>Order("revision desc")\<close> and \<^verbatim>\<open>First\<close>.\<close>

definition live_revisions :: "string \<Rightarrow> database \<Rightarrow> CertificateRevision list" where
  "live_revisions hostname db =
     sort_key (\<lambda>c. - uint (cr_Revision c))
       (filter (\<lambda>c. \<not> Deleted c \<and> cr_Hostname c = hostname) (certificate_revisions db))"

definition GetLatestCertificateRevision :: "string \<Rightarrow> database \<Rightarrow> CertificateRevision result" where
  "GetLatestCertificateRevision hostname db = (case db_fault db ''certificate_revisions'' of
      Some e \<Rightarrow> Inl e
    | None \<Rightarrow> (case live_revisions hostname db of [] \<Rightarrow> Inl ErrRecordNotFound | c # _ \<Rightarrow> Inr c))"

definition GetActiveCertificateForDomain :: "DomainEndpoint option \<Rightarrow> database \<Rightarrow> CertificateRevision option result" where
  "GetActiveCertificateForDomain domain db = (case domain of
      None \<Rightarrow> Inr None
    | Some d \<Rightarrow>
        let hostname = TrimSpace (de_Hostname d) in
        if hostname = [] then Inr None
        else (case GetLatestCertificateRevision hostname db of
            Inl e \<Rightarrow> if e = ErrRecordNotFound then Inr None else Inl e
          | Inr c \<Rightarrow> Inr (Some c)))"

definition ListCertificateRevisions :: "string \<Rightarrow> database \<Rightarrow> CertificateRevision list result" where
  "ListCertificateRevisions hostname db = (case db_fault db ''certificate_revisions'' of
      Some e \<Rightarrow> Inl e
    | None \<Rightarrow> Inr (live_revisions hostname db))"

text \<open>The auto-increment key of \<^verbatim>\<open>snapshot_records\<close>.\<close>

definition next_snapshot_id :: "SnapshotRecord list \<Rightarrow> 64 word" where
  "next_snapshot_id rows = fold (\<lambda>r m. max (sr_ID r) m) rows 0 + 1"

definition AppendSnapshotRecord :: "SnapshotRecord \<Rightarrow> database \<Rightarrow> (64 word \<times> database) result" where
  "AppendSnapshotRecord record db = (case db_fault db ''snapshot_records'' of
      Some e \<Rightarrow> Inl e
    | None \<Rightarrow> let i = next_snapshot_id (snapshot_records db) in
        Inr (i, db\<lparr>snapshot_records := snapshot_records db @ [record\<lparr>sr_ID := i, sr_CreatedAt := db_now db\<rparr>]\<rparr>))"

definition ListSnapshotRecordsAfter :: "64 word \<Rightarrow> database \<Rightarrow> SnapshotRecord list result" where
  "ListSnapshotRecordsAfter afterID db = (case db_fault db ''snapshot_records'' of
      Some e \<Rightarrow> Inl e
    | None \<Rightarrow> Inr (sort_key sr_ID (filter (\<lambda>r. sr_ID r > afterID) (snapshot_records db))))"

section \<open>The projection query\<close>

definition derefServiceBackendType :: "ServiceBackendType \<Rightarrow> ServiceBackendType" where
  "derefServiceBackendType t = (if t = [] then ServiceBackendTypeSVC else t)"

text \<open>One result row of the join: the domain with its certificate, one route, the back end of
  that route and the back end bound to the domain.  \<^const>\<open>None\<close> is a row of NULLs.\<close>

type_synonym domainEntryProjectionRow =
  "DomainEndpoint \<times> CertificateRevision option \<times> HTTPRoute option \<times> ServiceBackendRef option \<times> ServiceBackendRef option"

definition left_join :: "'a list \<Rightarrow> 'a option list" where
  "left_join xs = (if xs = [] then [None] else map Some xs)"

definition latest_certs :: "string \<Rightarrow> database \<Rightarrow> CertificateRevision list" where
  "latest_certs host db = (let live = filter (\<lambda>c. \<not> Deleted c \<and> cr_Hostname c = host) (certificate_revisions db) in
     filter (\<lambda>c. \<forall>c' \<in> set live. cr_Revision c' \<le> cr_Revision c) live)"

definition live_backends :: "string \<Rightarrow> database \<Rightarrow> ServiceBackendRef list" where
  "live_backends i db = filter (\<lambda>b. sb_ID b = i \<and> \<not> Deleted b) (service_backend_refs db)"

definition live_routes :: "string \<Rightarrow> database \<Rightarrow> HTTPRoute list" where
  "live_routes host db = filter (\<lambda>r. hr_Hostname r = host \<and> \<not> Deleted r) (http_routes db)"

definition row_rank :: "domainEntryProjectionRow \<Rightarrow> int \<times> int \<times> string" where
  "row_rank row = (case row of (_, _, route, _, _) \<Rightarrow>
     (case route of None \<Rightarrow> (0, 0, []) | Some r \<Rightarrow> route_rank r))"

definition projection_rows :: "string \<Rightarrow> database \<Rightarrow> domainEntryProjectionRow list" where
  "projection_rows domain db = sort_key row_rank
     (concat (map (\<lambda>de.
        concat (map (\<lambda>cr.
          concat (map (\<lambda>hr.
            concat (map (\<lambda>rb.
              map (\<lambda>bb. (de, cr, hr, rb, bb)) (left_join (live_backends (de_BindedServiceID de) db)))
            (left_join (case hr of None \<Rightarrow> [] | Some r \<Rightarrow> live_backends (hr_BackendRefID r) db))))
          (left_join (live_routes (de_Hostname de) db))))
        (left_join (latest_certs (de_Hostname de) db))))
      (filter (\<lambda>de. \<not> Deleted de \<and> de_Hostname de = domain) (domain_endpoints db))))"

definition projected_cert :: "CertificateRevision option \<Rightarrow> CertificateRevision option" where
  "projected_cert cr = (case cr of
      None \<Rightarrow> None
    | Some c \<Rightarrow> if cr_ID c = [] then None
        else Some (zero_CertificateRevision\<lparr>cr_ID := cr_ID c, cr_Hostname := cr_Hostname c, cr_Revision := cr_Revision c,
          cr_Provider := cr_Provider c, cr_ChallengeType := cr_ChallengeType c,
          cr_ArtifactBucket := cr_ArtifactBucket c, cr_ArtifactPrefix := cr_ArtifactPrefix c,
          cr_SHA256Crt := cr_SHA256Crt c, cr_SHA256Key := cr_SHA256Key c\<rparr>))"

definition projected_backend :: "ServiceBackendRef option \<Rightarrow> ServiceBackendRef option" where
  "projected_backend sb = (case sb of
      None \<Rightarrow> None
    | Some b \<Rightarrow> if sb_ID b = [] then None
        else Some (zero_ServiceBackendRef\<lparr>sb_ID := sb_ID b, sb_Type := derefServiceBackendType (sb_Type b),
          sb_ArbitraryEndpoint := sb_ArbitraryEndpoint b, sb_ServiceNamespace := sb_ServiceNamespace b,
          sb_ServiceName := sb_ServiceName b, sb_Port := sb_Port b\<rparr>))"

text \<open>The loop over the rows with the set \<^verbatim>\<open>seenRoutes\<close>.\<close>

fun collect_routes :: "string list \<Rightarrow> domainEntryProjectionRow list \<Rightarrow> HTTPRouteProjection list" where
  "collect_routes seen [] = []"
| "collect_routes seen ((de, cr, hr, rb, bb) # rows) = (case hr of
      None \<Rightarrow> collect_routes seen rows
    | Some r \<Rightarrow> if hr_ID r = [] \<or> hr_ID r \<in> set seen then collect_routes seen rows
        else \<lparr>hp_ID = hr_ID r, hp_Path = hr_Path r, hp_Priority = hr_Priority r, hp_BackendRef = projected_backend rb\<rparr>
          # collect_routes (hr_ID r # seen) rows)"

definition GetDomainEntryProjectionByDomain :: "string \<Rightarrow> database \<Rightarrow> DomainEntryProjection result" where
  "GetDomainEntryProjectionByDomain domain db = (case db_fault db ''domain_endpoints'' of
      Some e \<Rightarrow> Inl e
    | None \<Rightarrow> (case projection_rows domain db of
        [] \<Rightarrow> Inl ErrRecordNotFound
      | (de, cr, hr, rb, bb) # rest \<Rightarrow>
          let projection = zero_DomainEntryProjection\<lparr>dp_Hostname := de_Hostname de, dp_NeedCert := de_NeedCert de,
                dp_BackendType := de_BackendType de, dp_Cert := projected_cert cr\<rparr> in
          if de_BackendType de = BackendTypeL4TLSPassthrough \<or> de_BackendType de = BackendTypeL4TLSTermination
          then Inr (projection\<lparr>dp_BindedBackendRef := projected_backend bb\<rparr>)
          else Inr (projection\<lparr>dp_HTTPRoutes := collect_routes [] ((de, cr, hr, rb, bb) # rest)\<rparr>)))"

text \<open>\<^verbatim>\<open>MarkCertificateDesired\<close>: the host name handed to the certificate notifier, if any.\<close>

definition MarkCertificateDesired :: "bool \<Rightarrow> string \<Rightarrow> string option" where
  "MarkCertificateDesired has_notifier hostname = (
     let h = TrimSpace (ToLower hostname) in
     if \<not> has_notifier \<or> h = [] then None else Some h)"

section \<open>Specification vocabulary\<close>

text \<open>The live row with a given primary key.\<close>

definition live_row :: "('a Shared_scheme \<Rightarrow> string) \<Rightarrow> 'a Shared_scheme list \<Rightarrow> string \<Rightarrow> 'a Shared_scheme option" where
  "live_row pk rows i = List.find (\<lambda>r. \<not> Deleted r \<and> pk r = i) rows"

definition keys_ok :: "('r \<Rightarrow> string) \<Rightarrow> 'r list \<Rightarrow> bool" where
  "keys_ok pk rows = distinct (map pk rows)"

text \<open>Primary keys are unique in every table, as the schema demands.\<close>

definition schema_ok :: "database \<Rightarrow> bool" where
  "schema_ok db = (keys_ok de_Hostname (domain_endpoints db) \<and> keys_ok sb_ID (service_backend_refs db) \<and>
     keys_ok hr_ID (http_routes db) \<and> keys_ok dr_ID (dns_records db) \<and> keys_ok cr_ID (certificate_revisions db) \<and>
     distinct (map sr_ID (snapshot_records db)))"

text \<open>The ORM keeps the primary key and the deletion mark of the rows it stores.\<close>

definition orm_ok :: "database \<Rightarrow> bool" where
  "orm_ok db = ((\<forall>r. de_Hostname (db_save_domain db r) = de_Hostname r \<and> Deleted (db_save_domain db r) = Deleted r) \<and>
     (\<forall>r. sb_ID (db_save_backend db r) = sb_ID r \<and> Deleted (db_save_backend db r) = Deleted r) \<and>
     (\<forall>r. hr_ID (db_save_route db r) = hr_ID r \<and> Deleted (db_save_route db r) = Deleted r) \<and>
     (\<forall>r. dr_ID (db_save_dns db r) = dr_ID r \<and> Deleted (db_save_dns db r) = Deleted r) \<and>
     (\<forall>r. cr_ID (db_save_cert db r) = cr_ID r \<and> Deleted (db_save_cert db r) = Deleted r))"

text \<open>The routes of a projection, computed without the join.\<close>

definition project_route :: "database \<Rightarrow> HTTPRoute \<Rightarrow> HTTPRouteProjection" where
  "project_route db r = \<lparr>hp_ID = hr_ID r, hp_Path = hr_Path r, hp_Priority = hr_Priority r,
     hp_BackendRef = projected_backend (live_row sb_ID (service_backend_refs db) (hr_BackendRefID r))\<rparr>"

definition join_row :: "database \<Rightarrow> DomainEndpoint \<Rightarrow> CertificateRevision option \<Rightarrow> HTTPRoute option \<Rightarrow> domainEntryProjectionRow" where
  "join_row db de cr hr = (de, cr, hr,
     (case hr of None \<Rightarrow> None | Some r \<Rightarrow> live_row sb_ID (service_backend_refs db) (hr_BackendRefID r)),
     live_row sb_ID (service_backend_refs db) (de_BindedServiceID de))"

fun dedupe_routes :: "string list \<Rightarrow> HTTPRoute list \<Rightarrow> HTTPRoute list" where
  "dedupe_routes seen [] = []"
| "dedupe_routes seen (r # rs) = (if hr_ID r \<in> set seen then dedupe_routes seen rs
     else r # dedupe_routes (hr_ID r # seen) rs)"

text \<open>An empty database whose ORM stores rows unchanged, and a small one with a domain, two
  routes and a back end.\<close>

definition empty_db :: database where
  "empty_db = \<lparr>db_fault = (\<lambda>_. None), db_now = 0, db_save_domain = (\<lambda>r. r), db_save_backend = (\<lambda>r. r),
     db_save_route = (\<lambda>r. r), db_save_dns = (\<lambda>r. r), db_save_cert = (\<lambda>r. r),
     domain_endpoints = [], service_backend_refs = [], http_routes = [], dns_records = [],
     certificate_revisions = [], snapshot_records = []\<rparr>"

definition sample_db :: database where
  "sample_db = empty_db\<lparr>
     domain_endpoints := [zero_DomainEndpoint\<lparr>de_Hostname := ''h'', de_BackendType := BackendTypeL7HTTP\<rparr>],
     service_backend_refs := [zero_ServiceBackendRef\<lparr>sb_ID := ''b'', sb_ServiceName := ''s''\<rparr>],
     http_routes := [zero_HTTPRoute\<lparr>hr_ID := ''r1'', hr_Hostname := ''h'', hr_Path := ''/'', hr_Priority := 1, hr_BackendRefID := ''b''\<rparr>,
       zero_HTTPRoute\<lparr>hr_ID := ''r2'', hr_Hostname := ''h'', hr_Path := ''/api'', hr_Priority := 4, hr_BackendRefID := ''b''\<rparr>],
     certificate_revisions := [zero_CertificateRevision\<lparr>cr_ID := ''c1'', cr_Hostname := ''h'', cr_Revision := 1\<rparr>,
       zero_CertificateRevision\<lparr>cr_ID := ''c2'', cr_Hostname := ''h'', cr_Revision := 2\<rparr>]\<rparr>"

section \<open>The laws of a soft-deleting table\<close>

locale keyed_table =
  fixes pk :: "'a Shared_scheme \<Rightarrow> string"
    and column :: "string \<Rightarrow> ('a Shared_scheme \<Rightarrow> string) option"
    and field :: string
  assumes pk_column: "column field = Some pk"
    and pk_soft: "\<And>r d t. pk (r\<lparr>Deleted := d, UpdatedAt := t\<rparr>) = pk r"
begin

lemma filter_key:
  "keys_ok pk rows \<Longrightarrow> filter (\<lambda>r. \<not> Deleted r \<and> pk r = i) rows =
     (case live_row pk rows i of None \<Rightarrow> [] | Some r \<Rightarrow> [r])"
proof (induction rows)
  case (Cons x rows)
  have "filter (\<lambda>r. \<not> Deleted r \<and> pk r = i) rows = []" if "pk x = i"
    using Cons.prems that by (simp add: keys_ok_def filter_empty_conv) (metis image_eqI)
  with Cons show ?case by (auto simp: live_row_def keys_ok_def)
qed (simp add: live_row_def)

lemma get_live:
  assumes "keys_ok pk rows"
  shows "GetResourceByField None column pk field i rows =
     (case live_row pk rows i of None \<Rightarrow> Inl ErrRecordNotFound | Some r \<Rightarrow> Inr r)"
  using filter_key [OF assms, of i] by (simp add: GetResourceByField_def pk_column split: option.splits)

lemma live_row_key: "live_row pk rows i = Some r \<Longrightarrow> pk r = i \<and> \<not> Deleted r \<and> r \<in> set rows"
  by (auto simp: live_row_def find_Some_iff)

lemma live_row_iff: "keys_ok pk rows \<Longrightarrow> live_row pk rows i = Some r \<longleftrightarrow> pk r = i \<and> \<not> Deleted r \<and> r \<in> set rows"
proof
  assume k: "keys_ok pk rows" and r: "pk r = i \<and> \<not> Deleted r \<and> r \<in> set rows"
  then have "r \<in> set (filter (\<lambda>r. \<not> Deleted r \<and> pk r = i) rows)" by simp
  then show "live_row pk rows i = Some r" by (simp add: filter_key [OF k] split: option.splits)
qed (use live_row_key in blast)

lemma upsert_keys: "set (map pk (upsert_row pk r rows)) = insert (pk r) (set (map pk rows))"
  by (induction rows) auto

lemma upsert_keys_ok: "keys_ok pk rows \<Longrightarrow> keys_ok pk (upsert_row pk r rows)"
proof (induction rows)
  case (Cons x rows)
  then show ?case using upsert_keys [of r rows] by (auto simp: keys_ok_def)
qed (simp add: keys_ok_def)

lemma live_upsert:
  assumes "keys_ok pk rows"
  shows "live_row pk (upsert_row pk r rows) = (live_row pk rows)(pk r := (if Deleted r then None else Some r))"
proof
  fix i
  have absent: "live_row pk rows i = None" if "i \<notin> pk ` set rows" for rows i
    using that by (auto simp: live_row_def find_None_iff)
  show "live_row pk (upsert_row pk r rows) i = ((live_row pk rows)(pk r := (if Deleted r then None else Some r))) i"
    using assms
  proof (induction rows)
    case (Cons x rows)
    have tl: "keys_ok pk rows" "pk x \<notin> pk ` set rows" using Cons.prems by (auto simp: keys_ok_def)
    show ?case
      using Cons.IH [OF tl(1)] absent [OF tl(2)] by (auto simp: live_row_def)
  qed (simp add: live_row_def)
qed

lemma delete_keys_ok:
  assumes "keys_ok pk rows"
  shows "keys_ok pk (map (\<lambda>r. if \<not> Deleted r \<and> pk r = v then r\<lparr>Deleted := True, UpdatedAt := now\<rparr> else r) rows)"
proof -
  have "pk (if \<not> Deleted r \<and> pk r = v then r\<lparr>Deleted := True, UpdatedAt := now\<rparr> else r) = pk r" for r
    by (simp add: pk_soft)
  then show ?thesis using assms by (simp add: keys_ok_def comp_def)
qed

lemma live_delete:
  "live_row pk (map (\<lambda>r. if \<not> Deleted r \<and> pk r = v then r\<lparr>Deleted := True, UpdatedAt := now\<rparr> else r) rows) =
   (live_row pk rows)(v := None)"
proof
  fix i
  show "live_row pk (map (\<lambda>r. if \<not> Deleted r \<and> pk r = v then r\<lparr>Deleted := True, UpdatedAt := now\<rparr> else r) rows) i =
   ((live_row pk rows)(v := None)) i"
    by (induction rows) (auto simp: live_row_def pk_soft)
qed

end

interpretation domain_table: keyed_table de_Hostname domain_column "''hostname''"
  by unfold_locales (simp_all add: domain_column_def)

interpretation backend_table: keyed_table sb_ID backend_column "''id''"
  by unfold_locales (simp_all add: backend_column_def)

interpretation route_table: keyed_table hr_ID route_column "''id''"
  by unfold_locales (simp_all add: route_column_def)

interpretation dns_table: keyed_table dr_ID dns_column "''id''"
  by unfold_locales (simp_all add: dns_column_def)

lemma GetDNSRecord_live:
  assumes "schema_ok db" "db_fault db ''dns_records'' = None"
  shows "GetDNSRecord i db = (case live_row dr_ID (dns_records db) i of None \<Rightarrow> Inl ErrRecordNotFound | Some r \<Rightarrow> Inr r)"
  using assms by (simp add: GetDNSRecord_def dns_table.get_live schema_ok_def)

section \<open>Snapshot records\<close>

lemma fold_max_ge:
  fixes m :: "64 word"
  shows "m \<le> fold (\<lambda>r. max (sr_ID r)) rows m" "r \<in> set rows \<Longrightarrow> sr_ID r \<le> fold (\<lambda>r. max (sr_ID r)) rows m"
proof (induction rows arbitrary: m)
  case (Cons x rows)
  { case 1 show ?case using Cons.IH(1) [of "max (sr_ID x) m"] by auto }
  { case 2 then show ?case using Cons.IH(1) [of "max (sr_ID x) m"] Cons.IH(2) [of "max (sr_ID x) m"] by auto }
qed auto

lemma next_snapshot_id_fresh:
  assumes "next_snapshot_id rows \<noteq> 0" "r \<in> set rows"
  shows "sr_ID r < next_snapshot_id rows"
proof -
  let ?m = "fold (\<lambda>r. max (sr_ID r)) rows (0 :: 64 word)"
  have "?m + 1 \<noteq> 0" using assms(1) by (simp add: next_snapshot_id_def)
  then have "?m < ?m + 1" by (rule word_inc_less)
  then show ?thesis using fold_max_ge(2) [OF assms(2), of 0] by (simp add: next_snapshot_id_def)
qed

section \<open>The projection query\<close>

lemma left_join_unique:
  "keys_ok sb_ID (service_backend_refs db) \<Longrightarrow>
   left_join (live_backends i db) = [live_row sb_ID (service_backend_refs db) i]"
  using backend_table.filter_key [of "service_backend_refs db" i]
  by (auto simp: left_join_def live_backends_def conj_commute split: option.splits)

lemma live_backends_unique:
  "keys_ok sb_ID (service_backend_refs db) \<Longrightarrow>
   (case hr of None \<Rightarrow> [None] | Some r \<Rightarrow> left_join (live_backends (hr_BackendRefID r) db)) =
   [case hr of None \<Rightarrow> None | Some r \<Rightarrow> live_row sb_ID (service_backend_refs db) (hr_BackendRefID r)]"
  by (simp add: left_join_unique split: option.splits)

lemma projection_rows_eq:
  assumes "schema_ok db"
  shows "projection_rows host db = (case live_row de_Hostname (domain_endpoints db) host of
      None \<Rightarrow> []
    | Some de \<Rightarrow> sort_key row_rank (concat (map (\<lambda>cr. map (join_row db de cr) (left_join (live_routes host db)))
        (left_join (latest_certs host db)))))"
proof -
  have k: "keys_ok sb_ID (service_backend_refs db)" "keys_ok de_Hostname (domain_endpoints db)"
    using assms by (auto simp: schema_ok_def)
  have lj: "left_join (case hr of None \<Rightarrow> [] | Some r \<Rightarrow> live_backends (hr_BackendRefID r) db) =
      [case hr of None \<Rightarrow> None | Some r \<Rightarrow> live_row sb_ID (service_backend_refs db) (hr_BackendRefID r)]" for hr
    by (cases hr) (auto simp: left_join_unique [OF k(1)], simp add: left_join_def)
  show ?thesis
    using domain_table.filter_key [OF k(2), of host] domain_table.live_row_key [of "domain_endpoints db" host]
    by (auto simp: projection_rows_def lj left_join_unique [OF k(1)] join_row_def [abs_def] concat_map_singleton
        split: option.splits)
qed

lemma collect_routes_eq:
  assumes "\<And>x. x \<in> set rows \<Longrightarrow> \<exists>cr r. x = join_row db de cr (Some r) \<and> hr_ID r \<noteq> []"
  shows "collect_routes seen rows =
    map (project_route db) (dedupe_routes seen (map (\<lambda>x. the (fst (snd (snd x)))) rows))"
  using assms
proof (induction rows arbitrary: seen)
  case (Cons x rows)
  obtain cr r where x: "x = join_row db de cr (Some r)" "hr_ID r \<noteq> []" using Cons.prems [of x] by auto
  have "\<And>y. y \<in> set rows \<Longrightarrow> \<exists>cr r. y = join_row db de cr (Some r) \<and> hr_ID r \<noteq> []" using Cons.prems by auto
  from Cons.IH [OF this] show ?case using x by (simp add: join_row_def project_route_def)
qed simp

lemma dedupe_set: "inj_on hr_ID (set rs) \<Longrightarrow>
   set (dedupe_routes seen rs) = {r \<in> set rs. hr_ID r \<notin> set seen}"
proof (induction rs arbitrary: seen)
  case (Cons r rs)
  then have "inj_on hr_ID (set rs)" by (auto simp: inj_on_def)
  with Cons show ?case by (auto simp: inj_on_def)
qed simp

lemma dedupe_unseen: "r \<in> set (dedupe_routes seen rs) \<Longrightarrow> hr_ID r \<notin> set seen"
  by (induction rs arbitrary: seen) (fastforce split: if_splits)+

lemma dedupe_distinct: "distinct (dedupe_routes seen rs)"
  by (induction rs arbitrary: seen) (auto dest: dedupe_unseen)

lemma dedupe_subset: "set (dedupe_routes seen rs) \<subseteq> set rs"
  by (induction rs arbitrary: seen) (auto split: if_splits)

lemma dedupe_sorted: "sorted (map k rs) \<Longrightarrow> sorted (map k (dedupe_routes seen rs))"
proof (induction rs arbitrary: seen)
  case (Cons x rs)
  then show ?case using dedupe_subset by (fastforce split: if_splits)
qed simp

lemma sorted_key_unique:
  assumes "sorted (map k xs)" "sorted (map k ys)" "distinct xs" "distinct ys" "set xs = set ys" "inj_on k (set xs)"
  shows "xs = ys"
proof -
  have "distinct (map k xs)" "distinct (map k ys)" using assms by (auto simp: distinct_map)
  then have "map k xs = map k ys" using assms by (intro sorted_distinct_set_unique) auto
  then show ?thesis using assms(5,6) by (intro map_inj_on [of k]) auto
qed

lemma route_rank_inj: "inj_on hr_ID S \<Longrightarrow> inj_on route_rank S"
  by (auto simp: inj_on_def route_rank_def)

lemma collected_routes:
  assumes "schema_ok db" "\<And>r. r \<in> set (live_routes host db) \<Longrightarrow> hr_ID r \<noteq> []"
  shows "collect_routes [] (sort_key row_rank (concat (map (\<lambda>cr. map (join_row db de cr) (left_join (live_routes host db)))
        (left_join certs)))) = map (project_route db) (sort_key route_rank (live_routes host db))"
proof (cases "live_routes host db = []")
  case True
  have n: "collect_routes s rows = []" if "\<And>x. x \<in> set rows \<Longrightarrow> fst (snd (snd x)) = None" for s rows
    using that
  proof (induction rows arbitrary: s)
    case (Cons x rows)
    obtain a b c d e where x: "x = (a, b, c, d, e)" by (cases x) auto
    then have "c = None" using Cons.prems [of x] by simp
    then show ?case using Cons x by simp
  qed simp
  show ?thesis unfolding True by (simp, rule n) (auto simp: left_join_def join_row_def)
next
  case False
  let ?L = "live_routes host db"
  let ?rows = "sort_key row_rank (concat (map (\<lambda>cr. map (join_row db de cr) (left_join ?L)) (left_join certs)))"
  let ?rs = "map (\<lambda>x. the (fst (snd (snd x)))) ?rows"
  have inj: "inj_on hr_ID (set ?L)" "distinct ?L"
    using assms(1) by (auto simp: schema_ok_def keys_ok_def live_routes_def distinct_map inj_on_def)
  have lj: "left_join ?L = map Some ?L" "left_join certs \<noteq> []" using False by (auto simp: left_join_def)
  have form: "\<exists>cr r. x = join_row db de cr (Some r) \<and> hr_ID r \<noteq> []" if "x \<in> set ?rows" for x
    using that assms(2) by (auto simp: lj(1))
  have "set ?rs = set ?L"
  proof
    show "set ?rs \<subseteq> set ?L" by (auto simp: lj(1) join_row_def)
    show "set ?L \<subseteq> set ?rs"
    proof
      fix r assume r: "r \<in> set ?L"
      obtain cr where "cr \<in> set (left_join certs)" using lj(2) by (meson last_in_set)
      then have "join_row db de cr (Some r) \<in> set ?rows" using r by (auto simp: lj(1))
      then show "r \<in> set ?rs" by (force simp: join_row_def)
    qed
  qed
  moreover have "map route_rank ?rs = map row_rank ?rows"
    by (auto simp: row_rank_def join_row_def lj(1))
  then have "sorted (map route_rank ?rs)" by (metis sorted_sort_key)
  ultimately have "dedupe_routes [] ?rs = sort_key route_rank ?L"
    using inj dedupe_set [of ?rs "[]"] dedupe_sorted [of route_rank ?rs "[]"] dedupe_distinct [of "[]" ?rs] route_rank_inj [OF inj(1)]
    by (intro sorted_key_unique [of route_rank]) (simp_all)
  then show ?thesis using collect_routes_eq [OF form, of ?rows "[]"] by simp
qed

lemma projection_first_row:
  assumes "schema_ok db" "live_row de_Hostname (domain_endpoints db) host = Some de"
  obtains cr hr rest where "projection_rows host db = join_row db de cr hr # rest" "cr \<in> set (left_join (latest_certs host db))"
proof -
  let ?c = "concat (map (\<lambda>cr. map (join_row db de cr) (left_join (live_routes host db))) (left_join (latest_certs host db)))"
  have rows: "projection_rows host db = sort_key row_rank ?c" using projection_rows_eq [OF assms(1)] assms(2) by simp
  have ne: "left_join xs \<noteq> []" for xs :: "'x list" by (simp add: left_join_def)
  then have "?c \<noteq> []" using ne [of "live_routes host db"] ne [of "latest_certs host db"]
    by (cases "left_join (latest_certs host db)"; cases "left_join (live_routes host db)") auto
  then have "length (sort_key row_rank ?c) \<noteq> 0" unfolding length_sort by simp
  then obtain x rest where x: "sort_key row_rank ?c = x # rest" by (cases "sort_key row_rank ?c") simp_all
  have "x \<in> set (sort_key row_rank ?c)" unfolding x by simp
  then have "x \<in> set ?c" by simp
  then obtain cr hr where "x = join_row db de cr hr" "cr \<in> set (left_join (latest_certs host db))" by auto
  then show thesis using that rows x by metis
qed

lemma projection_found:
  assumes "schema_ok db" "db_fault db ''domain_endpoints'' = None"
    "live_row de_Hostname (domain_endpoints db) host = Some de"
    "\<And>r. r \<in> set (live_routes host db) \<Longrightarrow> hr_ID r \<noteq> []"
  obtains cr where "cr \<in> set (left_join (latest_certs host db))"
    "GetDomainEntryProjectionByDomain host db = Inr
       (if de_BackendType de = BackendTypeL4TLSPassthrough \<or> de_BackendType de = BackendTypeL4TLSTermination
        then \<lparr>dp_Hostname = host, dp_Deleted = False, dp_NeedCert = de_NeedCert de, dp_Cert = projected_cert cr,
           dp_BackendType = de_BackendType de, dp_HTTPRoutes = [],
           dp_BindedBackendRef = projected_backend (live_row sb_ID (service_backend_refs db) (de_BindedServiceID de))\<rparr>
        else \<lparr>dp_Hostname = host, dp_Deleted = False, dp_NeedCert = de_NeedCert de, dp_Cert = projected_cert cr,
           dp_BackendType = de_BackendType de,
           dp_HTTPRoutes = map (project_route db) (sort_key route_rank (live_routes host db)), dp_BindedBackendRef = None\<rparr>)"
proof -
  have h: "de_Hostname de = host" using domain_table.live_row_key [OF assms(3)] by simp
  obtain cr hr rest where r: "projection_rows host db = join_row db de cr hr # rest" "cr \<in> set (left_join (latest_certs host db))"
    using projection_first_row [OF assms(1,3)] by blast
  have c: "collect_routes [] (projection_rows host db) = map (project_route db) (sort_key route_rank (live_routes host db))"
    using projection_rows_eq [OF assms(1), of host] collected_routes [OF assms(1), of host de] assms(3,4) by simp
  show thesis
    using that [OF r(2)] r(1) c
    by (simp add: GetDomainEntryProjectionByDomain_def assms(2) Let_def join_row_def h zero_DomainEntryProjection_def)
qed

lemma projection_missing:
  assumes "schema_ok db" "db_fault db ''domain_endpoints'' = None" "live_row de_Hostname (domain_endpoints db) host = None"
  shows "GetDomainEntryProjectionByDomain host db = Inl ErrRecordNotFound"
  using assms projection_rows_eq [OF assms(1), of host] by (simp add: GetDomainEntryProjectionByDomain_def)

lemma latest_certs_max:
  assumes "c \<in> set (latest_certs host db)" "c' \<in> set (certificate_revisions db)" "\<not> Deleted c'" "cr_Hostname c' = host"
  shows "cr_Revision c' \<le> cr_Revision c" "c \<in> set (certificate_revisions db)" "\<not> Deleted c" "cr_Hostname c = host"
  using assms by (auto simp: latest_certs_def Let_def)

lemma list_max_exists: "xs \<noteq> [] \<Longrightarrow> \<exists>x \<in> set xs. \<forall>y \<in> set xs. (f y :: 'b::linorder) \<le> f x"
proof (induction xs rule: list_nonempty_induct)
  case (cons a xs)
  then obtain x where x: "x \<in> set xs" "\<forall>y \<in> set xs. f y \<le> f x" by blast
  show ?case
  proof (cases "f a \<le> f x")
    case True
    then show ?thesis using x by auto
  next
    case False
    then have "\<forall>y \<in> set xs. f y \<le> f a" using x by (meson linear order_trans)
    then show ?thesis by auto
  qed
qed simp

lemma latest_certs_exists:
  assumes "c' \<in> set (certificate_revisions db)" "\<not> Deleted c'" "cr_Hostname c' = host"
  shows "latest_certs host db \<noteq> []"
proof -
  let ?live = "filter (\<lambda>c. \<not> Deleted c \<and> cr_Hostname c = host) (certificate_revisions db)"
  let ?top = "\<lambda>c. \<forall>c' \<in> set ?live. cr_Revision c' \<le> cr_Revision c"
  have ne: "x \<in> set xs \<Longrightarrow> xs \<noteq> []" for x :: CertificateRevision and xs by auto
  have "?live \<noteq> []" using assms unfolding filter_empty_conv by blast
  from list_max_exists [OF this, of cr_Revision] obtain c where "c \<in> set ?live" "?top c" by blast
  then have "c \<in> set (filter ?top ?live)" unfolding set_filter [of ?top] by blast
  then show ?thesis unfolding latest_certs_def Let_def by (rule ne)
qed

section \<open>Properties\<close>

text \<open>C6. The projection query returns, for a host name with a live domain row, that domain with
  the live certificate of the highest revision and, for an L7 domain, exactly its live
  routes, once each, ordered by descending priority, descending path length and id, each
  with its live back end; for an L4 domain, the live back end bound to it.  A host without a
  live domain row is reported as not found.  Primary keys are unique and ids non-empty.\<close>
theorem projection_query_correct:
  assumes "schema_ok db" "db_fault db ''domain_endpoints'' = None"
    and "\<forall>r \<in> set (http_routes db). hr_ID r \<noteq> []" "\<forall>c \<in> set (certificate_revisions db). cr_ID c \<noteq> []"
  shows "case live_row de_Hostname (domain_endpoints db) host of
      None \<Rightarrow> GetDomainEntryProjectionByDomain host db = Inl ErrRecordNotFound
    | Some de \<Rightarrow> \<exists>p. GetDomainEntryProjectionByDomain host db = Inr p \<and>
        dp_Hostname p = host \<and> \<not> dp_Deleted p \<and> dp_NeedCert p = de_NeedCert de \<and> dp_BackendType p = de_BackendType de \<and>
        (case dp_Cert p of
           None \<Rightarrow> \<forall>c \<in> set (certificate_revisions db). Deleted c \<or> cr_Hostname c \<noteq> host
         | Some pc \<Rightarrow> \<exists>c \<in> set (certificate_revisions db). \<not> Deleted c \<and> cr_Hostname c = host \<and> cr_ID pc = cr_ID c \<and>
             cr_Revision pc = cr_Revision c \<and> cr_Hostname pc = host \<and>
             (\<forall>c' \<in> set (certificate_revisions db). \<not> Deleted c' \<and> cr_Hostname c' = host \<longrightarrow> cr_Revision c' \<le> cr_Revision c)) \<and>
        (if de_BackendType de = BackendTypeL4TLSPassthrough \<or> de_BackendType de = BackendTypeL4TLSTermination
         then dp_HTTPRoutes p = [] \<and>
           dp_BindedBackendRef p = projected_backend (live_row sb_ID (service_backend_refs db) (de_BindedServiceID de))
         else dp_BindedBackendRef p = None \<and>
           dp_HTTPRoutes p = map (project_route db) (sort_key route_rank (live_routes host db)))"
proof (cases "live_row de_Hostname (domain_endpoints db) host")
  case None
  then show ?thesis using projection_missing assms by simp
next
  case (Some de)
  have ids: "hr_ID r \<noteq> []" if "r \<in> set (live_routes host db)" for r
    using that assms(3) by (auto simp: live_routes_def)
  obtain cr where cr: "cr \<in> set (left_join (latest_certs host db))" and p:
    "GetDomainEntryProjectionByDomain host db = Inr
       (if de_BackendType de = BackendTypeL4TLSPassthrough \<or> de_BackendType de = BackendTypeL4TLSTermination
        then \<lparr>dp_Hostname = host, dp_Deleted = False, dp_NeedCert = de_NeedCert de, dp_Cert = projected_cert cr,
           dp_BackendType = de_BackendType de, dp_HTTPRoutes = [],
           dp_BindedBackendRef = projected_backend (live_row sb_ID (service_backend_refs db) (de_BindedServiceID de))\<rparr>
        else \<lparr>dp_Hostname = host, dp_Deleted = False, dp_NeedCert = de_NeedCert de, dp_Cert = projected_cert cr,
           dp_BackendType = de_BackendType de,
           dp_HTTPRoutes = map (project_route db) (sort_key route_rank (live_routes host db)), dp_BindedBackendRef = None\<rparr>)"
    using projection_found [OF assms(1,2) Some ids] by blast
  have "case projected_cert cr of
           None \<Rightarrow> \<forall>c \<in> set (certificate_revisions db). Deleted c \<or> cr_Hostname c \<noteq> host
         | Some pc \<Rightarrow> \<exists>c \<in> set (certificate_revisions db). \<not> Deleted c \<and> cr_Hostname c = host \<and> cr_ID pc = cr_ID c \<and>
             cr_Revision pc = cr_Revision c \<and> cr_Hostname pc = host \<and>
             (\<forall>c' \<in> set (certificate_revisions db). \<not> Deleted c' \<and> cr_Hostname c' = host \<longrightarrow> cr_Revision c' \<le> cr_Revision c)"
  proof (cases cr)
    case None
    then have "latest_certs host db = []" using cr by (auto simp: left_join_def split: if_splits)
    then show ?thesis using None latest_certs_exists [of _ db host] by (auto simp: projected_cert_def)
  next
    case (Some c)
    then have c: "c \<in> set (latest_certs host db)" using cr by (auto simp: left_join_def split: if_splits)
    then have c2: "c \<in> set (certificate_revisions db)" "\<not> Deleted c" "cr_Hostname c = host"
      by (auto simp: latest_certs_def Let_def)
    then have "cr_ID c \<noteq> []" using assms(4) by simp
    then have "projected_cert cr \<noteq> None" "cr_ID (the (projected_cert cr)) = cr_ID c"
      "cr_Revision (the (projected_cert cr)) = cr_Revision c" "cr_Hostname (the (projected_cert cr)) = host"
      using Some c2 by (simp_all add: projected_cert_def)
    then show ?thesis using c2 latest_certs_max(1) [OF c] by (auto intro!: bexI [of _ c])
  qed
  then show ?thesis using Some p by simp
qed

theorem projection_query_correct_witness:
  "schema_ok sample_db \<and> (\<exists>p. GetDomainEntryProjectionByDomain ''h'' sample_db = Inr p \<and>
     map hp_ID (dp_HTTPRoutes p) = [''r2'', ''r1''] \<and> dp_BackendType p = BackendTypeL7HTTP)"
proof -
  have a: "schema_ok sample_db" "db_fault sample_db ''domain_endpoints'' = None"
    "\<forall>r \<in> set (http_routes sample_db). hr_ID r \<noteq> []" "\<forall>c \<in> set (certificate_revisions sample_db). cr_ID c \<noteq> []"
    by (simp_all add: sample_db_def empty_db_def schema_ok_def keys_ok_def)
  have l: "live_row de_Hostname (domain_endpoints sample_db) ''h'' =
      Some (zero_DomainEndpoint\<lparr>de_Hostname := ''h'', de_BackendType := BackendTypeL7HTTP\<rparr>)"
    by (simp add: sample_db_def empty_db_def live_row_def zero_DomainEndpoint_def)
  have r: "map (\<lambda>r. hp_ID (project_route sample_db r)) (sort_key route_rank (live_routes ''h'' sample_db)) = [''r2'', ''r1'']"
    by (simp add: sample_db_def empty_db_def live_routes_def route_rank_def zero_HTTPRoute_def project_route_def)
  show ?thesis using projection_query_correct [OF a, of "''h''"] a(1) l r by (auto simp: comp_def)
qed

end
