(* ===== verification/Proto_Shim.thy ===== *)
theory Proto_Shim
  imports Metadata
begin

text \<open>
  The replication messages (\<^verbatim>\<open>replication/replication.go\<close>) and their conversion to and from
  the protobuf messages (\<^verbatim>\<open>replication/proto_shim.go\<close>).  A pointer that may be nil is an
  option; a oneof field is a datatype.  The lemmas compute what a message looks like after
  it crossed the wire, which is the identity except for the fields the conversions leave
  out.
\<close>

section \<open>Replication messages\<close>

type_synonym bytes = "8 word list"

record CertificateBundle =
  cb_Hostname :: string
  cb_Revision :: "64 word"
  cb_TLSCrt :: bytes
  cb_TLSKey :: bytes
  cb_MetadataJSON :: bytes

record Snapshot =
  sn_NodeID :: string
  sn_CreatedAt :: time
  sn_SnapshotRecordID :: "64 word"
  sn_DNSRecords :: "DNSRecord list"
  sn_DomainEntries :: "DomainEntryProjection list"
  sn_Last :: bool

record ChangeNotification =
  cn_NodeID :: string
  cn_CreatedAt :: time
  cn_SnapshotRecordID :: "64 word"
  cn_DNSRecord :: "DNSRecord option"
  cn_DomainEntry :: "DomainEntryProjection option"

section \<open>Protobuf messages\<close>

record Timestamp =
  ts_Seconds :: int
  ts_Nanos :: int

record pb_DNSRecord =
  pd_Id :: string
  pd_Fqdn :: string
  pd_RecordType :: string
  pd_RoutingClass :: string
  pd_TtlSeconds :: "32 word"
  pd_ValuesJson :: string
  pd_RoutingKey :: string
  pd_Enabled :: bool
  pd_Deleted :: bool

record pb_ServiceBackendRef =
  pb_Id :: string
  pb_Type :: string
  pb_ArbitraryEndpoint :: string
  pb_ServiceNamespace :: string
  pb_ServiceName :: string
  pb_Port :: "32 word"

record pb_HTTPRouteProjection =
  ph_Id :: string
  ph_Path :: string
  ph_Priority :: "32 word"
  ph_BackendRef :: "pb_ServiceBackendRef option"

record pb_CertificateRevision =
  pc_Id :: string
  pc_Hostname :: string
  pc_Revision :: "64 word"
  pc_Provider :: string
  pc_ChallengeType :: string
  pc_ArtifactBucket :: string
  pc_ArtifactPrefix :: string
  pc_Sha256Crt :: string
  pc_Sha256Key :: string
  pc_NotBefore :: "Timestamp option"
  pc_NotAfter :: "Timestamp option"

record pb_DomainEntryProjection =
  pe_Hostname :: string
  pe_BackendType :: string
  pe_NeedCert :: bool
  pe_Cert :: "pb_CertificateRevision option"
  pe_HttpRoutes :: "pb_HTTPRouteProjection option list"
  pe_BindedBackendRef :: "pb_ServiceBackendRef option"
  pe_Deleted :: bool

record pb_Snapshot =
  ps_NodeId :: string
  ps_CreatedAt :: "Timestamp option"
  ps_DnsRecords :: "pb_DNSRecord option list"
  ps_DomainEntries :: "pb_DomainEntryProjection option list"
  ps_SnapshotRecordId :: "64 word"
  ps_Last :: bool

datatype pb_Entry =
    ChangeNotification_DnsRecord "pb_DNSRecord option"
  | ChangeNotification_DomainEntry "pb_DomainEntryProjection option"

record pb_ChangeNotification =
  pn_NodeId :: string
  pn_CreatedAt :: "Timestamp option"
  pn_SnapshotRecordId :: "64 word"
  pn_Entry :: "pb_Entry option"

section \<open>Conversions\<close>

definition timeToProto :: "time \<Rightarrow> Timestamp option" where
  "timeToProto t = (if IsZero t then None
     else Some \<lparr>ts_Seconds = t div 1000000000, ts_Nanos = t mod 1000000000\<rparr>)"

definition timeFromProto :: "Timestamp option \<Rightarrow> time" where
  "timeFromProto t = (case t of None \<Rightarrow> time_Zero | Some ts \<Rightarrow> ts_Seconds ts * 1000000000 + ts_Nanos ts)"

definition dnsRecordToProto :: "DNSRecord \<Rightarrow> pb_DNSRecord" where
  "dnsRecordToProto r = \<lparr>pd_Id = dr_ID r, pd_Fqdn = dr_FQDN r, pd_RecordType = dr_RecordType r,
     pd_RoutingClass = dr_RoutingClass r, pd_TtlSeconds = dr_TTLSeconds r, pd_ValuesJson = dr_ValuesJSON r,
     pd_RoutingKey = dr_RoutingKey r, pd_Enabled = dr_Enabled r, pd_Deleted = Deleted r\<rparr>"

definition dnsRecordFromProto :: "pb_DNSRecord option \<Rightarrow> DNSRecord" where
  "dnsRecordFromProto m = (case m of
      None \<Rightarrow> zero_DNSRecord
    | Some p \<Rightarrow> \<lparr>Deleted = pd_Deleted p, CreatedAt = time_Zero, UpdatedAt = time_Zero,
        dr_ID = pd_Id p, dr_FQDN = pd_Fqdn p, dr_RecordType = pd_RecordType p, dr_RoutingClass = pd_RoutingClass p,
        dr_TTLSeconds = pd_TtlSeconds p, dr_ValuesJSON = pd_ValuesJson p, dr_RoutingKey = pd_RoutingKey p,
        dr_Enabled = pd_Enabled p\<rparr>)"

definition serviceBackendRefToProto :: "ServiceBackendRef option \<Rightarrow> pb_ServiceBackendRef option" where
  "serviceBackendRefToProto b = (case b of
      None \<Rightarrow> None
    | Some r \<Rightarrow> Some \<lparr>pb_Id = sb_ID r, pb_Type = sb_Type r, pb_ArbitraryEndpoint = sb_ArbitraryEndpoint r,
        pb_ServiceNamespace = sb_ServiceNamespace r, pb_ServiceName = sb_ServiceName r, pb_Port = sb_Port r\<rparr>)"

definition serviceBackendRefFromProto :: "pb_ServiceBackendRef option \<Rightarrow> ServiceBackendRef option" where
  "serviceBackendRefFromProto m = (case m of
      None \<Rightarrow> None
    | Some p \<Rightarrow> Some \<lparr>Deleted = False, CreatedAt = time_Zero, UpdatedAt = time_Zero,
        sb_ID = pb_Id p, sb_Type = pb_Type p, sb_ArbitraryEndpoint = pb_ArbitraryEndpoint p,
        sb_ServiceNamespace = pb_ServiceNamespace p, sb_ServiceName = pb_ServiceName p, sb_Port = pb_Port p\<rparr>)"

definition httpRouteProjectionToProto :: "HTTPRouteProjection \<Rightarrow> pb_HTTPRouteProjection" where
  "httpRouteProjectionToProto r = \<lparr>ph_Id = hp_ID r, ph_Path = hp_Path r, ph_Priority = hp_Priority r,
     ph_BackendRef = serviceBackendRefToProto (hp_BackendRef r)\<rparr>"

definition httpRouteProjectionFromProto :: "pb_HTTPRouteProjection option \<Rightarrow> HTTPRouteProjection" where
  "httpRouteProjectionFromProto m = (case m of
      None \<Rightarrow> zero_HTTPRouteProjection
    | Some p \<Rightarrow> \<lparr>hp_ID = ph_Id p, hp_Path = ph_Path p, hp_Priority = ph_Priority p,
        hp_BackendRef = serviceBackendRefFromProto (ph_BackendRef p)\<rparr>)"

definition certificateRevisionToProto :: "CertificateRevision option \<Rightarrow> pb_CertificateRevision option" where
  "certificateRevisionToProto c = (case c of
      None \<Rightarrow> None
    | Some r \<Rightarrow> Some \<lparr>pc_Id = cr_ID r, pc_Hostname = cr_Hostname r, pc_Revision = cr_Revision r,
        pc_Provider = cr_Provider r, pc_ChallengeType = cr_ChallengeType r, pc_ArtifactBucket = cr_ArtifactBucket r,
        pc_ArtifactPrefix = cr_ArtifactPrefix r, pc_Sha256Crt = cr_SHA256Crt r, pc_Sha256Key = cr_SHA256Key r,
        pc_NotBefore = timeToProto (cr_NotBefore r), pc_NotAfter = timeToProto (cr_NotAfter r)\<rparr>)"

definition certificateRevisionFromProto :: "pb_CertificateRevision option \<Rightarrow> CertificateRevision option" where
  "certificateRevisionFromProto m = (case m of
      None \<Rightarrow> None
    | Some p \<Rightarrow> Some \<lparr>Deleted = False, CreatedAt = time_Zero, UpdatedAt = time_Zero,
        cr_ID = pc_Id p, cr_Hostname = pc_Hostname p, cr_Revision = pc_Revision p,
        cr_Provider = pc_Provider p, cr_ChallengeType = pc_ChallengeType p, cr_ArtifactBucket = pc_ArtifactBucket p,
        cr_ArtifactPrefix = pc_ArtifactPrefix p, cr_SHA256Crt = pc_Sha256Crt p, cr_SHA256Key = pc_Sha256Key p,
        cr_NotBefore = timeFromProto (pc_NotBefore p), cr_NotAfter = timeFromProto (pc_NotAfter p)\<rparr>)"

text \<open>The field \<^verbatim>\<open>need_cert\<close> of the message is left at its zero value.\<close>

definition domainEntryProjectionToProto :: "DomainEntryProjection \<Rightarrow> pb_DomainEntryProjection" where
  "domainEntryProjectionToProto e = \<lparr>pe_Hostname = dp_Hostname e, pe_BackendType = dp_BackendType e, pe_NeedCert = False,
     pe_Cert = certificateRevisionToProto (dp_Cert e),
     pe_HttpRoutes = map (\<lambda>r. Some (httpRouteProjectionToProto r)) (dp_HTTPRoutes e),
     pe_BindedBackendRef = serviceBackendRefToProto (dp_BindedBackendRef e), pe_Deleted = dp_Deleted e\<rparr>"

definition domainEntryProjectionFromProto :: "pb_DomainEntryProjection option \<Rightarrow> DomainEntryProjection" where
  "domainEntryProjectionFromProto m = (case m of
      None \<Rightarrow> zero_DomainEntryProjection
    | Some p \<Rightarrow> \<lparr>dp_Hostname = pe_Hostname p, dp_Deleted = pe_Deleted p, dp_NeedCert = False,
        dp_Cert = certificateRevisionFromProto (pe_Cert p), dp_BackendType = pe_BackendType p,
        dp_HTTPRoutes = map httpRouteProjectionFromProto (pe_HttpRoutes p),
        dp_BindedBackendRef = serviceBackendRefFromProto (pe_BindedBackendRef p)\<rparr>)"

definition SnapshotToProto :: "Snapshot option \<Rightarrow> pb_Snapshot option" where
  "SnapshotToProto s = (case s of
      None \<Rightarrow> None
    | Some i \<Rightarrow> Some \<lparr>ps_NodeId = sn_NodeID i, ps_CreatedAt = timeToProto (sn_CreatedAt i),
        ps_DnsRecords = map (\<lambda>r. Some (dnsRecordToProto r)) (sn_DNSRecords i),
        ps_DomainEntries = map (\<lambda>e. Some (domainEntryProjectionToProto e)) (sn_DomainEntries i),
        ps_SnapshotRecordId = sn_SnapshotRecordID i, ps_Last = sn_Last i\<rparr>)"

definition SnapshotFromProto :: "pb_Snapshot option \<Rightarrow> Snapshot option" where
  "SnapshotFromProto m = (case m of
      None \<Rightarrow> None
    | Some p \<Rightarrow> Some \<lparr>sn_NodeID = ps_NodeId p, sn_CreatedAt = timeFromProto (ps_CreatedAt p),
        sn_SnapshotRecordID = ps_SnapshotRecordId p, sn_DNSRecords = map dnsRecordFromProto (ps_DnsRecords p),
        sn_DomainEntries = map domainEntryProjectionFromProto (ps_DomainEntries p), sn_Last = ps_Last p\<rparr>)"

text \<open>Setting the oneof twice keeps the last value.\<close>

definition ChangeNotificationToProto :: "ChangeNotification option \<Rightarrow> pb_ChangeNotification option" where
  "ChangeNotificationToProto n = (case n of
      None \<Rightarrow> None
    | Some i \<Rightarrow>
        let entry = (case cn_DNSRecord i of None \<Rightarrow> None
              | Some r \<Rightarrow> Some (ChangeNotification_DnsRecord (Some (dnsRecordToProto r))));
            entry = (case cn_DomainEntry i of None \<Rightarrow> entry
              | Some e \<Rightarrow> Some (ChangeNotification_DomainEntry (Some (domainEntryProjectionToProto e)))) in
        Some \<lparr>pn_NodeId = cn_NodeID i, pn_CreatedAt = timeToProto (cn_CreatedAt i),
          pn_SnapshotRecordId = cn_SnapshotRecordID i, pn_Entry = entry\<rparr>)"

definition GetDnsRecord :: "pb_ChangeNotification \<Rightarrow> pb_DNSRecord option" where
  "GetDnsRecord p = (case pn_Entry p of Some (ChangeNotification_DnsRecord r) \<Rightarrow> r | _ \<Rightarrow> None)"

definition GetDomainEntry :: "pb_ChangeNotification \<Rightarrow> pb_DomainEntryProjection option" where
  "GetDomainEntry p = (case pn_Entry p of Some (ChangeNotification_DomainEntry e) \<Rightarrow> e | _ \<Rightarrow> None)"

definition ChangeNotificationFromProto :: "pb_ChangeNotification option \<Rightarrow> ChangeNotification option" where
  "ChangeNotificationFromProto m = (case m of
      None \<Rightarrow> None
    | Some p \<Rightarrow> Some \<lparr>cn_NodeID = pn_NodeId p, cn_CreatedAt = timeFromProto (pn_CreatedAt p),
        cn_SnapshotRecordID = pn_SnapshotRecordId p,
        cn_DNSRecord = map_option (\<lambda>r. dnsRecordFromProto (Some r)) (GetDnsRecord p),
        cn_DomainEntry = map_option (\<lambda>e. domainEntryProjectionFromProto (Some e)) (GetDomainEntry p)\<rparr>)"

definition ChangelogsFromSnapshot :: "Snapshot option \<Rightarrow> ChangeNotification list" where
  "ChangelogsFromSnapshot s = (case s of
      None \<Rightarrow> []
    | Some i \<Rightarrow>
        map (\<lambda>r. \<lparr>cn_NodeID = sn_NodeID i, cn_CreatedAt = sn_CreatedAt i, cn_SnapshotRecordID = sn_SnapshotRecordID i,
          cn_DNSRecord = Some r, cn_DomainEntry = None\<rparr>) (sn_DNSRecords i) @
        map (\<lambda>e. \<lparr>cn_NodeID = sn_NodeID i, cn_CreatedAt = sn_CreatedAt i, cn_SnapshotRecordID = sn_SnapshotRecordID i,
          cn_DNSRecord = None, cn_DomainEntry = Some e\<rparr>) (sn_DomainEntries i))"

definition SnapshotFromNotice :: "ChangeNotification \<Rightarrow> Snapshot" where
  "SnapshotFromNotice n = \<lparr>sn_NodeID = cn_NodeID n, sn_CreatedAt = cn_CreatedAt n,
     sn_SnapshotRecordID = cn_SnapshotRecordID n,
     sn_DNSRecords = (case cn_DNSRecord n of None \<Rightarrow> [] | Some r \<Rightarrow> [r]),
     sn_DomainEntries = (case cn_DomainEntry n of None \<Rightarrow> [] | Some e \<Rightarrow> [e]), sn_Last = True\<rparr>"

definition zero_ChangeNotification :: ChangeNotification where
  "zero_ChangeNotification = \<lparr>cn_NodeID = [], cn_CreatedAt = time_Zero, cn_SnapshotRecordID = 0,
     cn_DNSRecord = None, cn_DomainEntry = None\<rparr>"

section \<open>What crosses the wire\<close>

text \<open>The row timestamps and the deletion marks of nested rows are not transmitted; neither is
  \<^verbatim>\<open>NeedCert\<close>.\<close>

definition wire_dns :: "DNSRecord \<Rightarrow> DNSRecord" where
  "wire_dns r = r\<lparr>CreatedAt := time_Zero, UpdatedAt := time_Zero\<rparr>"

definition wire_backend :: "ServiceBackendRef \<Rightarrow> ServiceBackendRef" where
  "wire_backend b = b\<lparr>Deleted := False, CreatedAt := time_Zero, UpdatedAt := time_Zero\<rparr>"

definition wire_cert :: "CertificateRevision \<Rightarrow> CertificateRevision" where
  "wire_cert c = c\<lparr>Deleted := False, CreatedAt := time_Zero, UpdatedAt := time_Zero\<rparr>"

definition wire_route :: "HTTPRouteProjection \<Rightarrow> HTTPRouteProjection" where
  "wire_route r = r\<lparr>hp_BackendRef := map_option wire_backend (hp_BackendRef r)\<rparr>"

definition wire_entry :: "DomainEntryProjection \<Rightarrow> DomainEntryProjection" where
  "wire_entry e = e\<lparr>dp_NeedCert := False, dp_Cert := map_option wire_cert (dp_Cert e),
     dp_HTTPRoutes := map wire_route (dp_HTTPRoutes e),
     dp_BindedBackendRef := map_option wire_backend (dp_BindedBackendRef e)\<rparr>"

definition wire_snapshot :: "Snapshot \<Rightarrow> Snapshot" where
  "wire_snapshot s = s\<lparr>sn_DNSRecords := map wire_dns (sn_DNSRecords s), sn_DomainEntries := map wire_entry (sn_DomainEntries s)\<rparr>"

definition wire_notice :: "ChangeNotification \<Rightarrow> ChangeNotification" where
  "wire_notice n = n\<lparr>cn_DNSRecord := map_option wire_dns (cn_DNSRecord n), cn_DomainEntry := map_option wire_entry (cn_DomainEntry n)\<rparr>"

lemma time_roundtrip [simp]: "timeFromProto (timeToProto t) = t"
  by (simp add: timeFromProto_def timeToProto_def IsZero_def)

lemma dns_roundtrip [simp]: "dnsRecordFromProto (Some (dnsRecordToProto r)) = wire_dns r"
  by (simp add: dnsRecordFromProto_def dnsRecordToProto_def wire_dns_def)

lemma backend_roundtrip [simp]: "serviceBackendRefFromProto (serviceBackendRefToProto b) = map_option wire_backend b"
  by (simp add: serviceBackendRefFromProto_def serviceBackendRefToProto_def wire_backend_def split: option.splits)

lemma cert_roundtrip [simp]: "certificateRevisionFromProto (certificateRevisionToProto c) = map_option wire_cert c"
  by (simp add: certificateRevisionFromProto_def certificateRevisionToProto_def wire_cert_def split: option.splits)

lemma route_roundtrip [simp]: "httpRouteProjectionFromProto (Some (httpRouteProjectionToProto r)) = wire_route r"
  by (simp add: httpRouteProjectionFromProto_def httpRouteProjectionToProto_def wire_route_def)

lemma entry_roundtrip [simp]: "domainEntryProjectionFromProto (Some (domainEntryProjectionToProto e)) = wire_entry e"
  by (simp add: domainEntryProjectionFromProto_def domainEntryProjectionToProto_def wire_entry_def comp_def)

lemma snapshot_roundtrip [simp]: "SnapshotFromProto (SnapshotToProto (Some s)) = Some (wire_snapshot s)"
  by (simp add: SnapshotFromProto_def SnapshotToProto_def wire_snapshot_def comp_def)

lemma notice_roundtrip:
  "cn_DNSRecord n = None \<or> cn_DomainEntry n = None \<Longrightarrow>
   ChangeNotificationFromProto (ChangeNotificationToProto (Some n)) = Some (wire_notice n)"
  by (auto simp: ChangeNotificationFromProto_def ChangeNotificationToProto_def wire_notice_def Let_def
      GetDnsRecord_def GetDomainEntry_def split: option.splits)

lemma wire_keys [simp]:
  "dr_ID (wire_dns r) = dr_ID r" "Deleted (wire_dns r) = Deleted r" "dr_FQDN (wire_dns r) = dr_FQDN r"
  "dr_RecordType (wire_dns r) = dr_RecordType r"
  "dp_Hostname (wire_entry e) = dp_Hostname e" "dp_Deleted (wire_entry e) = dp_Deleted e"
  by (simp_all add: wire_dns_def wire_entry_def)

section \<open>Properties\<close>

text \<open>C8. Encoding a snapshot and decoding it gives the snapshot back, with its cursor, its last
  mark and every DNS record and domain entry in order, except that the bookkeeping
  timestamps of the rows are reset and \<^verbatim>\<open>NeedCert\<close> of every domain entry is lost.\<close>
theorem snapshot_wire_roundtrip:
  "\<exists>s'. SnapshotFromProto (SnapshotToProto (Some s)) = Some s' \<and>
     sn_SnapshotRecordID s' = sn_SnapshotRecordID s \<and> sn_Last s' = sn_Last s \<and> sn_NodeID s' = sn_NodeID s \<and>
     sn_CreatedAt s' = sn_CreatedAt s \<and>
     sn_DNSRecords s' = map (\<lambda>r. r\<lparr>CreatedAt := time_Zero, UpdatedAt := time_Zero\<rparr>) (sn_DNSRecords s) \<and>
     map (\<lambda>e. e\<lparr>dp_Cert := None, dp_HTTPRoutes := [], dp_BindedBackendRef := None\<rparr>) (sn_DomainEntries s') =
       map (\<lambda>e. e\<lparr>dp_Cert := None, dp_HTTPRoutes := [], dp_BindedBackendRef := None, dp_NeedCert := False\<rparr>) (sn_DomainEntries s) \<and>
     map dp_Cert (sn_DomainEntries s') = map (\<lambda>e. map_option wire_cert (dp_Cert e)) (sn_DomainEntries s) \<and>
     map dp_HTTPRoutes (sn_DomainEntries s') = map (\<lambda>e. map wire_route (dp_HTTPRoutes e)) (sn_DomainEntries s) \<and>
     map dp_BindedBackendRef (sn_DomainEntries s') = map (\<lambda>e. map_option wire_backend (dp_BindedBackendRef e)) (sn_DomainEntries s)"
  by (simp add: wire_snapshot_def wire_dns_def wire_entry_def comp_def)


end
