(* ===== verification/Hostnames.thy ===== *)
theory Hostnames
  imports Metadata
begin

text \<open>
  Host names: \<^verbatim>\<open>utils/domain_name.go\<close>, the ingress copy in \<^verbatim>\<open>ingress/utils.go\<close> and the
  looser normaliser of the master's Kubernetes bridges
  (\<^verbatim>\<open>engine/master/k8s_bridge/gateway.go\<close>).  The lemmas show that the first two accept the
  same names, that every normaliser result is a well-formed name and a fixed point, and
  where the third one disagrees with them.
\<close>

section \<open>Definitions\<close>

definition label_char :: "char \<Rightarrow> bool" where
  "label_char c = (let n = (of_char c :: nat) in (97 \<le> n \<and> n \<le> 122) \<or> (48 \<le> n \<and> n \<le> 57))"

text \<open>The regular expression \<^verbatim>\<open>hostnameLabelPattern\<close>.\<close>

definition hostnameLabelPattern :: "string \<Rightarrow> bool" where
  "hostnameLabelPattern s = (case s of
      [] \<Rightarrow> False
    | c # r \<Rightarrow> label_char c \<and>
        (r = [] \<or> length r \<le> 62 \<and> list_all (\<lambda>d. label_char d \<or> d = CHR ''-'') (butlast r) \<and> label_char (last r)))"

definition cut_port :: "string \<Rightarrow> string" where
  "cut_port host = (case Index host '':'' of None \<Rightarrow> host | Some i \<Rightarrow> take i host)"

definition strip_scheme :: "string \<Rightarrow> string" where
  "strip_scheme host = TrimPrefix (TrimPrefix host ''http://'') ''https://''"

text \<open>\<^verbatim>\<open>utils/domain_name.go\<close>\<close>

record DomainName =
  dn_Hostname :: string
  dn_Wildcard :: bool

fun first_bad_label :: "string list \<Rightarrow> string option" where
  "first_bad_label [] = None"
| "first_bad_label (l # ls) = (if \<not> hostnameLabelPattern l then Some l else first_bad_label ls)"

definition utils_sanitizeHostname :: "string \<Rightarrow> (string \<times> bool) result" where
  "utils_sanitizeHostname host0 = (
     let host = TrimSpace (ToLower host0) in
     if host = [] then Inl (Err ''hostname cannot be empty'') else
     let wildcard = HasPrefix host ''*.'';
         host = (if wildcard then TrimPrefix host ''*.'' else host) in
     if host = [] \<or> Contains host ''..'' \<or> ContainsAny host [CHR ''/'', CHR 0x5C, CHR '' '']
     then Inl (Err ''invalid hostname'') else
     case first_bad_label (Split host (CHR ''.'')) of
       Some label \<Rightarrow> Inl (ErrOn ''invalid hostname label: '' label)
     | None \<Rightarrow> if wildcard then Inr (''*.'' @ host, True) else Inr (host, False))"

definition utils_normalizeHost :: "string \<Rightarrow> (string \<times> bool) result" where
  "utils_normalizeHost host = utils_sanitizeHostname (cut_port (strip_scheme (TrimSpace (ToLower host))))"

definition TryDomainName :: "string \<Rightarrow> DomainName option" where
  "TryDomainName f = (case utils_normalizeHost f of
      Inl _ \<Rightarrow> None
    | Inr (hostname, wildcard) \<Rightarrow> Some \<lparr>dn_Hostname = hostname, dn_Wildcard = wildcard\<rparr>)"

text \<open>\<^verbatim>\<open>ingress/utils.go\<close>\<close>

definition sanitizeHostname :: "string \<Rightarrow> string" where
  "sanitizeHostname host0 = (
     let host = TrimSpace (ToLower host0) in
     if host = [] then [] else
     let wildcard = HasPrefix host ''*.'';
         host = (if wildcard then TrimPrefix host ''*.'' else host) in
     if host = [] \<or> Contains host ''..'' \<or> ContainsAny host [CHR ''/'', CHR 0x5C, CHR '' '']
     then [] else
     if \<not> list_all hostnameLabelPattern (Split host (CHR ''.'')) then []
     else if wildcard then ''*.'' @ host else host)"

definition normalizeHost :: "string \<Rightarrow> string" where
  "normalizeHost host = sanitizeHostname (cut_port (strip_scheme (TrimSpace (ToLower host))))"

text \<open>\<^verbatim>\<open>engine/master/k8s_bridge/gateway.go\<close>\<close>

definition bridge_normalizeHost :: "string \<Rightarrow> string" where
  "bridge_normalizeHost host = TrimSuffix (cut_port (strip_scheme (TrimSpace (ToLower host)))) ''.''"

text \<open>What the normalisers promise: labels of letters, digits and inner hyphens, of length
  1 to 63, separated by single dots, after an optional wildcard label.\<close>

definition valid_hostname :: "string \<Rightarrow> bool" where
  "valid_hostname h = (\<exists>ls. ls \<noteq> [] \<and> list_all hostnameLabelPattern ls \<and>
     (h = Join ls ''.'' \<or> h = ''*.'' @ Join ls ''.''))"

section \<open>Lemmas\<close>

lemma label_charD: "label_char c \<Longrightarrow> lower_char c = c \<and> \<not> is_space c \<and> c \<noteq> CHR ''.'' \<and> c \<noteq> CHR '':''
    \<and> c \<noteq> CHR ''/'' \<and> c \<noteq> CHR 0x5C \<and> c \<noteq> CHR ''*''"
  by (auto simp: label_char_def lower_char_def is_space_def Let_def)

lemma hyphen_char: "lower_char (CHR ''-'') = CHR ''-''" "\<not> is_space (CHR ''-'')"
  by (auto simp: lower_char_def is_space_def Let_def)

lemma hostnameLabelPattern_not_Nil: "hostnameLabelPattern s \<Longrightarrow> s \<noteq> []"
  by (auto simp: hostnameLabelPattern_def)

lemma hostnameLabelPattern_length: "hostnameLabelPattern s \<Longrightarrow> 1 \<le> length s \<and> length s \<le> 63"
  by (auto simp: hostnameLabelPattern_def split: list.splits)

lemma hostnameLabelPattern_chars:
  assumes "hostnameLabelPattern s" "c \<in> set s"
  shows "label_char c \<or> c = CHR ''-''"
proof (cases s)
  case (Cons d r)
  with assms show ?thesis
    by (cases r rule: rev_cases) (auto simp: hostnameLabelPattern_def list_all_iff)
qed (use assms in simp)

lemma hostnameLabelPattern_ends:
  "hostnameLabelPattern s \<Longrightarrow> label_char (hd s)" "hostnameLabelPattern s \<Longrightarrow> label_char (last s)"
  by (auto simp: hostnameLabelPattern_def split: list.splits)

lemma first_bad_label_None: "first_bad_label ls = None \<longleftrightarrow> list_all hostnameLabelPattern ls"
  by (induction ls) auto

lemma Join_not_Nil: "ls \<noteq> [] \<Longrightarrow> hd ls \<noteq> [] \<Longrightarrow> Join ls sep \<noteq> []"
  by (induction ls sep rule: Join.induct) auto

lemma Join_hd: "ls \<noteq> [] \<Longrightarrow> hd ls \<noteq> [] \<Longrightarrow> hd (Join ls sep) = hd (hd ls)"
  by (induction ls sep rule: Join.induct) auto

lemma Join_last: "ls \<noteq> [] \<Longrightarrow> (\<And>l. l \<in> set ls \<Longrightarrow> l \<noteq> []) \<Longrightarrow> last (Join ls sep) = last (last ls)"
proof (induction ls sep rule: Join.induct)
  case (3 w v ws sep)
  then have "Join (v # ws) sep \<noteq> []" by (intro Join_not_Nil) auto
  with 3 show ?case by auto
qed auto

lemma Join_no_double_dot:
  assumes "ls \<noteq> []" "\<And>l. l \<in> set ls \<Longrightarrow> l \<noteq> [] \<and> CHR ''.'' \<notin> set l"
  shows "\<not> Contains (Join ls ''.'') ''..''"
proof -
  have nodot: "Index (l @ s) ''..'' = map_option (\<lambda>i. i + length l) (Index s ''..'')"
    if "CHR ''.'' \<notin> set l" for l s
    using that by (induction l) (auto simp: HasPrefix_def option.map_comp comp_def option.map_ident)
  have nodot1: "Index l ''..'' = None" if "CHR ''.'' \<notin> set l" for l
    using nodot [OF that, of "[]"] by simp
  show ?thesis
    using assms
  proof (induction ls "''.''" rule: Join.induct)
    case (3 w v ws)
    then have ne: "Join (v # ws) ''.'' \<noteq> []" "hd (Join (v # ws) ''.'') \<noteq> CHR ''.''"
      by (auto simp: Join_not_Nil Join_hd) (metis hd_in_set)
    from 3 have "Index (Join (v # ws) ''.'') ''..'' = None" by (simp add: Contains_def)
    then have "Index (CHR ''.'' # Join (v # ws) ''.'') ''..'' = None"
      using ne by (cases "Join (v # ws) ''.''") (auto simp: HasPrefix_def)
    with 3(3) show ?case by (simp add: Contains_def nodot)
  qed (auto simp: Contains_def nodot1)
qed

lemma name_char:
  assumes "label_char c \<or> c = CHR ''-''"
  shows "lower_char c = c" "\<not> is_space c" "c \<noteq> CHR ''.''" "c \<noteq> CHR '':''" "c \<noteq> CHR ''/''"
    "c \<noteq> CHR 0x5C" "c \<noteq> CHR ''*''" "c \<noteq> CHR '' ''"
  using assms label_charD [of c] hyphen_char by (elim disjE; simp; auto simp: is_space_def)+

lemma hostnameLabelPattern_no_dot: "hostnameLabelPattern l \<Longrightarrow> CHR ''.'' \<notin> set l"
  using hostnameLabelPattern_chars name_char(3) by blast

text \<open>A sequence of valid labels joined by dots.\<close>

lemma labels_joined:
  assumes ne: "ls \<noteq> []" and ok: "list_all hostnameLabelPattern ls"
  defines "h \<equiv> Join ls ''.''"
  shows "h \<noteq> []" "ToLower h = h" "TrimSpace h = h" "CHR '':'' \<notin> set h" "CHR ''*'' \<notin> set h"
    "\<not> Contains h ''..''" "\<not> ContainsAny h [CHR ''/'', CHR 0x5C, CHR '' '']" "Split h (CHR ''.'') = ls"
    "last h \<noteq> CHR ''.''"
proof -
  have lab: "l \<noteq> []" "CHR ''.'' \<notin> set l" "hostnameLabelPattern l" if "l \<in> set ls" for l
    using that ok hostnameLabelPattern_not_Nil hostnameLabelPattern_no_dot by (simp_all add: list_all_iff)
  have ch: "c = CHR ''.'' \<or> (label_char c \<or> c = CHR ''-'')" if "c \<in> set h" for c
  proof -
    from that have "c \<in> set ''.'' \<or> (\<exists>l\<in>set ls. c \<in> set l)" unfolding h_def by (rule Join_chars)
    then show ?thesis using lab(3) hostnameLabelPattern_chars by fastforce
  qed
  show hne: "h \<noteq> []" unfolding h_def using ne lab by (intro Join_not_Nil) auto
  have "lower_char c = c" if "c \<in> set h" for c
    using ch [OF that] name_char(1) [of c] by (elim disjE) (simp_all add: lower_char_def Let_def)
  then show "ToLower h = h" by (simp add: ToLower_def map_idI)
  have "label_char (hd h)" "label_char (last h)"
    unfolding h_def using ne lab by (simp_all add: Join_hd Join_last hostnameLabelPattern_ends)
  then show "TrimSpace h = h" "last h \<noteq> CHR ''.''"
    using hne label_charD by (simp_all add: TrimSpace_def TrimFunc_fixed)
  have "c \<noteq> CHR '':'' \<and> c \<noteq> CHR ''*'' \<and> c \<noteq> CHR ''/'' \<and> c \<noteq> CHR 0x5C \<and> c \<noteq> CHR '' ''" if "c \<in> set h" for c
    using ch [OF that] name_char [of c] by (elim disjE) simp_all
  then show "CHR '':'' \<notin> set h" "CHR ''*'' \<notin> set h" "\<not> ContainsAny h [CHR ''/'', CHR 0x5C, CHR '' '']"
    by (auto simp: ContainsAny_def list_ex_iff)
  show "\<not> Contains h ''..''" "Split h (CHR ''.'') = ls"
    unfolding h_def using ne lab by (simp_all add: Join_no_double_dot Split_Join)
qed

lemma cut_port_no_colon [simp]: "CHR '':'' \<notin> set h \<Longrightarrow> cut_port h = h"
  by (simp add: cut_port_def Index_char [THEN iffD2])

lemma strip_scheme_no_colon [simp]: "CHR '':'' \<notin> set h \<Longrightarrow> strip_scheme h = h"
  by (auto simp: strip_scheme_def TrimPrefix_def HasPrefix_conv)

lemma wildcard_trim:
  assumes "TrimSpace h = h" "ToLower h = h" "h \<noteq> []"
  shows "TrimSpace (ToLower (''*.'' @ h)) = ''*.'' @ h"
proof -
  have "TrimFunc is_space h \<noteq> []" using assms by (simp add: TrimSpace_def)
  from TrimFunc_ends(2) [OF this] have "\<not> is_space (last h)" using assms by (simp add: TrimSpace_def)
  then have "TrimFunc is_space (''*.'' @ h) = ''*.'' @ h"
    using assms by (intro TrimFunc_fixed) (auto simp: is_space_def Let_def)
  then show ?thesis
    using assms by (simp add: TrimSpace_def ToLower_def) (simp add: lower_char_def Let_def)
qed

lemma sanitizeHostname_labels:
  assumes "ls \<noteq> []" "list_all hostnameLabelPattern ls"
  shows "sanitizeHostname (Join ls ''.'') = Join ls ''.''"
    "sanitizeHostname (''*.'' @ Join ls ''.'') = ''*.'' @ Join ls ''.''"
proof -
  note lj = labels_joined [OF assms]
  have "\<not> HasPrefix (Join ls ''.'') ''*.''" using lj(5) by (auto simp: HasPrefix_conv)
  then show "sanitizeHostname (Join ls ''.'') = Join ls ''.''"
    using lj assms by (simp add: sanitizeHostname_def Let_def)
  have "HasPrefix (''*.'' @ Join ls ''.'') ''*.''" "TrimPrefix (''*.'' @ Join ls ''.'') ''*.'' = Join ls ''.''"
    by (rule HasPrefix_append, rule TrimPrefix_append)
  then show "sanitizeHostname (''*.'' @ Join ls ''.'') = ''*.'' @ Join ls ''.''"
    using lj assms wildcard_trim [OF lj(3,2,1)] unfolding sanitizeHostname_def Let_def by simp
qed

lemma sanitizeHostname_fixed [norm_simps]: "valid_hostname h \<Longrightarrow> sanitizeHostname h = h"
  unfolding valid_hostname_def using sanitizeHostname_labels by metis

lemma sanitizeHostname_valid: "sanitizeHostname h = [] \<or> valid_hostname (sanitizeHostname h)"
proof (cases "sanitizeHostname h = []")
  case False
  let ?w = "HasPrefix (TrimSpace (ToLower h)) ''*.''"
  let ?b = "if ?w then TrimPrefix (TrimSpace (ToLower h)) ''*.'' else TrimSpace (ToLower h)"
  from False have "list_all hostnameLabelPattern (Split ?b (CHR ''.''))"
    and "sanitizeHostname h = (if ?w then ''*.'' @ ?b else ?b)"
    by (auto simp: sanitizeHostname_def Let_def split: if_splits)
  then have "valid_hostname (sanitizeHostname h)"
    unfolding valid_hostname_def by (intro exI [of _ "Split ?b (CHR ''.'')"]) (auto simp del: append.simps)
  then show ?thesis ..
qed simp

lemma valid_hostname_not_Nil: "valid_hostname h \<Longrightarrow> h \<noteq> []"
  by (auto simp: valid_hostname_def dest: labels_joined(1) sym)

lemma valid_hostname_plain:
  assumes "valid_hostname h"
  shows "TrimSpace (ToLower h) = h" "CHR '':'' \<notin> set h"
proof -
  from assms obtain ls where ls: "ls \<noteq> []" "list_all hostnameLabelPattern ls"
    and h: "h = Join ls ''.'' \<or> h = ''*.'' @ Join ls ''.''" by (auto simp: valid_hostname_def)
  note lj = labels_joined [OF ls]
  show "TrimSpace (ToLower h) = h" using h lj wildcard_trim [OF lj(3,2,1)] by metis
  show "CHR '':'' \<notin> set h" using h lj by auto
qed

lemma normalizeHost_fixed [norm_simps]: "valid_hostname h \<Longrightarrow> normalizeHost h = h"
  by (simp add: normalizeHost_def valid_hostname_plain sanitizeHostname_fixed)

lemma normalizeHost_valid: "normalizeHost h = [] \<or> valid_hostname (normalizeHost h)"
  by (simp add: normalizeHost_def sanitizeHostname_valid)

lemma normalizeHost_Nil [simp]: "normalizeHost [] = []"
  by (simp add: normalizeHost_def strip_scheme_def TrimPrefix_def HasPrefix_def cut_port_def sanitizeHostname_def)

lemma normalizeHost_idem [simp]: "normalizeHost (normalizeHost h) = normalizeHost h"
  using normalizeHost_valid [of h] by (auto simp: normalizeHost_fixed)

lemma first_bad_label_case:
  "(case first_bad_label ls of Some l \<Rightarrow> f l | None \<Rightarrow> g) =
   (if list_all hostnameLabelPattern ls then g else f (the (first_bad_label ls)))"
  using first_bad_label_None [of ls] by (auto split: option.splits)

lemma labels_no_wildcard: "list_all hostnameLabelPattern (Split b (CHR ''.'')) \<Longrightarrow> \<not> HasPrefix b ''*.''"
  using labels_joined(5) [OF Split_not_Nil, of b "CHR ''.''"] by (metis HasPrefix_conv Join_Split append_Cons list.set_intros(1))

lemma utils_sanitizeHostname_eq:
  "utils_sanitizeHostname h = Inr (n, w) \<longleftrightarrow> sanitizeHostname h = n \<and> n \<noteq> [] \<and> w = HasPrefix n ''*.''"
proof -
  define t where "t = TrimSpace (ToLower h)"
  define b where "b = (if HasPrefix t ''*.'' then TrimPrefix t ''*.'' else t)"
  let ?bad = "b = [] \<or> Contains b ''..'' \<or> ContainsAny b [CHR ''/'', CHR 0x5C, CHR '' '']"
  let ?ok = "list_all hostnameLabelPattern (Split b (CHR ''.''))"
  have u: "utils_sanitizeHostname h = (if t = [] then Inl (Err ''hostname cannot be empty'')
      else if ?bad then Inl (Err ''invalid hostname'')
      else if \<not> ?ok then Inl (ErrOn ''invalid hostname label: '' (the (first_bad_label (Split b (CHR ''.'')))))
      else if HasPrefix t ''*.'' then Inr (''*.'' @ b, True) else Inr (b, False))"
    by (simp add: utils_sanitizeHostname_def Let_def t_def b_def first_bad_label_case)
  have i: "sanitizeHostname h = (if t = [] \<or> ?bad \<or> \<not> ?ok then []
      else if HasPrefix t ''*.'' then ''*.'' @ b else b)"
    by (simp add: sanitizeHostname_def Let_def t_def b_def)
  have "HasPrefix (''*.'' @ b) ''*.''" by (rule HasPrefix_append)
  then show ?thesis
    unfolding u i using labels_no_wildcard [of b] by auto
qed

lemma bridge_normalizeHost_valid: "valid_hostname h \<Longrightarrow> bridge_normalizeHost h = h"
proof -
  assume v: "valid_hostname h"
  then obtain ls where ls: "ls \<noteq> []" "list_all hostnameLabelPattern ls"
    and h: "h = Join ls ''.'' \<or> h = ''*.'' @ Join ls ''.''" by (auto simp: valid_hostname_def)
  have "last h \<noteq> CHR ''.''" using h labels_joined(1,9) [OF ls] by auto
  then have "TrimSuffix h ''.'' = h" by (simp add: TrimSuffix_def HasSuffix_single)
  then show ?thesis by (simp add: bridge_normalizeHost_def valid_hostname_plain [OF v])
qed

section \<open>Properties\<close>

text \<open>C4. The two copies of the host name normaliser agree: the error-returning one of
  \<^verbatim>\<open>utils\<close> accepts a string exactly when the one of \<^verbatim>\<open>ingress\<close> returns a non-empty name, both
  return the same name, and the wildcard flag says whether that name starts with a
  wildcard label.\<close>
theorem normalizeHost_copies_agree:
  "utils_normalizeHost host = Inr (name, wildcard) \<longleftrightarrow>
     normalizeHost host = name \<and> name \<noteq> [] \<and> wildcard = HasPrefix name ''*.''"
  by (simp add: utils_normalizeHost_def normalizeHost_def utils_sanitizeHostname_eq)

text \<open>C5. The ingress normaliser returns the empty string or a well-formed host name (dot
  separated labels of 1 to 63 letters, digits and inner hyphens, with an optional wildcard
  label), and the well-formed host names are exactly its non-empty fixed points; hence it
  is idempotent.\<close>
theorem normalizeHost_normal_form:
  "(normalizeHost host = [] \<or> valid_hostname (normalizeHost host)) \<and>
   (valid_hostname host \<longleftrightarrow> host \<noteq> [] \<and> normalizeHost host = host) \<and>
   normalizeHost (normalizeHost host) = normalizeHost host"
  using normalizeHost_valid [of host] normalizeHost_fixed valid_hostname_not_Nil by auto

end
