(* ===== verification/Go_Path.thy ===== *)
theory Go_Path
  imports Prelude
begin

text \<open>
  Package \<^verbatim>\<open>path/filepath\<close> on Unix, as far as the sources use it: lexical cleaning, joining
  and relative paths.  A path is processed as the list of its components.
\<close>

section \<open>Clean\<close>

text \<open>\<open>clean_step rooted acc c\<close> processes one component; \<open>acc\<close> is the reversed result so far.\<close>

fun clean_step :: "bool \<Rightarrow> string list \<Rightarrow> string \<Rightarrow> string list" where
  "clean_step rooted acc c =
     (if c = [] \<or> c = ''.'' then acc
      else if c = ''..'' then (case acc of
          [] \<Rightarrow> if rooted then [] else [''..'']
        | d # ds \<Rightarrow> if d = ''..'' then ''..'' # acc else ds)
      else c # acc)"

definition clean_components :: "bool \<Rightarrow> string list \<Rightarrow> string list" where
  "clean_components rooted cs = rev (foldl (clean_step rooted) [] cs)"

definition is_rooted :: "string \<Rightarrow> bool" where
  "is_rooted p = HasPrefix p ''/''"

definition path_components :: "string \<Rightarrow> string list" where
  "path_components p = clean_components (is_rooted p) (Split p (CHR ''/''))"

definition render_path :: "bool \<Rightarrow> string list \<Rightarrow> string" where
  "render_path rooted cs = (if rooted then ''/'' @ Join cs ''/'' else if cs = [] then ''.'' else Join cs ''/'')"

definition path_Clean :: "string \<Rightarrow> string" where
  "path_Clean p = render_path (is_rooted p) (path_components p)"

section \<open>Join and Rel\<close>

definition path_Join :: "string list \<Rightarrow> string" where
  "path_Join elems = (let es = dropWhile (\<lambda>e. e = []) elems in
     if es = [] then [] else path_Clean (Join es ''/''))"

fun strip_common :: "string list \<Rightarrow> string list \<Rightarrow> string list \<times> string list" where
  "strip_common (b # bs) (t # ts) = (if b = t then strip_common bs ts else (b # bs, t # ts))"
| "strip_common bs ts = (bs, ts)"

text \<open>\<^verbatim>\<open>filepath.Rel\<close>; \<^const>\<open>None\<close> is its error.\<close>

definition path_Rel :: "string \<Rightarrow> string \<Rightarrow> string option" where
  "path_Rel base targ = (
     if path_Clean base = path_Clean targ then Some ''.''
     else if is_rooted (path_Clean base) \<noteq> is_rooted (path_Clean targ) then None
     else (case strip_common (path_components base) (path_components targ) of
        (bs, ts) \<Rightarrow> if ''..'' \<in> set bs then None
          else Some (render_path False (map (\<lambda>_. ''..'') bs @ ts))))"

section \<open>Plain components\<close>

text \<open>A component that cleaning leaves alone.\<close>

definition plain_component :: "string \<Rightarrow> bool" where
  "plain_component c = (c \<noteq> [] \<and> c \<noteq> ''.'' \<and> c \<noteq> ''..'' \<and> CHR ''/'' \<notin> set c)"

text \<open>A cleaned absolute path that is not the root directory.\<close>

definition clean_root :: "string \<Rightarrow> bool" where
  "clean_root p = (\<exists>cs. cs \<noteq> [] \<and> list_all plain_component cs \<and> p = CHR ''/'' # Join cs ''/'')"

lemma clean_plain_foldl:
  "list_all plain_component cs \<Longrightarrow> foldl (clean_step rooted) acc cs = rev cs @ acc"
  by (induction cs arbitrary: acc) (auto simp: plain_component_def)

lemma clean_plain: "list_all plain_component cs \<Longrightarrow> clean_components rooted cs = cs"
  by (simp add: clean_components_def clean_plain_foldl)

lemma clean_leading_empty: "clean_components rooted ([] # cs) = clean_components rooted cs"
  by (simp add: clean_components_def)

lemma Split_plain: "list_all plain_component cs \<Longrightarrow> cs \<noteq> [] \<Longrightarrow> Split (Join cs ''/'') (CHR ''/'') = cs"
  by (rule Split_Join) (auto simp: plain_component_def list_all_iff)

lemma rooted_path:
  assumes "list_all plain_component cs" "cs \<noteq> []"
  defines "p \<equiv> CHR ''/'' # Join cs ''/''"
  shows "is_rooted p" "path_components p = cs" "path_Clean p = p"
proof -
  show r: "is_rooted p" by (simp add: is_rooted_def HasPrefix_def p_def)
  have "Split p (CHR ''/'') = [] # cs" using assms by (simp add: p_def Split_plain)
  then show c: "path_components p = cs"
    using assms r by (simp add: path_components_def clean_leading_empty clean_plain)
  show "path_Clean p = p" unfolding path_Clean_def c using r by (simp add: render_path_def p_def)
qed

lemma relative_path:
  assumes "list_all plain_component cs" "cs \<noteq> []"
  shows "\<not> is_rooted (Join cs ''/'')" "path_components (Join cs ''/'') = cs" "path_Clean (Join cs ''/'') = Join cs ''/''"
proof -
  obtain c ds where cs: "cs = c # ds" "c \<noteq> []" "CHR ''/'' \<notin> set c"
    using assms by (cases cs) (auto simp: plain_component_def)
  then obtain a c' where c: "c = a # c'" "a \<noteq> CHR ''/''" by (cases c) auto
  then show r: "\<not> is_rooted (Join cs ''/'')"
    using cs by (cases ds) (auto simp: is_rooted_def HasPrefix_def)
  show p: "path_components (Join cs ''/'') = cs"
    using assms by (simp add: path_components_def Split_plain clean_plain)
  show "path_Clean (Join cs ''/'') = Join cs ''/''"
    using assms(2) by (simp add: path_Clean_def r p render_path_def)
qed

lemma Join_append: "xs \<noteq> [] \<Longrightarrow> ys \<noteq> [] \<Longrightarrow> Join (xs @ ys) sep = Join xs sep @ sep @ Join ys sep"
proof (induction xs sep rule: Join.induct)
  case (2 w sep)
  then show ?case by (cases ys) auto
qed auto

lemma Join_Join:
  assumes "list_all (\<lambda>cs. cs \<noteq> []) css" "css \<noteq> []"
  shows "Join (map (\<lambda>cs. Join cs sep) css) sep = Join (concat css) sep"
  using assms
proof (induction css)
  case (Cons c css)
  then show ?case
    by (cases css) (auto simp: Join_append)
qed simp

lemma path_Join_plain:
  assumes root: "list_all plain_component cs" "cs \<noteq> []" and rest: "list_all plain_component ds" "ds \<noteq> []"
  shows "path_Join ((CHR ''/'' # Join cs ''/'') # ds) = CHR ''/'' # Join (cs @ ds) ''/''"
proof -
  have "Join ((CHR ''/'' # Join cs ''/'') # ds) ''/'' = CHR ''/'' # Join (cs @ ds) ''/''"
    using rest(2) root(2) by (cases ds) (auto simp: Join_append)
  moreover have "list_all plain_component (cs @ ds)" "cs @ ds \<noteq> []" using assms by auto
  ultimately show ?thesis using rooted_path(3) [of "cs @ ds"] by (simp add: path_Join_def Let_def)
qed

lemma strip_common_prefix [simp]: "strip_common bs (bs @ ts) = ([], ts)"
  by (induction bs) (auto simp: strip_common.simps(2))

lemma path_Rel_plain:
  assumes "list_all plain_component cs" "cs \<noteq> []" "list_all plain_component ds" "ds \<noteq> []"
  shows "path_Rel (CHR ''/'' # Join cs ''/'') (CHR ''/'' # Join (cs @ ds) ''/'') = Some (Join ds ''/'')"
proof -
  note b = rooted_path [OF assms(1,2)]
  have l: "list_all plain_component (cs @ ds)" "cs @ ds \<noteq> []" using assms by auto
  note t = rooted_path [OF l]
  have "CHR ''/'' # Join cs ''/'' \<noteq> CHR ''/'' # Join (cs @ ds) ''/''"
    using b(2) t(2) assms(4) by (metis append_self_conv)
  then show ?thesis
    using assms(4) b t by (simp add: path_Rel_def render_path_def)
qed

end
