(* ===== verification/Tls_Certs.thy ===== *)
theory Tls_Certs
  imports Hostnames Go_Path
begin

text \<open>
  The certificate resolver of \<^verbatim>\<open>ingress/tls_cert_resolver.go\<close>: the LRU cache, the candidate
  names of a host, the directory of a host's certificate and its inverse, loading and cache
  invalidation.  The LRU is modelled with the identities of its list elements, as the map
  \<^verbatim>\<open>entries\<close> stores pointers to them.  The file system is a partial map from paths to file
  contents.  Parsing a key pair (\<^verbatim>\<open>tls.LoadX509KeyPair\<close>) is the parameter \<open>load\<close>.

  The lemmas show that the LRU implements a list of entries in recency order bounded by the
  capacity, that looking up a certificate through the cache gives what the disk holds as long
  as the cache is coherent, and that invalidating the changed paths keeps it coherent.
\<close>

section \<open>The LRU cache\<close>

record 'c certLRU =
  capacity :: int
  ll :: "(nat \<times> string \<times> 'c) list"
  entries :: "string \<rightharpoonup> nat"
  next_elem :: nat

definition newCertLRU :: "int \<Rightarrow> 'c certLRU" where
  "newCertLRU cap = \<lparr>capacity = cap, ll = [], entries = Map.empty, next_elem = 0\<rparr>"

text \<open>Operations of \<^verbatim>\<open>container/list\<close> on an element.\<close>

definition elem_of :: "nat \<Rightarrow> (nat \<times> string \<times> 'c) list \<Rightarrow> (string \<times> 'c) option" where
  "elem_of e l = map_of l e"

definition remove_elem :: "nat \<Rightarrow> (nat \<times> string \<times> 'c) list \<Rightarrow> (nat \<times> string \<times> 'c) list" where
  "remove_elem e l = filter (\<lambda>x. fst x \<noteq> e) l"

definition MoveToFront :: "nat \<Rightarrow> (nat \<times> string \<times> 'c) list \<Rightarrow> (nat \<times> string \<times> 'c) list" where
  "MoveToFront e l = (case map_of l e of None \<Rightarrow> l | Some kv \<Rightarrow> (e, kv) # remove_elem e l)"

definition set_value :: "nat \<Rightarrow> 'c \<Rightarrow> (nat \<times> string \<times> 'c) list \<Rightarrow> (nat \<times> string \<times> 'c) list" where
  "set_value e v l = map (\<lambda>(i, k, w). if i = e then (i, k, v) else (i, k, w)) l"

definition lru_Get :: "string \<Rightarrow> 'c certLRU \<Rightarrow> 'c option \<times> 'c certLRU" where
  "lru_Get key c = (case entries c key of
      None \<Rightarrow> (None, c)
    | Some e \<Rightarrow> (map_option snd (elem_of e (ll c)), c\<lparr>ll := MoveToFront e (ll c)\<rparr>))"

definition lru_Add :: "string \<Rightarrow> 'c option \<Rightarrow> 'c certLRU \<Rightarrow> 'c certLRU" where
  "lru_Add key value c = (case value of
      None \<Rightarrow> c
    | Some v \<Rightarrow> (case entries c key of
        Some e \<Rightarrow> c\<lparr>ll := set_value e v (MoveToFront e (ll c))\<rparr>
      | None \<Rightarrow>
          let e = next_elem c;
              c1 = c\<lparr>next_elem := Suc e, ll := (e, key, v) # ll c, entries := (entries c)(key \<mapsto> e)\<rparr> in
          if int (length (ll c1)) > capacity c1
          then (case ll c1 of
              [] \<Rightarrow> c1
            | _ \<Rightarrow> let (oe, ok, _) = last (ll c1) in
                c1\<lparr>ll := remove_elem oe (ll c1), entries := (entries c1)(ok := None)\<rparr>)
          else c1))"

definition lru_Delete :: "string \<Rightarrow> 'c certLRU \<Rightarrow> 'c certLRU" where
  "lru_Delete key c = (case entries c key of
      None \<Rightarrow> c
    | Some e \<Rightarrow> c\<lparr>ll := remove_elem e (ll c), entries := (entries c)(key := None)\<rparr>)"

definition lru_Clear :: "'c certLRU \<Rightarrow> 'c certLRU" where
  "lru_Clear c = c\<lparr>ll := [], entries := Map.empty\<rparr>"

definition DefaultIngressLRUSize :: int where
  "DefaultIngressLRUSize = 4096"

definition resolveCertLRUSize :: "int \<Rightarrow> int" where
  "resolveCertLRUSize lruSize = (if lruSize \<le> 0 then DefaultIngressLRUSize else lruSize)"

section \<open>Names and paths\<close>

definition certificateCandidates :: "string \<Rightarrow> string list" where
  "certificateCandidates hostname = (
     let parts = Split (sanitizeHostname hostname) (CHR ''.'') in
     if parts = [] \<or> parts ! 0 = [] then []
     else Join parts ''.'' # map (\<lambda>i. ''*.'' @ Join (drop i parts) ''.'') [1 ..< length parts - 1])"

definition certificateDirectoryName :: "string \<Rightarrow> string" where
  "certificateDirectoryName hostname0 = (
     let hostname = sanitizeHostname hostname0 in
     if \<not> HasPrefix hostname ''*.'' then hostname
     else path_Join [''.wildcard'', TrimPrefix hostname ''*.''])"

definition hostnameFromCertificatePath :: "string \<Rightarrow> string \<Rightarrow> string" where
  "hostnameFromCertificatePath certRoot0 changedPath0 = (
     let certRoot = path_Clean certRoot0; changedPath = path_Clean changedPath0 in
     case path_Rel certRoot changedPath of
       None \<Rightarrow> []
     | Some rel \<Rightarrow>
         if rel = ''.'' \<or> HasPrefix rel ''..'' then []
         else let parts = Split rel (CHR ''/'') in
           if parts = [] then []
           else if parts ! 0 = ''.wildcard'' then
             (if length parts < 2 then [] else sanitizeHostname (''*.'' @ parts ! 1))
           else sanitizeHostname (parts ! 0))"

section \<open>The resolver\<close>

type_synonym files = "string \<rightharpoonup> 8 word list"

record 'c LunaTLSCertResolver =
  certRoot :: string
  certs :: "'c certLRU"

definition NewLunaTLSCertResolver :: "string \<Rightarrow> int \<Rightarrow> 'c LunaTLSCertResolver" where
  "NewLunaTLSCertResolver root lruSize = \<lparr>certRoot = root, certs = newCertLRU (resolveCertLRUSize lruSize)\<rparr>"

definition crt_path :: "string \<Rightarrow> string \<Rightarrow> string" where
  "crt_path root hostname = path_Join [root, certificateDirectoryName hostname, ''tls.crt'']"

definition key_path :: "string \<Rightarrow> string \<Rightarrow> string" where
  "key_path root hostname = path_Join [root, certificateDirectoryName hostname, ''tls.key'']"

definition lookupPaths :: "string \<Rightarrow> string \<Rightarrow> (string \<times> string) list" where
  "lookupPaths root hostname = [(crt_path root hostname, key_path root hostname)]"

text \<open>The inner loop of \<^verbatim>\<open>Load\<close> over the path pairs of one candidate: \<^const>\<open>None\<close> when no pair
  exists on disk.\<close>

fun load_pairs :: "(8 word list \<Rightarrow> 8 word list \<Rightarrow> 'c result) \<Rightarrow> files \<Rightarrow> (string \<times> string) list \<Rightarrow> 'c result option" where
  "load_pairs load fs [] = None"
| "load_pairs load fs ((crt, key) # ps) = (case (fs crt, fs key) of
      (Some a, Some b) \<Rightarrow> Some (load a b)
    | _ \<Rightarrow> load_pairs load fs ps)"

fun load_candidates :: "(8 word list \<Rightarrow> 8 word list \<Rightarrow> 'c result) \<Rightarrow> files \<Rightarrow> string \<Rightarrow> string \<Rightarrow> string list \<Rightarrow>
    'c certLRU \<Rightarrow> 'c result \<times> 'c certLRU" where
  "load_candidates load fs root hostname [] c = (Inl (ErrOn ''certificate not found for hostname'' hostname), c)"
| "load_candidates load fs root hostname (cand # cands) c = (case lru_Get cand c of
      (Some cert, c') \<Rightarrow> (Inr cert, c')
    | (None, c') \<Rightarrow> (case load_pairs load fs (lookupPaths root cand) of
        None \<Rightarrow> load_candidates load fs root hostname cands c'
      | Some (Inl e) \<Rightarrow> (Inl e, c')
      | Some (Inr cert) \<Rightarrow> (Inr cert, lru_Add cand (Some cert) c')))"

definition resolver_Load :: "(8 word list \<Rightarrow> 8 word list \<Rightarrow> 'c result) \<Rightarrow> files \<Rightarrow> string \<Rightarrow>
    'c LunaTLSCertResolver \<Rightarrow> 'c result \<times> 'c LunaTLSCertResolver" where
  "resolver_Load load fs hostname0 r = (
     let hostname = sanitizeHostname hostname0 in
     if hostname = [] then (Inl (Err ''hostname is required''), r)
     else case load_candidates load fs (certRoot r) hostname (certificateCandidates hostname) (certs r) of
       (res, c) \<Rightarrow> (res, r\<lparr>certs := c\<rparr>))"

definition resolver_Put :: "string \<Rightarrow> 'c option \<Rightarrow> 'c LunaTLSCertResolver \<Rightarrow> unit result \<times> 'c LunaTLSCertResolver" where
  "resolver_Put hostname0 cert r = (
     let hostname = sanitizeHostname hostname0 in
     if hostname = [] then (Inl (Err ''hostname is required''), r)
     else if cert = None then (Inl (Err ''certificate is required''), r)
     else (Inr (), r\<lparr>certs := lru_Add hostname cert (certs r)\<rparr>))"

definition resolver_Delete :: "string \<Rightarrow> 'c LunaTLSCertResolver \<Rightarrow> 'c LunaTLSCertResolver" where
  "resolver_Delete hostname r = r\<lparr>certs := lru_Delete (normalizeHost hostname) (certs r)\<rparr>"

definition resolver_DeleteCandidates :: "string \<Rightarrow> 'c LunaTLSCertResolver \<Rightarrow> 'c LunaTLSCertResolver" where
  "resolver_DeleteCandidates hostname r = r\<lparr>certs := fold lru_Delete (certificateCandidates hostname) (certs r)\<rparr>"

definition resolver_Clear :: "'c LunaTLSCertResolver \<Rightarrow> 'c LunaTLSCertResolver" where
  "resolver_Clear r = r\<lparr>certs := lru_Clear (certs r)\<rparr>"

definition invalidate_one :: "string \<Rightarrow> string \<Rightarrow> 'c certLRU \<Rightarrow> 'c certLRU" where
  "invalidate_one root path c = (
     let hostname = hostnameFromCertificatePath root path in
     if hostname = [] then c else lru_Delete hostname c)"

definition invalidateCacheForPaths :: "string list \<Rightarrow> 'c LunaTLSCertResolver \<Rightarrow> 'c LunaTLSCertResolver" where
  "invalidateCacheForPaths paths r = r\<lparr>certs := fold (invalidate_one (certRoot r)) paths (certs r)\<rparr>"

definition loadExactCertificate :: "(8 word list \<Rightarrow> 8 word list \<Rightarrow> 'c result) \<Rightarrow> files \<Rightarrow> string \<Rightarrow> string \<Rightarrow> 'c result" where
  "loadExactCertificate load fs root hostname = (case load_pairs load fs (lookupPaths root hostname) of
      None \<Rightarrow> Inl (ErrOn ''certificate not found for hostname'' hostname)
    | Some res \<Rightarrow> res)"

definition hasCertificatePair :: "files \<Rightarrow> string \<Rightarrow> bool" where
  "hasCertificatePair fs dir = (fs (path_Join [dir, ''tls.crt'']) \<noteq> None \<and> fs (path_Join [dir, ''tls.key'']) \<noteq> None)"

section \<open>Specification\<close>

text \<open>A cache as a list of entries, most recently used first.\<close>

definition abs_lru :: "'c certLRU \<Rightarrow> (string \<times> 'c) list" where
  "abs_lru c = map snd (ll c)"

definition touch :: "string \<Rightarrow> (string \<times> 'c) list \<Rightarrow> (string \<times> 'c) list" where
  "touch k l = (case map_of l k of None \<Rightarrow> l | Some v \<Rightarrow> (k, v) # filter (\<lambda>x. fst x \<noteq> k) l)"

definition spec_add :: "int \<Rightarrow> string \<Rightarrow> 'c \<Rightarrow> (string \<times> 'c) list \<Rightarrow> (string \<times> 'c) list" where
  "spec_add cap k v l = (let l' = (k, v) # filter (\<lambda>x. fst x \<noteq> k) l in
     if map_of l k = None \<and> int (length l') > cap then butlast l' else l')"

definition lru_inv :: "'c certLRU \<Rightarrow> bool" where
  "lru_inv c = (distinct (map fst (ll c)) \<and> distinct (map fst (abs_lru c)) \<and>
     (\<forall>k e. entries c k = Some e \<longleftrightarrow> (\<exists>v. (e, k, v) \<in> set (ll c))) \<and>
     (\<forall>(e, kv) \<in> set (ll c). e < next_elem c))"

definition bounded :: "'c certLRU \<Rightarrow> bool" where
  "bounded c = (int (length (ll c)) \<le> capacity c)"

text \<open>Looking up a host on disk, without a cache.\<close>

fun disk_candidates :: "(8 word list \<Rightarrow> 8 word list \<Rightarrow> 'c result) \<Rightarrow> files \<Rightarrow> string \<Rightarrow> string \<Rightarrow> string list \<Rightarrow> 'c result" where
  "disk_candidates load fs root hostname [] = Inl (ErrOn ''certificate not found for hostname'' hostname)"
| "disk_candidates load fs root hostname (cand # cands) = (case load_pairs load fs (lookupPaths root cand) of
      None \<Rightarrow> disk_candidates load fs root hostname cands
    | Some res \<Rightarrow> res)"

text \<open>Every cached certificate is the one on disk.\<close>

definition coherent :: "(8 word list \<Rightarrow> 8 word list \<Rightarrow> 'c result) \<Rightarrow> files \<Rightarrow> string \<Rightarrow> 'c certLRU \<Rightarrow> bool" where
  "coherent load fs root c = (\<forall>k v. map_of (abs_lru c) k = Some v \<longrightarrow> valid_hostname k \<and>
     load_pairs load fs (lookupPaths root k) = Some (Inr v))"

text \<open>What a resolver lives through: lookups, cache deletions, and changes of the disk that the watcher
  reports as a list of paths.\<close>

datatype resolver_op = LoadOp string | DeleteOp string | DeleteCandidatesOp string | ClearOp | DiskOp files "string list"

fun resolver_step :: "(8 word list \<Rightarrow> 8 word list \<Rightarrow> 'c result) \<Rightarrow> resolver_op \<Rightarrow>
    files \<times> 'c LunaTLSCertResolver \<Rightarrow> files \<times> 'c LunaTLSCertResolver" where
  "resolver_step load (LoadOp h) (fs, r) = (fs, snd (resolver_Load load fs h r))"
| "resolver_step load (DeleteOp h) (fs, r) = (fs, resolver_Delete h r)"
| "resolver_step load (DeleteCandidatesOp h) (fs, r) = (fs, resolver_DeleteCandidates h r)"
| "resolver_step load ClearOp (fs, r) = (fs, resolver_Clear r)"
| "resolver_step load (DiskOp fs' paths) (fs, r) = (fs', invalidateCacheForPaths paths r)"

definition resolver_run :: "(8 word list \<Rightarrow> 8 word list \<Rightarrow> 'c result) \<Rightarrow> resolver_op list \<Rightarrow>
    files \<times> 'c LunaTLSCertResolver \<Rightarrow> files \<times> 'c LunaTLSCertResolver" where
  "resolver_run load ops s = fold (resolver_step load) ops s"

text \<open>The watcher misses no change: every file that differs is among the paths it reports.\<close>

fun reported :: "files \<Rightarrow> resolver_op list \<Rightarrow> bool" where
  "reported fs [] = True"
| "reported fs (DiskOp fs' paths # ops) = ((\<forall>f. fs f \<noteq> fs' f \<longrightarrow> f \<in> set paths) \<and> reported fs' ops)"
| "reported fs (_ # ops) = reported fs ops"

definition disk_certificate :: "(8 word list \<Rightarrow> 8 word list \<Rightarrow> 'c result) \<Rightarrow> files \<Rightarrow> string \<Rightarrow> string \<Rightarrow> 'c result" where
  "disk_certificate load fs root host = (let hostname = sanitizeHostname host in
     if hostname = [] then Inl (Err ''hostname is required'')
     else disk_candidates load fs root hostname (certificateCandidates hostname))"

definition resolver_ok :: "(8 word list \<Rightarrow> 8 word list \<Rightarrow> 'c result) \<Rightarrow> files \<Rightarrow> 'c LunaTLSCertResolver \<Rightarrow> bool" where
  "resolver_ok load fs r = (lru_inv (certs r) \<and> coherent load fs (certRoot r) (certs r) \<and> bounded (certs r))"

text \<open>Histories of a cache and of its specification, with the answers of the lookups in order.\<close>

datatype 'c lru_op = GetOp string | AddOp string 'c | RemoveOp string | EmptyOp

fun lru_run :: "'c lru_op list \<Rightarrow> 'c certLRU \<Rightarrow> 'c option list \<times> 'c certLRU" where
  "lru_run [] c = ([], c)"
| "lru_run (GetOp k # ops) c = (case lru_Get k c of (v, c') \<Rightarrow> apfst (\<lambda>vs. v # vs) (lru_run ops c'))"
| "lru_run (AddOp k v # ops) c = lru_run ops (lru_Add k (Some v) c)"
| "lru_run (RemoveOp k # ops) c = lru_run ops (lru_Delete k c)"
| "lru_run (EmptyOp # ops) c = lru_run ops (lru_Clear c)"

fun spec_lru_run :: "int \<Rightarrow> 'c lru_op list \<Rightarrow> (string \<times> 'c) list \<Rightarrow> 'c option list \<times> (string \<times> 'c) list" where
  "spec_lru_run cap [] l = ([], l)"
| "spec_lru_run cap (GetOp k # ops) l = apfst (\<lambda>vs. map_of l k # vs) (spec_lru_run cap ops (touch k l))"
| "spec_lru_run cap (AddOp k v # ops) l = spec_lru_run cap ops (spec_add cap k v l)"
| "spec_lru_run cap (RemoveOp k # ops) l = spec_lru_run cap ops (filter (\<lambda>x. fst x \<noteq> k) l)"
| "spec_lru_run cap (EmptyOp # ops) l = spec_lru_run cap ops []"

section \<open>The LRU implements its specification\<close>

lemma lru_inv_new [simp]: "lru_inv (newCertLRU cap)"
  by (simp add: lru_inv_def newCertLRU_def abs_lru_def)

lemma abs_lru_new [simp]: "abs_lru (newCertLRU cap) = []"
  by (simp add: newCertLRU_def abs_lru_def)

lemma lru_elem:
  assumes "lru_inv c" "(e, k, v) \<in> set (ll c)"
  shows "map_of (ll c) e = Some (k, v)" "map_of (abs_lru c) k = Some v" "entries c k = Some e"
  using assms by (auto simp: lru_inv_def abs_lru_def intro!: map_of_is_SomeI) force

lemma lru_missing: "lru_inv c \<Longrightarrow> entries c k = None \<longleftrightarrow> k \<notin> fst ` set (abs_lru c)"
proof -
  assume i: "lru_inv c"
  have "entries c k = None \<longleftrightarrow> (\<nexists>e. entries c k = Some e)" by (cases "entries c k") auto
  also have "\<dots> \<longleftrightarrow> (\<nexists>e v. (e, k, v) \<in> set (ll c))" using i by (simp add: lru_inv_def)
  also have "\<dots> \<longleftrightarrow> k \<notin> fst ` set (abs_lru c)" by (force simp: abs_lru_def)
  finally show ?thesis .
qed

lemma lru_missing_map: "lru_inv c \<Longrightarrow> entries c k = None \<longleftrightarrow> map_of (abs_lru c) k = None"
  by (simp add: lru_missing map_of_eq_None_iff)

lemma lru_same_elem:
  assumes "lru_inv c" "(e, k, v) \<in> set (ll c)" "x \<in> set (ll c)"
  shows "fst x = e \<longleftrightarrow> fst (snd x) = k"
proof
  obtain e' k' v' where x: "x = (e', k', v')" by (cases x)
  show "fst (snd x) = k" if "fst x = e"
    using lru_elem(1) [OF assms(1,2)] lru_elem(1) [OF assms(1), of e' k' v'] assms(3) that x by auto
  show "fst x = e" if "fst (snd x) = k"
    using lru_elem(3) [OF assms(1,2)] lru_elem(3) [OF assms(1), of e' k' v'] assms(3) that x by auto
qed

lemma abs_remove:
  assumes "lru_inv c" "(e, k, v) \<in> set (ll c)"
  shows "map snd (remove_elem e (ll c)) = filter (\<lambda>x. fst x \<noteq> k) (abs_lru c)"
proof -
  have "filter (\<lambda>x. fst x \<noteq> e) (ll c) = filter (\<lambda>x. fst (snd x) \<noteq> k) (ll c)"
    using lru_same_elem [OF assms] by (intro filter_cong) auto
  then show ?thesis by (simp add: remove_elem_def abs_lru_def filter_map comp_def)
qed

lemma remove_elem_mem:
  assumes "lru_inv c" "(e, k, v) \<in> set (ll c)"
  shows "(e', k', w) \<in> set (remove_elem e (ll c)) \<longleftrightarrow> (e', k', w) \<in> set (ll c) \<and> k' \<noteq> k"
  using lru_same_elem [OF assms, of "(e', k', w)"] by (auto simp: remove_elem_def)

lemma lru_inv_remove:
  assumes "lru_inv c" "(e, k, v) \<in> set (ll c)"
  shows "lru_inv (c\<lparr>ll := remove_elem e (ll c), entries := (entries c)(k := None)\<rparr>)"
proof -
  have ent: "entries c k' = Some e' \<longleftrightarrow> (\<exists>v. (e', k', v) \<in> set (ll c))" for k' e'
    using assms(1) by (simp add: lru_inv_def)
  have "(entries c)(k := None) = (\<lambda>k'. if k' = k then None else entries c k')" by auto
  moreover have "(if k' = k then None else entries c k') = Some e' \<longleftrightarrow> (\<exists>v. (e', k', v) \<in> set (remove_elem e (ll c)))" for k' e'
    unfolding remove_elem_mem [OF assms] using ent [of k' e'] by auto
  moreover have "distinct (map fst (map snd (remove_elem e (ll c))))"
    unfolding abs_remove [OF assms] using assms(1) by (simp add: lru_inv_def distinct_map_filter)
  ultimately show ?thesis
    using assms(1) by (auto simp: lru_inv_def abs_lru_def remove_elem_def distinct_map_filter)
qed

lemma lru_inv_front:
  assumes "lru_inv c" "(e, k, v) \<in> set (ll c)"
  shows "lru_inv (c\<lparr>ll := (e, k, w) # remove_elem e (ll c)\<rparr>)"
    "abs_lru (c\<lparr>ll := (e, k, w) # remove_elem e (ll c)\<rparr>) = (k, w) # filter (\<lambda>x. fst x \<noteq> k) (abs_lru c)"
proof -
  show a: "abs_lru (c\<lparr>ll := (e, k, w) # remove_elem e (ll c)\<rparr>) = (k, w) # filter (\<lambda>x. fst x \<noteq> k) (abs_lru c)"
    using abs_remove [OF assms] by (simp add: abs_lru_def)
  have ent: "entries c k' = Some e' \<longleftrightarrow> (\<exists>v. (e', k', v) \<in> set ((e, k, w) # remove_elem e (ll c)))" for k' e'
  proof -
    have "entries c k' = Some e' \<longleftrightarrow> (\<exists>v. (e', k', v) \<in> set (ll c))" using assms(1) by (simp add: lru_inv_def)
    moreover have "(e', k, w') \<in> set (ll c) \<Longrightarrow> e' = e" for w'
      using lru_same_elem [OF assms, of "(e', k, w')"] by simp
    ultimately show ?thesis using remove_elem_mem [OF assms] assms(2) by (cases "k' = k") auto
  qed
  show "lru_inv (c\<lparr>ll := (e, k, w) # remove_elem e (ll c)\<rparr>)"
    unfolding lru_inv_def a using assms ent
    by (auto simp: lru_inv_def remove_elem_def distinct_map_filter)
qed

lemma entry_elem: "lru_inv c \<Longrightarrow> entries c k = Some e \<Longrightarrow> \<exists>v. (e, k, v) \<in> set (ll c)"
  by (simp add: lru_inv_def)

lemma lru_Get_refines:
  assumes "lru_inv c"
  shows "fst (lru_Get k c) = map_of (abs_lru c) k" "lru_inv (snd (lru_Get k c))"
    "abs_lru (snd (lru_Get k c)) = touch k (abs_lru c)" "capacity (snd (lru_Get k c)) = capacity c"
proof -
  have "fst (lru_Get k c) = map_of (abs_lru c) k \<and> lru_inv (snd (lru_Get k c)) \<and>
    abs_lru (snd (lru_Get k c)) = touch k (abs_lru c) \<and> capacity (snd (lru_Get k c)) = capacity c"
  proof (cases "entries c k")
    case None
    then show ?thesis using assms lru_missing_map [OF assms, of k] by (simp add: lru_Get_def touch_def)
  next
    case (Some e)
    then obtain v where v: "(e, k, v) \<in> set (ll c)" using entry_elem [OF assms] by blast
    show ?thesis using Some lru_elem [OF assms v] lru_inv_front [OF assms v, of v]
      by (simp add: lru_Get_def elem_of_def MoveToFront_def touch_def)
  qed
  then show "fst (lru_Get k c) = map_of (abs_lru c) k" "lru_inv (snd (lru_Get k c))"
    "abs_lru (snd (lru_Get k c)) = touch k (abs_lru c)" "capacity (snd (lru_Get k c)) = capacity c" by auto
qed

lemma lru_Delete_refines:
  assumes "lru_inv c"
  shows "lru_inv (lru_Delete k c) \<and> abs_lru (lru_Delete k c) = filter (\<lambda>x. fst x \<noteq> k) (abs_lru c)"
proof (cases "entries c k")
  case None
  then have "\<And>x. x \<in> set (abs_lru c) \<Longrightarrow> fst x \<noteq> k" using lru_missing [OF assms, of k] by auto
  then show ?thesis using None assms by (simp add: lru_Delete_def filter_id_conv)
next
  case (Some e)
  then obtain v where v: "(e, k, v) \<in> set (ll c)" using entry_elem [OF assms] by blast
  show ?thesis using Some lru_inv_remove [OF assms v] abs_remove [OF assms v]
    by (simp add: lru_Delete_def) (simp add: abs_lru_def)
qed

lemma set_value_front:
  "set_value e w ((e, k, v) # remove_elem e l) = (e, k, w) # remove_elem e l"
  by (auto simp: set_value_def remove_elem_def intro!: map_idI)

lemma lru_inv_push:
  fixes v :: 'c
  assumes "lru_inv c" "entries c k = None"
  defines "c1 \<equiv> c\<lparr>next_elem := Suc (next_elem c), ll := (next_elem c, k, v) # ll c, entries := (entries c)(k \<mapsto> next_elem c)\<rparr>"
  shows "lru_inv c1" "abs_lru c1 = (k, v) # abs_lru c"
proof -
  show a: "abs_lru c1 = (k, v) # abs_lru c" by (simp add: c1_def abs_lru_def)
  have new: "e \<noteq> next_elem c" if "(e, kv) \<in> set (ll c)" for e kv using assms(1) that by (auto simp: lru_inv_def)
  have ent: "entries c k' = Some e' \<longleftrightarrow> (\<exists>v. (e', k', v) \<in> set (ll c))" for k' e'
    using assms(1) by (simp add: lru_inv_def)
  have "k \<notin> fst ` set (abs_lru c)" using assms lru_missing by blast
  moreover have "next_elem c \<notin> fst ` set (ll c)" using new by force
  moreover have "k' \<noteq> k" if "(e', k', w) \<in> set (ll c)" for e' k' w using that ent [of k' e'] assms(2) by auto
  ultimately show "lru_inv c1"
    unfolding lru_inv_def a using assms(1) ent
    by (auto simp: c1_def lru_inv_def less_Suc_eq) blast
qed

lemma remove_last:
  assumes "distinct (map fst l)" "l \<noteq> []"
  shows "remove_elem (fst (last l)) l = butlast l"
proof -
  obtain b z where l: "l = b @ [z]" using assms(2) by (metis append_butlast_last_id)
  then have "fst z \<notin> fst ` set b" using assms(1) by simp
  then have "\<And>x. x \<in> set b \<Longrightarrow> fst x \<noteq> fst z" by (metis image_eqI)
  then show ?thesis by (simp add: l remove_elem_def filter_id_conv)
qed

lemma lru_Add_refines:
  assumes "lru_inv c"
  shows "lru_inv (lru_Add k (Some v) c) \<and> abs_lru (lru_Add k (Some v) c) = spec_add (capacity c) k v (abs_lru c)"
proof (cases "entries c k")
  case (Some e)
  then obtain w where w: "(e, k, w) \<in> set (ll c)" using entry_elem [OF assms] by blast
  show ?thesis
    using Some lru_elem [OF assms w] lru_inv_front [OF assms w, of v]
    by (simp add: lru_Add_def MoveToFront_def set_value_front spec_add_def Let_def)
next
  case None
  define c1 where "c1 = c\<lparr>next_elem := Suc (next_elem c), ll := (next_elem c, k, v) # ll c, entries := (entries c)(k \<mapsto> next_elem c)\<rparr>"
  have c1: "lru_inv c1" "abs_lru c1 = (k, v) # abs_lru c" using lru_inv_push [OF assms None, of v] by (auto simp: c1_def)
  have k: "map_of (abs_lru c) k = None" "filter (\<lambda>x. fst x \<noteq> k) (abs_lru c) = abs_lru c"
    using None lru_missing_map [OF assms, of k] lru_missing [OF assms, of k] by (auto simp: filter_id_conv)
  obtain oe ok ov where z: "last (ll c1) = (oe, ok, ov)" by (cases "last (ll c1)")
  have ne: "ll c1 \<noteq> []" by (simp add: c1_def)
  then have zin: "(oe, ok, ov) \<in> set (ll c1)" using z last_in_set by metis
  have rl: "remove_elem oe (ll c1) = butlast (ll c1)"
    using remove_last [of "ll c1"] c1(1) ne z by (simp add: lru_inv_def)
  have add: "lru_Add k (Some v) c = (if int (length (ll c1)) > capacity c
      then c1\<lparr>ll := remove_elem oe (ll c1), entries := (entries c1)(ok := None)\<rparr> else c1)"
    using None z by (auto simp: lru_Add_def Let_def c1_def [symmetric] split: list.splits) (auto simp: c1_def)
  have len: "length (ll c1) = Suc (length (abs_lru c))" using c1(2) by (metis abs_lru_def length_Cons length_map)
  have "abs_lru (c1\<lparr>ll := remove_elem oe (ll c1), entries := (entries c1)(ok := None)\<rparr>) = butlast (abs_lru c1)"
    by (simp add: abs_lru_def rl map_butlast)
  then show ?thesis
    using add c1 k len lru_inv_remove [OF c1(1) zin] by (auto simp: spec_add_def Let_def)
qed

lemma lru_capacity [simp]: "capacity (lru_Add k v c) = capacity c" "capacity (lru_Delete k c) = capacity c"
  "capacity (snd (lru_Get k c)) = capacity c" "capacity (lru_Clear c) = capacity c"
  by (auto simp: lru_Add_def lru_Delete_def lru_Get_def lru_Clear_def Let_def split: option.splits list.splits prod.splits)

lemma length_ll: "length (ll c) = length (abs_lru c)"
  by (simp add: abs_lru_def)

lemma filter_key_length: "k \<in> fst ` set l \<Longrightarrow> length (filter (\<lambda>x. fst x \<noteq> k) l) < length l"
  by (auto intro!: length_filter_less)

lemma filter_bound: "int (length l) \<le> n \<Longrightarrow> int (length (filter P l)) \<le> n"
  using length_filter_le [of P l] by linarith

lemma touch_length: "distinct (map fst l) \<Longrightarrow> length (touch k l) \<le> length l"
  using filter_key_length [of k l] by (auto simp: touch_def dest!: map_of_SomeD split: option.splits) (metis fst_conv image_eqI not_less_eq_eq not_le)

lemma bounded_Get: "lru_inv c \<Longrightarrow> bounded c \<Longrightarrow> bounded (snd (lru_Get k c))"
  using touch_length [of "abs_lru c" k] by (simp add: bounded_def length_ll lru_Get_refines lru_inv_def)

lemma bounded_Delete: "lru_inv c \<Longrightarrow> bounded c \<Longrightarrow> bounded (lru_Delete k c)"
  by (simp add: bounded_def length_ll lru_Delete_refines filter_bound)

lemma bounded_Add:
  assumes "lru_inv c" "bounded c"
  shows "bounded (lru_Add k (Some v) c)"
proof (cases "map_of (abs_lru c) k")
  case None
  then show ?thesis using assms
    by (auto simp: bounded_def length_ll lru_Add_refines spec_add_def Let_def filter_bound)
next
  case (Some w)
  then have "k \<in> fst ` set (abs_lru c)" by (force dest: map_of_SomeD)
  from filter_key_length [OF this] show ?thesis
    using assms Some by (auto simp: bounded_def length_ll lru_Add_refines spec_add_def Let_def)
qed

lemma lru_Clear_refines: "lru_inv (lru_Clear c) \<and> abs_lru (lru_Clear c) = [] \<and> capacity (lru_Clear c) = capacity c"
  by (simp add: lru_Clear_def lru_inv_def abs_lru_def)

lemma lru_Get_capacity: "capacity (snd (lru_Get k c)) = capacity c"
  by (simp add: lru_Get_def split: option.splits)

lemma lru_run_refines:
  assumes "lru_inv c"
  shows "fst (lru_run ops c) = fst (spec_lru_run (capacity c) ops (abs_lru c)) \<and>
    abs_lru (snd (lru_run ops c)) = snd (spec_lru_run (capacity c) ops (abs_lru c))"
  using assms
proof (induction ops c rule: lru_run.induct)
  case (2 k ops c)
  obtain v c' where g: "lru_Get k c = (v, c')" by (rule prod.exhaust)
  with lru_Get_refines [OF 2(2), of k] lru_Get_capacity [of k c]
  have "v = map_of (abs_lru c) k" "lru_inv c'" "abs_lru c' = touch k (abs_lru c)" "capacity c' = capacity c" by simp_all
  with 2(1) [OF g [symmetric]] show ?case by (simp add: g)
qed (simp_all add: lru_Add_refines lru_Delete_refines lru_Clear_refines)

text \<open>C10. The certificate cache, built from a linked list and a map of its elements, is an LRU cache: for
  every sequence of operations on a new cache of any capacity the lookups answer, and the cache ends, exactly
  as for a list ordered by last use from which the oldest entry is dropped when a new key exceeds the
  capacity.\<close>

theorem lru_is_LRU:
  "apsnd abs_lru (lru_run ops (newCertLRU cap)) = spec_lru_run cap ops []"
  using lru_run_refines [OF lru_inv_new, of ops cap]
  by (simp add: newCertLRU_def abs_lru_def apsnd_def map_prod_def prod_eq_iff split: prod.splits)

section \<open>The contract of a cache\<close>

text \<open>A cache may forget entries when it adds one, but never changes or invents any.\<close>

locale cert_cache =
  fixes get :: "string \<Rightarrow> 's \<Rightarrow> 'c option \<times> 's"
    and add :: "string \<Rightarrow> 'c \<Rightarrow> 's \<Rightarrow> 's"
    and del :: "string \<Rightarrow> 's \<Rightarrow> 's"
    and content :: "'s \<Rightarrow> string \<rightharpoonup> 'c"
    and inv :: "'s \<Rightarrow> bool"
  assumes get_value: "inv s \<Longrightarrow> fst (get k s) = content s k"
    and get_content: "inv s \<Longrightarrow> content (snd (get k s)) = content s"
    and get_inv: "inv s \<Longrightarrow> inv (snd (get k s))"
    and add_content: "inv s \<Longrightarrow> content (add k v s) \<subseteq>\<^sub>m (content s)(k \<mapsto> v)"
    and add_inv: "inv s \<Longrightarrow> inv (add k v s)"
    and del_content: "inv s \<Longrightarrow> content (del k s) = (content s)(k := None)"
    and del_inv: "inv s \<Longrightarrow> inv (del k s)"
begin

lemma all_add:
  assumes "inv s" "\<And>k v. content s k = Some v \<Longrightarrow> P k v" "P j w"
  shows "content (add j w s) k = Some v \<Longrightarrow> P k v"
  using add_content [OF assms(1), of j w] assms(2,3) unfolding map_le_def
  by (metis domI fun_upd_other fun_upd_same option.inject)

lemma dels_inv: "inv s \<Longrightarrow> inv (fold del ks s)"
  by (induction ks arbitrary: s) (simp_all add: del_inv)

lemma dels_content: "inv s \<Longrightarrow> content (fold del ks s) = (\<lambda>k. if k \<in> set ks then None else content s k)"
  by (induction ks arbitrary: s) (auto simp: del_inv del_content fun_eq_iff)

end

lemma map_of_touch: "distinct (map fst l) \<Longrightarrow> map_of (touch k l) = map_of l"
proof -
  assume "distinct (map fst l)"
  have "map_of (filter (\<lambda>x. fst x \<noteq> k) l) j = (if j = k then None else map_of l j)" for j
    by (induction l) auto
  then show ?thesis by (auto simp: touch_def fun_eq_iff split: option.splits)
qed

lemma map_of_filter_key: "map_of (filter (\<lambda>x. fst x \<noteq> k) l) = (map_of l)(k := None)"
  by (induction l) (auto simp: fun_eq_iff)

lemma map_of_butlast: "distinct (map fst l) \<Longrightarrow> map_of (butlast l) \<subseteq>\<^sub>m map_of l"
proof (cases l rule: rev_cases)
  case (snoc b z)
  assume "distinct (map fst l)"
  then show ?thesis unfolding snoc map_le_def
    by (auto simp: map_add_def dest!: map_of_SomeD split: option.splits)
qed simp

interpretation lru_cache: cert_cache lru_Get "\<lambda>k v. lru_Add k (Some v)" lru_Delete "\<lambda>c. map_of (abs_lru c)" lru_inv
proof unfold_locales
  fix c :: "'a certLRU" and k v
  assume i: "lru_inv c"
  then have d: "distinct (map fst (abs_lru c))" by (simp add: lru_inv_def)
  show "fst (lru_Get k c) = map_of (abs_lru c) k" "lru_inv (snd (lru_Get k c))"
    "map_of (abs_lru (snd (lru_Get k c))) = map_of (abs_lru c)"
    using lru_Get_refines [OF i] map_of_touch [OF d] by auto
  show "lru_inv (lru_Delete k c)" "map_of (abs_lru (lru_Delete k c)) = (map_of (abs_lru c))(k := None)"
    using lru_Delete_refines [OF i] by (auto simp: map_of_filter_key)
  show "lru_inv (lru_Add k (Some v) c)" using lru_Add_refines [OF i] by blast
  have "distinct (map fst ((k, v) # filter (\<lambda>x. fst x \<noteq> k) (abs_lru c)))"
    using d by (auto simp: distinct_map_filter)
  from map_of_butlast [OF this]
  show "map_of (abs_lru (lru_Add k (Some v) c)) \<subseteq>\<^sub>m (map_of (abs_lru c))(k \<mapsto> v)"
    using lru_Add_refines [OF i, of k v] by (auto simp: spec_add_def Let_def map_of_filter_key split: if_splits)
qed

section \<open>Certificate paths\<close>

lemma labels_plain:
  assumes "ls \<noteq> []" "list_all hostnameLabelPattern ls"
  shows "plain_component (Join ls ''.'')" "hd (Join ls ''.'') \<noteq> CHR ''.''" "hd (Join ls ''.'') \<noteq> CHR ''*''"
proof -
  note lj = labels_joined [OF assms]
  have "hostnameLabelPattern (hd ls)" using assms by (cases ls) simp_all
  then have "label_char (hd (Join ls ''.''))"
    using Join_hd [OF assms(1)] hostnameLabelPattern_not_Nil hostnameLabelPattern_ends(1) by simp
  then show h: "hd (Join ls ''.'') \<noteq> CHR ''.''" "hd (Join ls ''.'') \<noteq> CHR ''*''" using label_charD by simp_all
  have "CHR ''/'' \<notin> set (Join ls ''.'')" using lj(7) by (auto simp: ContainsAny_def list_ex_iff)
  moreover have "Join ls ''.'' \<noteq> ''.''" "Join ls ''.'' \<noteq> ''..''" using h(1) by (metis list.sel(1))+
  ultimately show "plain_component (Join ls ''.'')" using lj(1) by (simp only: plain_component_def) simp
qed

lemma wildcard_paths: "plain_component b \<Longrightarrow> path_Join [''.wildcard'', b] = Join [''.wildcard'', b] ''/''"
  using relative_path(3) [of "[''.wildcard'', b]"] by (simp add: path_Join_def plain_component_def)

lemma cert_path_components:
  assumes "valid_hostname h" "clean_root root" "plain_component f"
  obtains cs ds where "root = CHR ''/'' # Join cs ''/''" "cs \<noteq> []" "list_all plain_component cs"
    "path_Join [root, certificateDirectoryName h, f] = CHR ''/'' # Join (cs @ ds @ [f]) ''/''"
    "(ds = [h] \<and> hd h \<noteq> CHR ''.'' \<and> plain_component h) \<or> (\<exists>b. ds = [''.wildcard'', b] \<and> h = ''*.'' @ b \<and> plain_component b)"
proof -
  from assms(2) obtain cs where cs: "root = CHR ''/'' # Join cs ''/''" "cs \<noteq> []" "list_all plain_component cs"
    by (auto simp: clean_root_def)
  from assms(1) obtain ls where ls: "ls \<noteq> []" "list_all hostnameLabelPattern ls"
    and h: "h = Join ls ''.'' \<or> h = ''*.'' @ Join ls ''.''" by (auto simp: valid_hostname_def)
  note p = labels_plain [OF ls]
  from h show thesis
  proof
    assume h: "h = Join ls ''.''"
    have "\<not> HasPrefix h ''*.''" using labels_joined(5) [OF ls] by (auto simp: h HasPrefix_conv)
    then have "certificateDirectoryName h = h"
      using sanitizeHostname_fixed [OF assms(1)] by (simp add: certificateDirectoryName_def)
    moreover have "path_Join (root # [h, f]) = CHR ''/'' # Join (cs @ [h, f]) ''/''"
      unfolding cs(1) using cs p assms(3) h by (intro path_Join_plain) auto
    ultimately show thesis using that [of cs "[h]"] cs p h by simp
  next
    let ?b = "Join ls ''.''"
    assume h: "h = ''*.'' @ ?b"
    have "HasPrefix h ''*.''" "TrimPrefix h ''*.'' = ?b" unfolding h by (rule HasPrefix_append, rule TrimPrefix_append)
    then have "certificateDirectoryName h = Join [''.wildcard'', ?b] ''/''"
      using sanitizeHostname_fixed [OF assms(1)] wildcard_paths [OF p(1)] by (simp add: certificateDirectoryName_def)
    moreover have "path_Join (root # [''.wildcard'', ?b, f]) = CHR ''/'' # Join (cs @ [''.wildcard'', ?b, f]) ''/''"
      unfolding cs(1) using cs p assms(3) by (intro path_Join_plain) (auto simp: plain_component_def)
    moreover have "path_Join [root, Join [''.wildcard'', ?b] ''/'', f] = path_Join [root, ''.wildcard'', ?b, f]"
      by (simp add: path_Join_def cs(1))
    ultimately show thesis using that [of cs "[''.wildcard'', ?b]"] cs p h by simp
  qed
qed

lemma Split_hd_component:
  assumes "plain_component c" "ds \<noteq> []" "list_all plain_component ds"
  shows "Split (Join (c # ds) ''/'') (CHR ''/'') = c # ds" "Join (c # ds) ''/'' \<noteq> ''.''"
    "hd (Join (c # ds) ''/'') = hd c"
proof -
  show s: "Split (Join (c # ds) ''/'') (CHR ''/'') = c # ds" using assms by (intro Split_plain) auto
  show "Join (c # ds) ''/'' \<noteq> ''.''" using s assms by (auto simp: plain_component_def)
  show "hd (Join (c # ds) ''/'') = hd c" using assms by (simp add: Join_hd plain_component_def)
qed

lemma hostname_of_cert_path:
  assumes "valid_hostname h" "clean_root root" "plain_component f"
  shows "hostnameFromCertificatePath root (path_Join [root, certificateDirectoryName h, f]) = h"
proof -
  obtain cs ds where r: "root = CHR ''/'' # Join cs ''/''" "cs \<noteq> []" "list_all plain_component cs"
    and p: "path_Join [root, certificateDirectoryName h, f] = CHR ''/'' # Join (cs @ ds @ [f]) ''/''"
    and ds: "(ds = [h] \<and> hd h \<noteq> CHR ''.'' \<and> plain_component h) \<or> (\<exists>b. ds = [''.wildcard'', b] \<and> h = ''*.'' @ b \<and> plain_component b)"
    using cert_path_components [OF assms] by metis
  have w: "plain_component ''.wildcard''" by (simp add: plain_component_def)
  have pl: "list_all plain_component (ds @ [f])" "ds @ [f] \<noteq> []" "ds \<noteq> []" using ds assms(3) w by auto
  then have pl2: "list_all plain_component (cs @ ds @ [f])" "cs @ ds @ [f] \<noteq> []" using r by auto
  have rel: "path_Rel (path_Clean root) (path_Clean (CHR ''/'' # Join (cs @ ds @ [f]) ''/'')) = Some (Join (ds @ [f]) ''/'')"
    using path_Rel_plain [OF r(3,2) pl(1,2)] rooted_path(3) [OF r(3,2)] rooted_path(3) [OF pl2] r(1) by simp
  have san: "sanitizeHostname h = h" using sanitizeHostname_fixed [OF assms(1)] .
  from ds show ?thesis
  proof
    assume d: "ds = [h] \<and> hd h \<noteq> CHR ''.'' \<and> plain_component h"
    then have s: "Split (Join (h # [f]) ''/'') (CHR ''/'') = [h, f]" "Join (h # [f]) ''/'' \<noteq> ''.''" "hd (Join (h # [f]) ''/'') = hd h"
      using Split_hd_component [of h "[f]"] assms(3) by auto
    have "\<not> HasPrefix (Join (h # [f]) ''/'') ''..''"
      using s(3) d by (cases "Join (h # [f]) ''/''") (auto simp: HasPrefix_def)
    moreover have "h \<noteq> ''.wildcard''" using d by auto
    moreover have "ds @ [f] = h # [f]" using d by simp
    ultimately show ?thesis unfolding p hostnameFromCertificatePath_def Let_def rel option.case using s san by simp
  next
    assume "\<exists>b. ds = [''.wildcard'', b] \<and> h = ''*.'' @ b \<and> plain_component b"
    then obtain b where d: "ds = [''.wildcard'', b]" "h = ''*.'' @ b" "plain_component b" by blast
    then have s: "Split (Join (''.wildcard'' # [b, f]) ''/'') (CHR ''/'') = [''.wildcard'', b, f]"
      using Split_hd_component(1) [OF w, of "[b, f]"] assms(3) by auto
    have "\<not> HasPrefix (Join (''.wildcard'' # [b, f]) ''/'') ''..''" "Join (''.wildcard'' # [b, f]) ''/'' \<noteq> ''.''"
      by (simp_all add: HasPrefix_def)
    moreover have "ds @ [f] = ''.wildcard'' # [b, f]" by (simp add: d)
    ultimately show ?thesis unfolding p hostnameFromCertificatePath_def Let_def rel option.case using s d(2) san by simp
  qed
qed

section \<open>The cache is transparent\<close>

lemma valid_wildcard: "ls \<noteq> [] \<Longrightarrow> list_all hostnameLabelPattern ls \<Longrightarrow> valid_hostname (''*.'' @ Join ls ''.'')"
  unfolding valid_hostname_def by blast

lemma valid_hostname_parts:
  assumes "valid_hostname h" "0 < i"
  shows "list_all hostnameLabelPattern (drop i (Split h (CHR ''.'')))"
proof -
  from assms(1) obtain ls where ls: "ls \<noteq> []" "list_all hostnameLabelPattern ls"
    and h: "h = Join ls ''.'' \<or> h = ''*.'' @ Join ls ''.''" by (auto simp: valid_hostname_def)
  have d: "list_all hostnameLabelPattern (drop j ls)" for j
    using ls(2) by (auto simp: list_all_iff dest: in_set_dropD)
  obtain j where j: "i = Suc j" using assms(2) by (cases i) auto
  from h show ?thesis
  proof
    assume "h = Join ls ''.''" then show ?thesis using labels_joined(8) [OF ls] d by simp
  next
    assume "h = ''*.'' @ Join ls ''.''"
    then have "Split h (CHR ''.'') = ''*'' # ls" using labels_joined(8) [OF ls] by simp
    then show ?thesis using d by (simp add: j)
  qed
qed

lemma candidate_valid:
  assumes "cand \<in> set (certificateCandidates h)"
  shows "valid_hostname cand"
proof -
  let ?h = "sanitizeHostname h"
  let ?p = "Split ?h (CHR ''.'')"
  have "?h \<noteq> []" using assms by (auto simp: certificateCandidates_def)
  then have v: "valid_hostname ?h" using sanitizeHostname_valid by blast
  have "cand \<in> set (?h # map (\<lambda>i. ''*.'' @ Join (drop i ?p) ''.'') [1 ..< length ?p - 1])"
    using assms by (auto simp: certificateCandidates_def Let_def split: if_splits)
  then consider "cand = ?h" | i where "0 < i" "i < length ?p - 1" "cand = ''*.'' @ Join (drop i ?p) ''.''" by (auto simp: Suc_le_eq)
  then show ?thesis
  proof cases
    case (2 i)
    then show ?thesis unfolding 2(3) using valid_hostname_parts [OF v 2(1)] by (intro valid_wildcard) auto
  qed (simp add: v)
qed

lemma coherent_add:
  assumes "lru_inv c" "coherent load fs root c" "valid_hostname k" "load_pairs load fs (lookupPaths root k) = Some (Inr v)"
  shows "coherent load fs root (lru_Add k (Some v) c)"
  unfolding coherent_def
proof (intro allI impI)
  let ?P = "\<lambda>k v. valid_hostname k \<and> load_pairs load fs (lookupPaths root k) = Some (Inr v)"
  fix j w assume j: "map_of (abs_lru (lru_Add k (Some v) c)) j = Some w"
  have old: "?P j w" if "map_of (abs_lru c) j = Some w" for j w using assms(2) that unfolding coherent_def by blast
  have new: "?P k v" using assms(3,4) ..
  from lru_cache.all_add [OF assms(1), of ?P k v, OF old new j] show "?P j w" .
qed

lemma load_candidates_disk:
  assumes "lru_inv c" "coherent load fs root c" "\<forall>k\<in>set cands. valid_hostname k"
  shows "fst (load_candidates load fs root h cands c) = disk_candidates load fs root h cands \<and>
    lru_inv (snd (load_candidates load fs root h cands c)) \<and> coherent load fs root (snd (load_candidates load fs root h cands c)) \<and>
    (bounded c \<longrightarrow> bounded (snd (load_candidates load fs root h cands c))) \<and>
    capacity (snd (load_candidates load fs root h cands c)) = capacity c"
  using assms
proof (induction cands arbitrary: c)
  case (Cons k ks)
  obtain o1 c' where g: "lru_Get k c = (o1, c')" by (cases "lru_Get k c")
  have o1: "o1 = map_of (abs_lru c) k" and i': "lru_inv c'" and ct: "map_of (abs_lru c') = map_of (abs_lru c)"
    and b': "bounded c \<Longrightarrow> bounded c'"
    using lru_cache.get_value [OF Cons.prems(1), of k] lru_cache.get_inv [OF Cons.prems(1), of k]
      lru_cache.get_content [OF Cons.prems(1), of k] bounded_Get [OF Cons.prems(1), of k] by (simp_all add: g)
  have co: "coherent load fs root c'" using Cons.prems(2) by (simp add: coherent_def ct)
  have cap: "capacity c' = capacity c" using lru_Get_capacity [of k c] by (simp add: g)
  have vk: "valid_hostname k" using Cons.prems(3) by simp
  show ?case
  proof (cases o1)
    case (Some v)
    then have "load_pairs load fs (lookupPaths root k) = Some (Inr v)" using Cons.prems(2) o1 by (simp add: coherent_def)
    then show ?thesis using Some i' co b' cap by (simp add: g)
  next
    case None
    show ?thesis
    proof (cases "load_pairs load fs (lookupPaths root k)")
      case (Some res)
      show ?thesis
      proof (cases res)
        case (Inr v)
        have "coherent load fs root (lru_Add k (Some v) c')"
          using coherent_add [OF i' co vk] Some Inr by simp
        then show ?thesis using None Some Inr lru_cache.add_inv [OF i'] bounded_Add [OF i'] b' cap by (simp add: g)
      qed (use None Some i' co b' cap in \<open>simp add: g\<close>)
    next
      case N: None
      then show ?thesis using None Cons.IH [OF i' co] Cons.prems(3) b' cap by (simp add: g)
    qed
  qed
qed simp

lemma coherent_delete:
  assumes "lru_inv c" "coherent load fs root c"
  shows "coherent load fs root (lru_Delete k c)"
  using assms lru_cache.del_content [OF assms(1)] by (simp add: coherent_def)

lemma cert_paths_unreported:
  assumes "\<forall>f. fs f \<noteq> fs' f \<longrightarrow> f \<in> set paths" "clean_root root" "valid_hostname k"
    "k \<notin> hostnameFromCertificatePath root ` set paths"
  shows "load_pairs load fs' (lookupPaths root k) = load_pairs load fs (lookupPaths root k)"
proof -
  have f: "plain_component ''tls.crt''" "plain_component ''tls.key''" by (simp_all add: plain_component_def)
  have "path_Join [root, certificateDirectoryName k, n] \<notin> set paths" if "plain_component n" for n
    using hostname_of_cert_path [OF assms(3,2) that] assms(4) by force
  then have "fs (crt_path root k) = fs' (crt_path root k)" "fs (key_path root k) = fs' (key_path root k)"
    using assms(1) f unfolding crt_path_def key_path_def by blast+
  then show ?thesis by (simp add: lookupPaths_def split: option.splits)
qed

lemma invalidate_fold:
  "fold (invalidate_one root) paths c = fold lru_Delete (filter (\<lambda>h. h \<noteq> []) (map (hostnameFromCertificatePath root) paths)) c"
  by (induction paths arbitrary: c) (simp_all add: invalidate_one_def Let_def)

lemma bounded_dels: "lru_inv c \<Longrightarrow> bounded c \<Longrightarrow> bounded (fold lru_Delete ks c)"
  by (induction ks arbitrary: c) (simp_all add: bounded_Delete lru_cache.del_inv)

lemma coherent_dels: "lru_inv c \<Longrightarrow> coherent load fs root c \<Longrightarrow> coherent load fs root (fold lru_Delete ks c)"
  by (induction ks arbitrary: c) (simp_all add: coherent_delete lru_cache.del_inv)

lemma coherent_invalidated:
  assumes "lru_inv c" "coherent load fs root c" "\<forall>f. fs f \<noteq> fs' f \<longrightarrow> f \<in> set paths" "clean_root root"
  shows "coherent load fs' root (fold (invalidate_one root) paths c)"
  unfolding coherent_def invalidate_fold
proof (intro allI impI)
  fix k v
  let ?ks = "filter (\<lambda>h. h \<noteq> []) (map (hostnameFromCertificatePath root) paths)"
  assume "map_of (abs_lru (fold lru_Delete ?ks c)) k = Some v"
  then have k: "k \<notin> set ?ks" "map_of (abs_lru c) k = Some v"
    unfolding lru_cache.dels_content [OF assms(1)] by (simp_all split: if_splits)
  then have v: "valid_hostname k" "load_pairs load fs (lookupPaths root k) = Some (Inr v)"
    using assms(2) by (simp_all add: coherent_def)
  then have "k \<notin> hostnameFromCertificatePath root ` set paths" using k(1) valid_hostname_not_Nil by auto
  then show "valid_hostname k \<and> load_pairs load fs' (lookupPaths root k) = Some (Inr v)"
    using cert_paths_unreported [OF assms(3,4) v(1), where load = load] v by simp
qed

lemma resolver_Load_ok:
  assumes "resolver_ok load fs r"
  shows "fst (resolver_Load load fs h r) = disk_certificate load fs (certRoot r) h"
    "resolver_ok load fs (snd (resolver_Load load fs h r))"
    "certRoot (snd (resolver_Load load fs h r)) = certRoot r"
proof -
  have "\<forall>k\<in>set (certificateCandidates (sanitizeHostname h)). valid_hostname k" using candidate_valid by blast
  moreover obtain res c where "load_candidates load fs (certRoot r) (sanitizeHostname h) (certificateCandidates (sanitizeHostname h)) (certs r) = (res, c)"
    by (rule prod.exhaust)
  moreover note load_candidates_disk [of "certs r" load fs "certRoot r" "certificateCandidates (sanitizeHostname h)" "sanitizeHostname h"]
  ultimately show "fst (resolver_Load load fs h r) = disk_certificate load fs (certRoot r) h"
    "resolver_ok load fs (snd (resolver_Load load fs h r))"
    "certRoot (snd (resolver_Load load fs h r)) = certRoot r"
    using assms by (simp_all add: resolver_ok_def resolver_Load_def disk_certificate_def Let_def)
qed

lemma resolver_step_ok:
  assumes "resolver_ok load fs r" "clean_root (certRoot r)" "reported fs (op # ops)"
    "resolver_step load op (fs, r) = (fs', r')"
  shows "resolver_ok load fs' r' \<and> certRoot r' = certRoot r \<and> reported fs' ops"
proof (cases op)
  case (LoadOp h)
  then show ?thesis using assms resolver_Load_ok [OF assms(1), of h] by auto
next
  case (DeleteOp h)
  then show ?thesis using assms bounded_dels [of "certs r" "[normalizeHost h]"]
    by (auto simp: resolver_ok_def resolver_Delete_def coherent_delete lru_cache.del_inv)
next
  case (DeleteCandidatesOp h)
  then show ?thesis using assms
    by (auto simp: resolver_ok_def resolver_DeleteCandidates_def coherent_dels lru_cache.dels_inv bounded_dels)
next
  case ClearOp
  then show ?thesis using assms
    by (auto simp: resolver_ok_def resolver_Clear_def lru_Clear_def lru_inv_def abs_lru_def coherent_def bounded_def)
next
  case (DiskOp f paths)
  then have e: "fs' = f" "r' = invalidateCacheForPaths paths r" and c: "\<forall>x. fs x \<noteq> f x \<longrightarrow> x \<in> set paths" "reported f ops"
    using assms(3,4) by auto
  have "coherent load f (certRoot r) (fold (invalidate_one (certRoot r)) paths (certs r))"
    using coherent_invalidated [OF _ _ c(1) assms(2), of "certs r" load] assms(1) by (simp add: resolver_ok_def)
  then show ?thesis using assms(1) c(2) e
    by (simp add: resolver_ok_def invalidateCacheForPaths_def invalidate_fold lru_cache.dels_inv bounded_dels)
qed

lemma resolver_run_ok:
  assumes "resolver_ok load fs r" "clean_root (certRoot r)" "reported fs ops" "resolver_run load ops (fs, r) = (fs', r')"
  shows "resolver_ok load fs' r' \<and> certRoot r' = certRoot r"
  using assms
proof (induction ops arbitrary: fs r)
  case (Cons op ops)
  obtain f1 r1 where s: "resolver_step load op (fs, r) = (f1, r1)" by (rule prod.exhaust)
  have o: "resolver_ok load f1 r1" "certRoot r1 = certRoot r" "reported f1 ops"
    using resolver_step_ok [OF Cons.prems(1-3) s] by auto
  have "resolver_run load ops (f1, r1) = (fs', r')" using Cons.prems(4) s by (simp add: resolver_run_def)
  from Cons.IH [OF o(1) _ o(3) this] o(2) Cons.prems(2) show ?case by simp
qed (simp add: resolver_run_def)

lemma resolver_ok_new: "resolver_ok load fs (NewLunaTLSCertResolver root n)"
  by (simp add: resolver_ok_def NewLunaTLSCertResolver_def coherent_def bounded_def newCertLRU_def
      resolveCertLRUSize_def DefaultIngressLRUSize_def lru_inv_def abs_lru_def)

text \<open>C11. Certificate lookups are never stale. Whatever sequence of lookups, deletions, clearings and disk
  changes a fresh resolver has been through, provided the watcher reported every changed file,
  \<^verbatim>\<open>Load\<close> returns exactly what reading the disk with no cache would return: the first of the candidate
  names (the host, then each wildcard parent) whose pair of files exists decides the answer, an unreadable
  pair and a missing certificate give their errors. The cache meanwhile holds at most its capacity.\<close>

theorem resolver_Load_fresh:
  assumes "clean_root root" "reported fs ops"
    "resolver_run load ops (fs, NewLunaTLSCertResolver root n) = (fs', r)"
  shows "fst (resolver_Load load fs' host r) = disk_certificate load fs' root host \<and>
    bounded (certs (snd (resolver_Load load fs' host r)))"
  using resolver_run_ok [OF resolver_ok_new _ assms(2,3)] resolver_Load_ok [of load fs' r host] assms(1)
  by (auto simp: NewLunaTLSCertResolver_def resolver_ok_def)

theorem resolver_Load_fresh_witness:
  defines "root \<equiv> ''/certs''"
  defines "load \<equiv> (\<lambda>a b :: 8 word list. if a = b then Inr a else Inl (Err ''mismatch'') :: 8 word list result)"
  defines "fs \<equiv> [''/certs/.wildcard/b.co/tls.crt'' \<mapsto> [1], ''/certs/.wildcard/b.co/tls.key'' \<mapsto> [1]]"
  defines "fs' \<equiv> [''/certs/.wildcard/b.co/tls.crt'' \<mapsto> [2], ''/certs/.wildcard/b.co/tls.key'' \<mapsto> [2]]"
  defines "ops \<equiv> [LoadOp ''a.b.co'', DiskOp fs' [''/certs/.wildcard/b.co/tls.crt'', ''/certs/.wildcard/b.co/tls.key'']]"
  shows "fst (resolver_Load load fs' ''A.b.co'' (snd (resolver_run load ops (fs, NewLunaTLSCertResolver root 8)))) = Inr [2] \<and>
    fst (resolver_Load load fs ''a.b.co'' (NewLunaTLSCertResolver root 8)) = Inr [1]"
proof -
  have root: "clean_root root" unfolding root_def clean_root_def
    by (rule exI [of _ "[''certs'']"]) (simp add: plain_component_def)
  have rep: "reported fs ops" by (auto simp: ops_def fs_def fs'_def)
  have fs: "fst (resolver_run load ops (fs, NewLunaTLSCertResolver root 8)) = fs'"
    by (simp add: ops_def resolver_run_def)
  have disk: "disk_certificate load fs' root ''A.b.co'' = Inr [2]" "disk_certificate load fs root ''a.b.co'' = Inr [1]"
    by (simp add: root_def fs_def fs'_def load_def, code_simp)+
  have run: "resolver_run load ops (fs, NewLunaTLSCertResolver root 8) =
      (fs', snd (resolver_run load ops (fs, NewLunaTLSCertResolver root 8)))" by (metis fs prod.collapse)
  have nil: "reported fs []" "resolver_run load [] (fs, NewLunaTLSCertResolver root 8) = (fs, NewLunaTLSCertResolver root 8)"
    by (simp_all add: resolver_run_def)
  show ?thesis using resolver_Load_fresh [OF root rep run, of "''A.b.co''"] resolver_Load_fresh [OF root nil, of "''a.b.co''"] disk
    by simp
qed

end
