(* ===== verification/Slave.thy ===== *)
theory Slave
  imports Repository Proto_Shim Tls_Certs
begin

text \<open>
  The replica side: the local cache (\<^verbatim>\<open>engine/slave/store.go\<close>, \<^verbatim>\<open>store_metadata.go\<close>,
  \<^verbatim>\<open>store_certfiles.go\<close>), the subscriber (\<^verbatim>\<open>engine_subscriber.go\<close>) and the retry loop of
  \<^verbatim>\<open>engine.go\<close>.

  A cache table is the list of its rows.  A column holding the JSON text of a struct holds
  the struct itself, the value that decoding the text gives back; encoding fails only for
  times outside the years 0 to 9999.  A transaction works on a copy of the tables that
  \<^verbatim>\<open>Commit\<close> installs.  What SQLite and the file system may refuse is a parameter of every
  operation (\<open>slave_env\<close>).  The channel \<^verbatim>\<open>dnsChan\<close> is a queue of capacity 100; with no
  reader a send to a full queue never returns (\<open>Blocked\<close>), with a reader the oldest element
  is handed over first.  A fetch started in a goroutine is an element of \<open>fetches\<close>.

  The lemmas describe the tables after a snapshot or a change notice, show that the cursor
  never moves backwards, whatever fails, and that the subscriber applies each notice once
  and in order.
\<close>

datatype 'a outcome = Return 'a | Panic string | Blocked

section \<open>Cache tables\<close>

record dnsRecordCacheRow =
  dc_ID :: string
  dc_FQDN :: string
  dc_RecordType :: string
  dc_Detail :: DNSRecord

record domainEntryCacheRow =
  ec_Hostname :: string
  ec_CertHostname :: string
  ec_CertRevision :: "64 word"
  ec_Detail :: DomainEntryProjection

record syncStateRow =
  ss_SnapshotRecordID :: "64 word"
  ss_AffectedTable :: string
  ss_AffectedTableID :: string
  ss_CreatedAt :: int

record cache_db =
  dns_rows :: "dnsRecordCacheRow list"
  entry_rows :: "domainEntryCacheRow list"
  sync_rows :: "syncStateRow list"

record LocalStore =
  CacheRoot :: string
  ls_certRoot :: string
  ls_db :: cache_db
  ls_files :: files
  dnsChan :: "DNSRecord list list"
  dnsDelivered :: "DNSRecord list list"
  fetches :: "(string \<times> 64 word) list"

record slave_env =
  begin_err :: "error option"
  commit_err :: "error option"
  query_err :: "error option"
  exec_err :: "string \<Rightarrow> string \<Rightarrow> error option"
  stat_err :: "string \<Rightarrow> error option"
  write_err :: "string \<Rightarrow> error option"
  dns_reader :: bool
  now_unix :: int

definition MetadataDBPath :: "LocalStore \<Rightarrow> string" where
  "MetadataDBPath s = path_Join [CacheRoot s, ''meta.db'']"

definition CertificatesRoot :: "string \<Rightarrow> string" where
  "CertificatesRoot cacheRoot = path_Join [cacheRoot, ''certs'']"

definition NewLocalStore :: "string \<Rightarrow> LocalStore result" where
  "NewLocalStore cacheRoot0 = (let cacheRoot = TrimSpace cacheRoot0 in
     if cacheRoot = [] then Inl (Err ''cache root is required'')
     else Inr \<lparr>CacheRoot = cacheRoot, ls_certRoot = CertificatesRoot cacheRoot,
       ls_db = \<lparr>dns_rows = [], entry_rows = [], sync_rows = []\<rparr>, ls_files = Map.empty, dnsChan = [], dnsDelivered = [],
       fetches = []\<rparr>)"

section \<open>JSON encoding\<close>

text \<open>\<^verbatim>\<open>Time.MarshalJSON\<close> refuses years outside 0 to 9999.\<close>

definition json_time :: "time \<Rightarrow> bool" where
  "json_time t = (- 62167219200000000000 \<le> t \<and> t < 253402300800000000000)"

definition json_shared :: "'a Shared_scheme \<Rightarrow> bool" where
  "json_shared r = (json_time (CreatedAt r) \<and> json_time (UpdatedAt r))"

definition json_backend :: "ServiceBackendRef option \<Rightarrow> bool" where
  "json_backend b = (case b of None \<Rightarrow> True | Some r \<Rightarrow> json_shared r)"

definition json_cert :: "CertificateRevision option \<Rightarrow> bool" where
  "json_cert c = (case c of None \<Rightarrow> True
     | Some r \<Rightarrow> json_shared r \<and> json_time (cr_NotBefore r) \<and> json_time (cr_NotAfter r))"

definition json_entry :: "DomainEntryProjection \<Rightarrow> bool" where
  "json_entry e = (json_cert (dp_Cert e) \<and> list_all (\<lambda>r. json_backend (hp_BackendRef r)) (dp_HTTPRoutes e) \<and>
     json_backend (dp_BindedBackendRef e))"

definition ErrMarshal :: error where
  "ErrMarshal = Err ''Time.MarshalJSON: year outside of range [0,9999]''"

section \<open>Certificate files\<close>

definition cert_dir :: "string \<Rightarrow> string \<Rightarrow> string" where
  "cert_dir root hostname = path_Join [root, certificateDirectoryName hostname]"

definition cert_file :: "string \<Rightarrow> string \<Rightarrow> string \<Rightarrow> string" where
  "cert_file root hostname f = path_Join [cert_dir root hostname, f]"

definition CheckCertificateBundle :: "slave_env \<Rightarrow> string \<Rightarrow> LocalStore \<Rightarrow> bool result" where
  "CheckCertificateBundle env hostname s = (
     if TrimSpace hostname = [] then Inl (Err ''hostname is required'') else
     let path = cert_file (ls_certRoot s) hostname;
         missing = (\<lambda>f. stat_err env (path f) = None \<and> ls_files s (path f) = None) in
     if missing ''tls.crt'' \<or> missing ''tls.key'' \<or> missing ''metadata.json'' then Inr False
     else case stat_err env (path ''metadata.json'') of
       Some e \<Rightarrow> Inl (ErrWrap ''failed to stat certificate files: '' e)
     | None \<Rightarrow> Inr True)"

text \<open>\<open>render\<close> is the text \<^verbatim>\<open>json.Marshal\<close> writes for the host name and the revision.\<close>

definition writeCertificateBundle :: "slave_env \<Rightarrow> (string \<Rightarrow> 64 word \<Rightarrow> bytes) \<Rightarrow> string \<Rightarrow> CertificateBundle option \<Rightarrow>
    files \<Rightarrow> unit result \<times> files" where
  "writeCertificateBundle env render root bundle fs = (case bundle of
      None \<Rightarrow> (Inl (Err ''certificate bundle is nil''), fs)
    | Some b \<Rightarrow>
        let path = cert_file root (cb_Hostname b) in
        case write_err env (cert_dir root (cb_Hostname b)) of Some e \<Rightarrow> (Inl e, fs) | None \<Rightarrow>
        case write_err env (path ''tls.crt'') of Some e \<Rightarrow> (Inl e, fs) | None \<Rightarrow>
        let fs1 = fs(path ''tls.crt'' \<mapsto> cb_TLSCrt b) in
        case write_err env (path ''tls.key'') of Some e \<Rightarrow> (Inl e, fs1) | None \<Rightarrow>
        let fs2 = fs1(path ''tls.key'' \<mapsto> cb_TLSKey b);
            metadataBytes = (if cb_MetadataJSON b = [] then render (cb_Hostname b) (cb_Revision b) else cb_MetadataJSON b) in
        case write_err env (path ''metadata.json'') of Some e \<Rightarrow> (Inl e, fs2) | None \<Rightarrow>
        (Inr (), fs2(path ''metadata.json'' \<mapsto> metadataBytes)))"

definition PutCertificateBundle :: "slave_env \<Rightarrow> (string \<Rightarrow> 64 word \<Rightarrow> bytes) \<Rightarrow> CertificateBundle option \<Rightarrow>
    LocalStore \<Rightarrow> unit result \<times> LocalStore" where
  "PutCertificateBundle env render bundle s = (case bundle of
      None \<Rightarrow> (Inl (Err ''bundle is nil''), s)
    | Some b \<Rightarrow> (case writeCertificateBundle env render (ls_certRoot s) bundle (ls_files s) of
        (res, fs) \<Rightarrow> (res, s\<lparr>ls_files := fs\<rparr>)))"

text \<open>\<open>decode\<close> reads the host name and the revision of a metadata file, if it is valid JSON.\<close>

definition GetCertificateBundle :: "(bytes \<Rightarrow> (string \<times> 64 word) option) \<Rightarrow> string \<Rightarrow> 64 word \<Rightarrow>
    LocalStore \<Rightarrow> CertificateBundle result" where
  "GetCertificateBundle decode hostname revision s = (
     if TrimSpace hostname = [] then Inl (Err ''hostname is required'') else
     let path = cert_file (ls_certRoot s) hostname in
     case ls_files s (path ''tls.crt'') of None \<Rightarrow> Inl (ErrOn ''no such file'' (path ''tls.crt'')) | Some crt \<Rightarrow>
     case ls_files s (path ''tls.key'') of None \<Rightarrow> Inl (ErrOn ''no such file'' (path ''tls.key'')) | Some key \<Rightarrow>
     let metadataJSON = (case ls_files s (path ''metadata.json'') of None \<Rightarrow> [] | Some m \<Rightarrow> m);
         bundle = \<lparr>cb_Hostname = hostname, cb_Revision = revision, cb_TLSCrt = crt, cb_TLSKey = key,
           cb_MetadataJSON = metadataJSON\<rparr> in
     if metadataJSON = [] then Inr bundle
     else case decode metadataJSON of
       None \<Rightarrow> Inr bundle
     | Some (h, r) \<Rightarrow>
         let bundle = (if TrimSpace h \<noteq> [] then bundle\<lparr>cb_Hostname := h\<rparr> else bundle) in
         Inr (if r \<noteq> 0 then bundle\<lparr>cb_Revision := r\<rparr> else bundle))"

definition removeCertificateFiles :: "string \<Rightarrow> string \<Rightarrow> files \<Rightarrow> files" where
  "removeCertificateFiles root hostname fs = (
     if TrimSpace root = [] \<or> TrimSpace hostname = [] then fs
     else (\<lambda>p. if p = cert_dir root hostname \<or> HasPrefix p (cert_dir root hostname @ ''/'') then None else fs p))"

section \<open>Applying changes\<close>

definition send_dns :: "slave_env \<Rightarrow> DNSRecord list \<Rightarrow> LocalStore \<Rightarrow> LocalStore outcome" where
  "send_dns env items s = (
     if length (dnsChan s) < 100 then Return (s\<lparr>dnsChan := dnsChan s @ [items]\<rparr>)
     else if dns_reader env then Return (s\<lparr>dnsDelivered := dnsDelivered s @ [hd (dnsChan s)], dnsChan := tl (dnsChan s) @ [items]\<rparr>)
     else Blocked)"

definition dealDNSRecords :: "slave_env \<Rightarrow> DNSRecord \<Rightarrow> cache_db \<Rightarrow> LocalStore \<Rightarrow> (unit result \<times> cache_db \<times> LocalStore) outcome" where
  "dealDNSRecords env input tx s = (
     if Deleted input then
       (case exec_err env ''dns_records_cache'' (dr_ID input) of
          Some e \<Rightarrow> Return (Inl e, tx, s)
        | None \<Rightarrow> Return (Inr (), tx\<lparr>dns_rows := filter (\<lambda>r. dc_ID r \<noteq> dr_ID input) (dns_rows tx)\<rparr>, s))
     else if \<not> json_shared input then Return (Inl ErrMarshal, tx, s)
     else
       let row = \<lparr>dc_ID = dr_ID input, dc_FQDN = dr_FQDN input, dc_RecordType = dr_RecordType input, dc_Detail = input\<rparr> in
       (case exec_err env ''dns_records_cache'' (dr_ID input) of
          Some e \<Rightarrow> Return (Inl e, tx, s)
        | None \<Rightarrow> (case send_dns env [input] s of
            Return s' \<Rightarrow> Return (Inr (), tx\<lparr>dns_rows := upsert_row dc_ID row (dns_rows tx)\<rparr>, s')
          | Panic m \<Rightarrow> Panic m
          | Blocked \<Rightarrow> Blocked)))"

definition dealDomainEntries :: "slave_env \<Rightarrow> DomainEntryProjection \<Rightarrow> cache_db \<Rightarrow> LocalStore \<Rightarrow>
    (unit result \<times> cache_db \<times> LocalStore) outcome" where
  "dealDomainEntries env input tx s = (
     if dp_Deleted input then
       (case exec_err env ''domain_entries_cache'' (dp_Hostname input) of
          Some e \<Rightarrow> Return (Inl e, tx, s)
        | None \<Rightarrow> Return (Inr (), tx\<lparr>entry_rows := filter (\<lambda>r. ec_Hostname r \<noteq> dp_Hostname input) (entry_rows tx)\<rparr>, s))
     else if \<not> json_entry input then Return (Inl ErrMarshal, tx, s)
     else
       let store_row = (\<lambda>certHostname certRevision s'.
             let row = \<lparr>ec_Hostname = dp_Hostname input, ec_CertHostname = certHostname, ec_CertRevision = certRevision,
                   ec_Detail = input\<rparr> in
             (case exec_err env ''domain_entries_cache'' (dp_Hostname input) of
                Some e \<Rightarrow> Return (Inl e, tx, s')
              | None \<Rightarrow> Return (Inr (), tx\<lparr>entry_rows := upsert_row ec_Hostname row (entry_rows tx)\<rparr>, s'))) in
       case dp_Cert input of
         None \<Rightarrow> store_row [] 0 s
       | Some c \<Rightarrow> (case CheckCertificateBundle env (dp_Hostname input) s of
           Inl e \<Rightarrow> Panic ''THIS SHOULD NOT HAPPEN: failed to check certificate bundle existence''
         | Inr ok \<Rightarrow> store_row (dp_Hostname input) (cr_Revision c)
             (if ok then s else s\<lparr>fetches := fetches s @ [(dp_Hostname input, cr_Revision c)]\<rparr>)))"

definition sync_key :: "syncStateRow \<Rightarrow> 64 word \<times> string" where
  "sync_key r = (ss_SnapshotRecordID r, ss_AffectedTable r)"

definition updateSnapshotRecordID :: "slave_env \<Rightarrow> 64 word \<Rightarrow> string \<Rightarrow> string \<Rightarrow> cache_db \<Rightarrow> cache_db" where
  "updateSnapshotRecordID env i table tableID tx = (case exec_err env ''sync_state'' tableID of
      Some e \<Rightarrow> tx
    | None \<Rightarrow> tx\<lparr>sync_rows := upsert_row sync_key \<lparr>ss_SnapshotRecordID = i, ss_AffectedTable = table,
        ss_AffectedTableID = tableID, ss_CreatedAt = now_unix env\<rparr> (sync_rows tx)\<rparr>)"

text \<open>The two loops of \<^verbatim>\<open>ApplySnapshot\<close>; the errors of the single steps are dropped, as in the code.\<close>

fun apply_dns_records :: "slave_env \<Rightarrow> 64 word \<Rightarrow> DNSRecord list \<Rightarrow> cache_db \<Rightarrow> LocalStore \<Rightarrow> (cache_db \<times> LocalStore) outcome" where
  "apply_dns_records env i [] tx s = Return (tx, s)"
| "apply_dns_records env i (r # rs) tx s = (case dealDNSRecords env r tx s of
      Return (_, tx', s') \<Rightarrow> apply_dns_records env i rs (updateSnapshotRecordID env i ''dns_records'' (dr_ID r) tx') s'
    | Panic m \<Rightarrow> Panic m
    | Blocked \<Rightarrow> Blocked)"

fun apply_domain_entries :: "slave_env \<Rightarrow> 64 word \<Rightarrow> DomainEntryProjection list \<Rightarrow> cache_db \<Rightarrow> LocalStore \<Rightarrow>
    (cache_db \<times> LocalStore) outcome" where
  "apply_domain_entries env i [] tx s = Return (tx, s)"
| "apply_domain_entries env i (e # es) tx s = (case dealDomainEntries env e tx s of
      Return (_, tx', s') \<Rightarrow> apply_domain_entries env i es (updateSnapshotRecordID env i ''domain_entries'' (dp_Hostname e) tx') s'
    | Panic m \<Rightarrow> Panic m
    | Blocked \<Rightarrow> Blocked)"

definition commit :: "slave_env \<Rightarrow> cache_db \<Rightarrow> LocalStore \<Rightarrow> unit result \<times> LocalStore" where
  "commit env tx s = (case commit_err env of Some e \<Rightarrow> (Inl e, s) | None \<Rightarrow> (Inr (), s\<lparr>ls_db := tx\<rparr>))"

definition ApplySnapshot :: "slave_env \<Rightarrow> Snapshot option \<Rightarrow> LocalStore \<Rightarrow> (unit result \<times> LocalStore) outcome" where
  "ApplySnapshot env snapshot s = (case snapshot of
      None \<Rightarrow> Return (Inr (), s)
    | Some sn \<Rightarrow> (case begin_err env of
        Some e \<Rightarrow> Return (Inl e, s)
      | None \<Rightarrow> (case apply_dns_records env (sn_SnapshotRecordID sn) (sn_DNSRecords sn) (ls_db s) s of
          Return (tx, s1) \<Rightarrow> (case apply_domain_entries env (sn_SnapshotRecordID sn) (sn_DomainEntries sn) tx s1 of
            Return (tx2, s2) \<Rightarrow> Return (commit env tx2 s2)
          | Panic m \<Rightarrow> Panic m
          | Blocked \<Rightarrow> Blocked)
        | Panic m \<Rightarrow> Panic m
        | Blocked \<Rightarrow> Blocked)))"

definition GetSnapshotRecordID :: "slave_env \<Rightarrow> LocalStore \<Rightarrow> (64 word) result" where
  "GetSnapshotRecordID env s = (case query_err env of
      Some e \<Rightarrow> Inl e
    | None \<Rightarrow> (case sort_key (\<lambda>r. (- int (unat (ss_SnapshotRecordID r)), - ss_CreatedAt r)) (sync_rows (ls_db s)) of
        [] \<Rightarrow> Inr 0
      | r # _ \<Rightarrow> Inr (ss_SnapshotRecordID r)))"

text \<open>The error of reading the cursor is overwritten before it is looked at.\<close>

definition ApplyChangelog :: "slave_env \<Rightarrow> ChangeNotification option \<Rightarrow> LocalStore \<Rightarrow> (unit result \<times> LocalStore) outcome" where
  "ApplyChangelog env changelog s = (case changelog of
      None \<Rightarrow> Return (Inr (), s)
    | Some cl \<Rightarrow>
        let cursor = (case GetSnapshotRecordID env s of Inl e \<Rightarrow> 0 | Inr c \<Rightarrow> c) in
        if cursor \<ge> cn_SnapshotRecordID cl then Return (Inr (), s)
        else if cursor + 1 < cn_SnapshotRecordID cl then Return (Inl ErrSnapshotOutOfOrder, s)
        else case begin_err env of
          Some e \<Rightarrow> Return (Inl e, s)
        | None \<Rightarrow> (case apply_dns_records env (cn_SnapshotRecordID cl)
              (case cn_DNSRecord cl of None \<Rightarrow> [] | Some r \<Rightarrow> [r]) (ls_db s) s of
            Return (tx, s1) \<Rightarrow> (case apply_domain_entries env (cn_SnapshotRecordID cl)
                (case cn_DomainEntry cl of None \<Rightarrow> [] | Some e \<Rightarrow> [e]) tx s1 of
              Return (tx2, s2) \<Rightarrow> Return (commit env tx2 s2)
            | Panic m \<Rightarrow> Panic m
            | Blocked \<Rightarrow> Blocked)
          | Panic m \<Rightarrow> Panic m
          | Blocked \<Rightarrow> Blocked))"

definition GetDNSRecordsByHostname :: "slave_env \<Rightarrow> string \<Rightarrow> LocalStore \<Rightarrow> DNSRecord list result" where
  "GetDNSRecordsByHostname env hostname s = (case query_err env of
      Some e \<Rightarrow> Inl e
    | None \<Rightarrow> Inr (map dc_Detail (sort_key (\<lambda>r. (dc_RecordType r, dc_ID r))
        (filter (\<lambda>r. dc_FQDN r = hostname) (dns_rows (ls_db s))))))"

definition GetDomainEntryByHostname :: "slave_env \<Rightarrow> string \<Rightarrow> LocalStore \<Rightarrow> DomainEntryProjection result" where
  "GetDomainEntryByHostname env hostname s = (case query_err env of
      Some e \<Rightarrow> Inl e
    | None \<Rightarrow> (case filter (\<lambda>r. ec_Hostname r = hostname) (entry_rows (ls_db s)) of
        [] \<Rightarrow> Inl ErrRecordNotFound
      | r # _ \<Rightarrow> Inr (ec_Detail r)))"

text \<open>A goroutine that fetches a bundle and stores it.\<close>

definition run_fetch :: "slave_env \<Rightarrow> (string \<Rightarrow> 64 word \<Rightarrow> bytes) \<Rightarrow> (string \<Rightarrow> 64 word \<Rightarrow> CertificateBundle option result) \<Rightarrow>
    LocalStore \<Rightarrow> LocalStore" where
  "run_fetch env render fetch s = (case fetches s of
      [] \<Rightarrow> s
    | (h, r) # rest \<Rightarrow>
        let s' = s\<lparr>fetches := rest\<rparr> in
        (case fetch h r of
           Inl e \<Rightarrow> s'
         | Inr None \<Rightarrow> s'
         | Inr (Some b) \<Rightarrow> snd (PutCertificateBundle env render (Some b) s')))"

section \<open>The subscriber\<close>

abbreviation ErrEOF :: error where "ErrEOF \<equiv> Err ''EOF''"

text \<open>A stream is the list of the answers of its \<^verbatim>\<open>Recv\<close>; after them it is closed.\<close>

type_synonym snapshot_stream = "(Snapshot option) result list"

type_synonym get_snapshot = "string \<Rightarrow> 64 word \<Rightarrow> snapshot_stream result"

fun catch_up_loop :: "slave_env \<Rightarrow> snapshot_stream \<Rightarrow> LocalStore \<Rightarrow> (unit result \<times> LocalStore) outcome" where
  "catch_up_loop env [] s = Return (Inl ErrEOF, s)"
| "catch_up_loop env (Inl e # st) s = Return (Inl e, s)"
| "catch_up_loop env (Inr None # st) s = catch_up_loop env st s"
| "catch_up_loop env (Inr (Some sn) # st) s = (case ApplySnapshot env (Some sn) s of
      Return (Inl e, s') \<Rightarrow> Return (Inl e, s')
    | Return (Inr _, s') \<Rightarrow> if sn_Last sn then Return (Inr (), s') else catch_up_loop env st s'
    | Panic m \<Rightarrow> Panic m
    | Blocked \<Rightarrow> Blocked)"

definition CatchUpSnapshots :: "slave_env \<Rightarrow> get_snapshot \<Rightarrow> string \<Rightarrow> 64 word \<Rightarrow> LocalStore \<Rightarrow>
    (unit result \<times> LocalStore) outcome" where
  "CatchUpSnapshots env getSnapshot nodeID cursor s = (case getSnapshot nodeID cursor of
      Inl e \<Rightarrow> Return (Inl e, s)
    | Inr st \<Rightarrow> catch_up_loop env st s)"

text \<open>One answer of the notice stream, with the master's \<^verbatim>\<open>GetSnapshot\<close> at that moment.\<close>

type_synonym notice_event = "(ChangeNotification option) result \<times> get_snapshot"

fun subscribe_loop :: "slave_env \<Rightarrow> string \<Rightarrow> notice_event list \<Rightarrow> 64 word \<Rightarrow> LocalStore \<Rightarrow> (unit result \<times> LocalStore) outcome" where
  "subscribe_loop env nodeID [] cursor s = Return (Inr (), s)"
| "subscribe_loop env nodeID ((Inl e, _) # evs) cursor s = Return (if e = ErrEOF then Inr () else Inl e, s)"
| "subscribe_loop env nodeID ((Inr None, _) # evs) cursor s = subscribe_loop env nodeID evs cursor s"
| "subscribe_loop env nodeID ((Inr (Some notice), getSnapshot) # evs) cursor s = (
     if cn_SnapshotRecordID notice \<le> cursor then subscribe_loop env nodeID evs cursor s
     else if cn_SnapshotRecordID notice > cursor + 1 then
       (case CatchUpSnapshots env getSnapshot nodeID cursor s of
          Return (Inl e, s') \<Rightarrow> Return (Inl e, s')
        | Return (Inr _, s') \<Rightarrow> (case GetSnapshotRecordID env s' of
            Inl e \<Rightarrow> Return (Inl e, s')
          | Inr newcursor \<Rightarrow> subscribe_loop env nodeID evs newcursor s')
        | Panic m \<Rightarrow> Panic m
        | Blocked \<Rightarrow> Blocked)
     else (case ApplyChangelog env (Some notice) s of
          Return (Inl e, s') \<Rightarrow> Return (Inl e, s')
        | Return (Inr _, s') \<Rightarrow> subscribe_loop env nodeID evs (cn_SnapshotRecordID notice) s'
        | Panic m \<Rightarrow> Panic m
        | Blocked \<Rightarrow> Blocked))"

definition Subscribe :: "slave_env \<Rightarrow> (string \<Rightarrow> notice_event list result) option \<Rightarrow> get_snapshot \<Rightarrow> string \<Rightarrow> LocalStore \<Rightarrow>
    (unit result \<times> LocalStore) outcome" where
  "Subscribe env client getSnapshot nodeID s = (case client of
      None \<Rightarrow> Return (Inl (Err ''s.grpcClient == nil''), s)
    | Some subscribe \<Rightarrow> (case subscribe nodeID of
        Inl e \<Rightarrow> Return (Inl e, s)
      | Inr evs \<Rightarrow> (case GetSnapshotRecordID env s of
          Inl e \<Rightarrow> Return (Inl e, s)
        | Inr cursor \<Rightarrow> (case CatchUpSnapshots env getSnapshot nodeID cursor s of
            Return (Inl e, s') \<Rightarrow> Return (Inl e, s')
          | Return (Inr _, s') \<Rightarrow> (case GetSnapshotRecordID env s' of
              Inl e \<Rightarrow> Return (Inl e, s')
            | Inr cursor' \<Rightarrow> subscribe_loop env nodeID evs cursor' s')
          | Panic m \<Rightarrow> Panic m
          | Blocked \<Rightarrow> Blocked))))"

section \<open>The retry loop\<close>

text \<open>Durations are 64-bit counts of nanoseconds.\<close>

definition resolve_backoff :: "64 word \<Rightarrow> 64 word \<Rightarrow> 64 word \<times> 64 word" where
  "resolve_backoff retryMin retryMax = (
     if sint retryMin \<le> 0 then 1000000000 else retryMin,
     if sint retryMax \<le> 0 then 30000000000 else retryMax)"

definition next_backoff :: "64 word \<Rightarrow> 64 word \<Rightarrow> 64 word" where
  "next_backoff retryMax backoff = (let backoff = backoff * 2 in
     if sint backoff > sint retryMax then retryMax else backoff)"

text \<open>The waits of the loop for a list of results of \<^verbatim>\<open>Subscribe\<close>; it ends with a success.\<close>

fun retry_waits :: "64 word \<Rightarrow> 64 word \<Rightarrow> unit result list \<Rightarrow> 64 word list" where
  "retry_waits retryMax backoff [] = []"
| "retry_waits retryMax backoff (Inr _ # rs) = []"
| "retry_waits retryMax backoff (Inl e # rs) = backoff # retry_waits retryMax (next_backoff retryMax backoff) rs"

definition handleHealthz :: "string \<Rightarrow> bool \<Rightarrow> nat \<times> string" where
  "handleHealthz requestMethod ready = (
     if requestMethod \<noteq> ''GET'' then (405, ''method not allowed'')
     else if \<not> ready then (503, ''master not connected'')
     else (200, ''ok''))"

section \<open>Specification\<close>

text \<open>What the cache knows: the record with an id, the entry of a host name, and the cursor.\<close>

definition abs_dns :: "cache_db \<Rightarrow> string \<Rightarrow> DNSRecord option" where
  "abs_dns db i = map_option dc_Detail (List.find (\<lambda>r. dc_ID r = i) (dns_rows db))"

definition abs_entries :: "cache_db \<Rightarrow> string \<Rightarrow> DomainEntryProjection option" where
  "abs_entries db h = map_option ec_Detail (List.find (\<lambda>r. ec_Hostname r = h) (entry_rows db))"

definition abs_cursor :: "cache_db \<Rightarrow> 64 word" where
  "abs_cursor db = Max (insert 0 (ss_SnapshotRecordID ` set (sync_rows db)))"

definition put_dns :: "DNSRecord \<Rightarrow> (string \<Rightarrow> DNSRecord option) \<Rightarrow> string \<Rightarrow> DNSRecord option" where
  "put_dns r m = m(dr_ID r := (if Deleted r then None else Some r))"

definition put_entry :: "DomainEntryProjection \<Rightarrow> (string \<Rightarrow> DomainEntryProjection option) \<Rightarrow> string \<Rightarrow> DomainEntryProjection option" where
  "put_entry e m = m(dp_Hostname e := (if dp_Deleted e then None else Some e))"

text \<open>Rows describe the value they carry and have distinct keys.\<close>

definition cache_inv :: "cache_db \<Rightarrow> bool" where
  "cache_inv db = (distinct (map dc_ID (dns_rows db)) \<and> distinct (map ec_Hostname (entry_rows db)) \<and>
     (\<forall>r \<in> set (dns_rows db). dc_ID r = dr_ID (dc_Detail r) \<and> dc_FQDN r = dr_FQDN (dc_Detail r) \<and>
        dc_RecordType r = dr_RecordType (dc_Detail r) \<and> \<not> Deleted (dc_Detail r)) \<and>
     (\<forall>r \<in> set (entry_rows db). ec_Hostname r = dp_Hostname (ec_Detail r) \<and> \<not> dp_Deleted (ec_Detail r)))"

text \<open>Nothing fails.\<close>

definition env_ok :: "slave_env \<Rightarrow> bool" where
  "env_ok env = (begin_err env = None \<and> commit_err env = None \<and> query_err env = None \<and>
     (\<forall>t k. exec_err env t k = None) \<and> (\<forall>p. stat_err env p = None) \<and> dns_reader env)"

text \<open>A record or an entry the cache can store: its times have an encoding, and an entry with a
  certificate names its host.\<close>

definition storable_dns :: "DNSRecord \<Rightarrow> bool" where
  "storable_dns r = (Deleted r \<or> json_shared r)"

definition storable_entry :: "DomainEntryProjection \<Rightarrow> bool" where
  "storable_entry e = (dp_Deleted e \<or> (json_entry e \<and> (dp_Cert e = None \<or> TrimSpace (dp_Hostname e) \<noteq> [])))"

definition good_env :: slave_env where
  "good_env = \<lparr>begin_err = None, commit_err = None, query_err = None, exec_err = (\<lambda>_ _. None), stat_err = (\<lambda>_. None),
     write_err = (\<lambda>_. None), dns_reader = True, now_unix = 0\<rparr>"

definition empty_store :: LocalStore where
  "empty_store = \<lparr>CacheRoot = ''/c'', ls_certRoot = ''/c/certs'', ls_db = \<lparr>dns_rows = [], entry_rows = [], sync_rows = []\<rparr>,
     ls_files = Map.empty, dnsChan = [], dnsDelivered = [], fetches = []\<rparr>"

text \<open>A step of the cache from one state to another: a consistent cache stays consistent and its
  cursor does not move back.\<close>

definition advanced :: "LocalStore \<Rightarrow> LocalStore \<Rightarrow> bool" where
  "advanced s s' = (cache_inv (ls_db s) \<longrightarrow> cache_inv (ls_db s') \<and> abs_cursor (ls_db s) \<le> abs_cursor (ls_db s'))"

section \<open>Rows found by key\<close>

lemma find_upsert: "List.find (\<lambda>r. pk r = k) (upsert_row pk r rows) = (if k = pk r then Some r else List.find (\<lambda>r. pk r = k) rows)"
  by (induction rows) auto

lemma find_remove: "List.find (\<lambda>r. pk r = k) (filter (\<lambda>r. pk r \<noteq> j) rows) = (if k = j then None else List.find (\<lambda>r. pk r = k) rows)"
  by (induction rows) auto

lemma upsert_distinct: "distinct (map pk rows) \<Longrightarrow> distinct (map pk (upsert_row pk r rows))"
proof -
  have "set (map pk (upsert_row pk r rows)) = insert (pk r) (set (map pk rows))" for rows
    by (induction rows) auto
  then show "distinct (map pk rows) \<Longrightarrow> distinct (map pk (upsert_row pk r rows))"
    by (induction rows) auto
qed

lemma upsert_set: "x \<in> set (upsert_row pk r rows) \<Longrightarrow> x = r \<or> x \<in> set rows"
  by (induction rows) (auto split: if_splits)

lemma upsert_cursor:
  "ss_SnapshotRecordID ` set (upsert_row sync_key r rows) = insert (ss_SnapshotRecordID r) (ss_SnapshotRecordID ` set rows)"
  by (induction rows) (auto simp: sync_key_def)

lemmas cache_defs = abs_dns_def abs_entries_def put_dns_def put_entry_def

section \<open>The cursor\<close>

lemma cursor_update:
  "abs_cursor (updateSnapshotRecordID env i t k tx) =
     (if exec_err env ''sync_state'' k = None then max i (abs_cursor tx) else abs_cursor tx)"
  by (auto simp: abs_cursor_def updateSnapshotRecordID_def upsert_cursor insert_commute [of 0] split: option.splits)

lemma update_frame [simp]:
  "dns_rows (updateSnapshotRecordID env i t k tx) = dns_rows tx"
  "entry_rows (updateSnapshotRecordID env i t k tx) = entry_rows tx"
  by (auto simp: updateSnapshotRecordID_def split: option.splits)

lemma GetSnapshotRecordID_cursor:
  assumes "query_err env = None"
  shows "GetSnapshotRecordID env s = Inr (abs_cursor (ls_db s))"
proof -
  let ?f = "\<lambda>r. (- int (unat (ss_SnapshotRecordID r)), - ss_CreatedAt r)"
  let ?rows = "sync_rows (ls_db s)"
  show ?thesis
  proof (cases "sort_key ?f ?rows")
    case Nil
    then have "?rows = []" by (metis length_0_conv length_sort)
    then show ?thesis using assms by (simp add: GetSnapshotRecordID_def abs_cursor_def)
  next
    case (Cons r rs)
    have set: "set ?rows = insert r (set rs)" by (metis Cons list.simps(15) set_sort)
    have "sorted (map ?f (r # rs))" by (metis Cons sorted_sort_key)
    then have le: "?f r \<le> ?f x" if "x \<in> set rs" for x using that by simp
    have "ss_SnapshotRecordID x \<le> ss_SnapshotRecordID r" if "x \<in> set rs" for x
      using le [OF that] by (auto simp: word_le_def)
    then have "abs_cursor (ls_db s) = ss_SnapshotRecordID r"
      unfolding abs_cursor_def set by (intro Max_eqI) auto
    then show ?thesis using assms Cons by (simp add: GetSnapshotRecordID_def)
  qed
qed

section \<open>Single changes\<close>

lemma send_dns_frame:
  "send_dns env items s = Return s' \<Longrightarrow> ls_db s' = ls_db s \<and> ls_files s' = ls_files s \<and> ls_certRoot s' = ls_certRoot s \<and>
     dnsDelivered s' @ dnsChan s' = dnsDelivered s @ dnsChan s @ [items]"
  by (cases "dnsChan s") (auto simp: send_dns_def split: if_splits)

lemma cache_inv_dns:
  assumes "cache_inv tx"
  shows "\<not> Deleted r \<Longrightarrow> cache_inv (tx\<lparr>dns_rows := upsert_row dc_ID \<lparr>dc_ID = dr_ID r, dc_FQDN = dr_FQDN r, dc_RecordType = dr_RecordType r,
      dc_Detail = r\<rparr> (dns_rows tx)\<rparr>)"
    and "cache_inv (tx\<lparr>dns_rows := filter (\<lambda>x. dc_ID x \<noteq> i) (dns_rows tx)\<rparr>)"
  using assms unfolding cache_inv_def by (auto simp: upsert_distinct distinct_map_filter dest!: upsert_set)

lemma cache_inv_entry:
  assumes "cache_inv tx"
  shows "\<not> dp_Deleted e \<Longrightarrow> cache_inv (tx\<lparr>entry_rows := upsert_row ec_Hostname \<lparr>ec_Hostname = dp_Hostname e,
      ec_CertHostname = ch, ec_CertRevision = cr, ec_Detail = e\<rparr> (entry_rows tx)\<rparr>)"
    and "cache_inv (tx\<lparr>entry_rows := filter (\<lambda>x. ec_Hostname x \<noteq> h) (entry_rows tx)\<rparr>)"
  using assms unfolding cache_inv_def by (auto simp: upsert_distinct distinct_map_filter dest!: upsert_set)

lemma dealDNSRecords_inv:
  assumes "dealDNSRecords env r tx s = Return (res, tx', s')" "cache_inv tx"
  shows "cache_inv tx' \<and> sync_rows tx' = sync_rows tx \<and> entry_rows tx' = entry_rows tx \<and> ls_db s' = ls_db s"
proof (cases "send_dns env [r] s")
  case (Return s1)
  note f = send_dns_frame [OF Return]
  show ?thesis using assms f cache_inv_dns [OF assms(2)]
    by (simp add: dealDNSRecords_def Let_def Return split: if_splits option.splits) auto
qed (use assms cache_inv_dns [OF assms(2)] in \<open>simp add: dealDNSRecords_def Let_def split: if_splits option.splits; auto\<close>)+

lemma dealDNSRecords_ok:
  assumes "env_ok env" "storable_dns r"
  shows "\<exists>tx' s'. dealDNSRecords env r tx s = Return (Inr (), tx', s') \<and> abs_dns tx' = put_dns r (abs_dns tx) \<and>
    abs_entries tx' = abs_entries tx \<and> sync_rows tx' = sync_rows tx \<and> ls_db s' = ls_db s"
proof -
  obtain s1 where s1: "send_dns env [r] s = Return s1" "ls_db s1 = ls_db s"
    using assms(1) send_dns_frame [of env "[r]" s] by (cases "send_dns env [r] s") (auto simp: env_ok_def send_dns_def split: if_splits)
  show ?thesis
    using assms s1 by (auto simp: dealDNSRecords_def env_ok_def storable_dns_def Let_def cache_defs find_upsert find_remove fun_eq_iff)
qed

lemma dealDomainEntries_inv:
  assumes "dealDomainEntries env e tx s = Return (res, tx', s')" "cache_inv tx"
  shows "cache_inv tx' \<and> sync_rows tx' = sync_rows tx \<and> dns_rows tx' = dns_rows tx \<and> ls_db s' = ls_db s"
  using assms cache_inv_entry [OF assms(2)]
  by (simp add: dealDomainEntries_def Let_def split: if_splits option.splits sum.splits; elim conjE; hypsubst?; simp)

lemma dealDomainEntries_ok:
  assumes "env_ok env" "storable_entry e"
  shows "\<exists>tx' s'. dealDomainEntries env e tx s = Return (Inr (), tx', s') \<and> abs_entries tx' = put_entry e (abs_entries tx) \<and>
    abs_dns tx' = abs_dns tx \<and> sync_rows tx' = sync_rows tx \<and> ls_db s' = ls_db s"
proof -
  have "\<exists>ok. CheckCertificateBundle env (dp_Hostname e) s = Inr ok" if "TrimSpace (dp_Hostname e) \<noteq> []"
    using assms(1) that by (auto simp: CheckCertificateBundle_def env_ok_def Let_def)
  then show ?thesis using assms
    by (auto simp: dealDomainEntries_def env_ok_def storable_entry_def Let_def cache_defs find_upsert find_remove fun_eq_iff
        split: option.splits)
qed

section \<open>Snapshots and notices\<close>

lemma update_cache_inv [simp]: "cache_inv (updateSnapshotRecordID env i t k tx) = cache_inv tx"
  by (simp add: cache_inv_def)

lemma update_abs [simp]:
  "abs_dns (updateSnapshotRecordID env i t k tx) = abs_dns tx" "abs_entries (updateSnapshotRecordID env i t k tx) = abs_entries tx"
  by (simp_all add: abs_dns_def abs_entries_def fun_eq_iff)

lemma cursor_update_le: "abs_cursor tx \<le> abs_cursor (updateSnapshotRecordID env i t k tx)"
  by (simp add: cursor_update)

lemma abs_cursor_cong: "sync_rows tx = sync_rows tx' \<Longrightarrow> abs_cursor tx = abs_cursor tx'"
  by (simp add: abs_cursor_def)

lemma apply_dns_inv:
  assumes "apply_dns_records env i rs tx s = Return (tx', s')" "cache_inv tx"
  shows "cache_inv tx' \<and> abs_cursor tx \<le> abs_cursor tx' \<and> ls_db s' = ls_db s"
  using assms
proof (induction rs arbitrary: tx s)
  case (Cons r rs)
  then obtain res tx1 s1 where d: "dealDNSRecords env r tx s = Return (res, tx1, s1)"
    by (auto split: outcome.splits)
  let ?tx = "updateSnapshotRecordID env i ''dns_records'' (dr_ID r) tx1"
  have v: "cache_inv tx1" "sync_rows tx1 = sync_rows tx" "ls_db s1 = ls_db s"
    using dealDNSRecords_inv [OF d Cons.prems(2)] by auto
  have "apply_dns_records env i rs ?tx s1 = Return (tx', s')" using Cons.prems(1) d by simp
  from Cons.IH [OF this] v show ?case
    using cursor_update_le [of tx1 env i "''dns_records''" "dr_ID r"] abs_cursor_cong [OF v(2)] by auto
qed simp

lemma apply_entries_inv:
  assumes "apply_domain_entries env i es tx s = Return (tx', s')" "cache_inv tx"
  shows "cache_inv tx' \<and> abs_cursor tx \<le> abs_cursor tx' \<and> ls_db s' = ls_db s"
  using assms
proof (induction es arbitrary: tx s)
  case (Cons e es)
  then obtain res tx1 s1 where d: "dealDomainEntries env e tx s = Return (res, tx1, s1)"
    by (auto split: outcome.splits)
  let ?tx = "updateSnapshotRecordID env i ''domain_entries'' (dp_Hostname e) tx1"
  have v: "cache_inv tx1" "sync_rows tx1 = sync_rows tx" "ls_db s1 = ls_db s"
    using dealDomainEntries_inv [OF d Cons.prems(2)] by auto
  have "apply_domain_entries env i es ?tx s1 = Return (tx', s')" using Cons.prems(1) d by simp
  from Cons.IH [OF this] v show ?case
    using cursor_update_le [of tx1 env i "''domain_entries''" "dp_Hostname e"] abs_cursor_cong [OF v(2)] by auto
qed simp

lemma apply_dns_ok:
  assumes "env_ok env" "list_all storable_dns rs"
  shows "\<exists>tx' s'. apply_dns_records env i rs tx s = Return (tx', s') \<and> abs_dns tx' = fold put_dns rs (abs_dns tx) \<and>
    abs_entries tx' = abs_entries tx \<and> abs_cursor tx' = (if rs = [] then abs_cursor tx else max i (abs_cursor tx)) \<and> ls_db s' = ls_db s"
  using assms(2)
proof (induction rs arbitrary: tx s)
  case (Cons r rs)
  then obtain tx1 s1 where d: "dealDNSRecords env r tx s = Return (Inr (), tx1, s1)" "abs_dns tx1 = put_dns r (abs_dns tx)"
    "abs_entries tx1 = abs_entries tx" "sync_rows tx1 = sync_rows tx" "ls_db s1 = ls_db s"
    using dealDNSRecords_ok [OF assms(1), of r tx s] by auto
  let ?tx = "updateSnapshotRecordID env i ''dns_records'' (dr_ID r) tx1"
  have c: "abs_cursor ?tx = max i (abs_cursor tx)"
    using assms(1) abs_cursor_cong [OF d(4)] by (simp add: cursor_update env_ok_def)
  obtain tx' s' where l: "apply_dns_records env i rs ?tx s1 = Return (tx', s')" "abs_dns tx' = fold put_dns rs (abs_dns ?tx)"
    "abs_entries tx' = abs_entries ?tx" "abs_cursor tx' = (if rs = [] then abs_cursor ?tx else max i (abs_cursor ?tx))" "ls_db s' = ls_db s1"
    using Cons.IH [of ?tx s1] Cons.prems by auto
  show ?case using d l c by simp
qed simp

lemma apply_entries_ok:
  assumes "env_ok env" "list_all storable_entry es"
  shows "\<exists>tx' s'. apply_domain_entries env i es tx s = Return (tx', s') \<and> abs_entries tx' = fold put_entry es (abs_entries tx) \<and>
    abs_dns tx' = abs_dns tx \<and> abs_cursor tx' = (if es = [] then abs_cursor tx else max i (abs_cursor tx)) \<and> ls_db s' = ls_db s"
  using assms(2)
proof (induction es arbitrary: tx s)
  case (Cons e es)
  then obtain tx1 s1 where d: "dealDomainEntries env e tx s = Return (Inr (), tx1, s1)" "abs_entries tx1 = put_entry e (abs_entries tx)"
    "abs_dns tx1 = abs_dns tx" "sync_rows tx1 = sync_rows tx" "ls_db s1 = ls_db s"
    using dealDomainEntries_ok [OF assms(1), of e tx s] by auto
  let ?tx = "updateSnapshotRecordID env i ''domain_entries'' (dp_Hostname e) tx1"
  have c: "abs_cursor ?tx = max i (abs_cursor tx)"
    using assms(1) abs_cursor_cong [OF d(4)] by (simp add: cursor_update env_ok_def)
  obtain tx' s' where l: "apply_domain_entries env i es ?tx s1 = Return (tx', s')" "abs_entries tx' = fold put_entry es (abs_entries ?tx)"
    "abs_dns tx' = abs_dns ?tx" "abs_cursor tx' = (if es = [] then abs_cursor ?tx else max i (abs_cursor ?tx))" "ls_db s' = ls_db s1"
    using Cons.IH [of ?tx s1] Cons.prems by auto
  show ?case using d l c by simp
qed simp

lemma ApplySnapshot_inv:
  assumes "ApplySnapshot env sn s = Return (res, s')" "cache_inv (ls_db s)"
  shows "cache_inv (ls_db s') \<and> abs_cursor (ls_db s) \<le> abs_cursor (ls_db s') \<and> (\<forall>e. res = Inl e \<longrightarrow> ls_db s' = ls_db s)"
proof (cases "sn = None \<or> begin_err env \<noteq> None")
  case True
  then show ?thesis using assms by (auto simp: ApplySnapshot_def split: option.splits)
next
  case False
  then obtain n where n: "sn = Some n" "begin_err env = None" by auto
  let ?i = "sn_SnapshotRecordID n"
  from assms(1) n obtain tx1 s1 where d: "apply_dns_records env ?i (sn_DNSRecords n) (ls_db s) s = Return (tx1, s1)"
    by (auto simp: ApplySnapshot_def split: outcome.splits)
  with assms(1) n obtain tx2 s2 where e: "apply_domain_entries env ?i (sn_DomainEntries n) tx1 s1 = Return (tx2, s2)"
    by (auto simp: ApplySnapshot_def split: outcome.splits)
  have "commit env tx2 s2 = (res, s')" using assms(1) n d e by (simp add: ApplySnapshot_def)
  moreover note apply_dns_inv [OF d assms(2)]
  moreover have "cache_inv tx2 \<and> abs_cursor tx1 \<le> abs_cursor tx2 \<and> ls_db s2 = ls_db s1"
    using apply_entries_inv [OF e] calculation(2) by blast
  ultimately show ?thesis using assms(2) by (auto simp: commit_def split: option.splits)
qed

lemma ApplySnapshot_ok:
  assumes "env_ok env" "list_all storable_dns (sn_DNSRecords n)" "list_all storable_entry (sn_DomainEntries n)"
  shows "\<exists>s'. ApplySnapshot env (Some n) s = Return (Inr (), s') \<and>
    abs_dns (ls_db s') = fold put_dns (sn_DNSRecords n) (abs_dns (ls_db s)) \<and>
    abs_entries (ls_db s') = fold put_entry (sn_DomainEntries n) (abs_entries (ls_db s)) \<and>
    abs_cursor (ls_db s') = (if sn_DNSRecords n = [] \<and> sn_DomainEntries n = [] then abs_cursor (ls_db s)
      else max (sn_SnapshotRecordID n) (abs_cursor (ls_db s)))"
proof -
  let ?i = "sn_SnapshotRecordID n"
  obtain tx1 s1 where d: "apply_dns_records env ?i (sn_DNSRecords n) (ls_db s) s = Return (tx1, s1)"
    "abs_dns tx1 = fold put_dns (sn_DNSRecords n) (abs_dns (ls_db s))" "abs_entries tx1 = abs_entries (ls_db s)"
    "abs_cursor tx1 = (if sn_DNSRecords n = [] then abs_cursor (ls_db s) else max ?i (abs_cursor (ls_db s)))" "ls_db s1 = ls_db s"
    using apply_dns_ok [OF assms(1,2), of ?i "ls_db s" s] by blast
  obtain tx2 s2 where e: "apply_domain_entries env ?i (sn_DomainEntries n) tx1 s1 = Return (tx2, s2)"
    "abs_entries tx2 = fold put_entry (sn_DomainEntries n) (abs_entries tx1)" "abs_dns tx2 = abs_dns tx1"
    "abs_cursor tx2 = (if sn_DomainEntries n = [] then abs_cursor tx1 else max ?i (abs_cursor tx1))" "ls_db s2 = ls_db s1"
    using apply_entries_ok [OF assms(1,3), of ?i tx1 s1] by blast
  have "ApplySnapshot env (Some n) s = Return (Inr (), s2\<lparr>ls_db := tx2\<rparr>)"
    using assms(1) d(1) e(1) by (simp add: ApplySnapshot_def commit_def env_ok_def)
  then show ?thesis using d e by auto
qed

text \<open>A notice that is applied is applied like the snapshot with its only element.\<close>

lemma ApplyChangelog_applies:
  assumes "c = (case GetSnapshotRecordID env s of Inl e \<Rightarrow> 0 | Inr c \<Rightarrow> c)"
    "\<not> cn_SnapshotRecordID n \<le> c" "\<not> c + 1 < cn_SnapshotRecordID n"
  shows "ApplyChangelog env (Some n) s = ApplySnapshot env (Some (SnapshotFromNotice n)) s"
proof -
  have "sn_SnapshotRecordID (SnapshotFromNotice n) = cn_SnapshotRecordID n"
    "sn_DNSRecords (SnapshotFromNotice n) = (case cn_DNSRecord n of None \<Rightarrow> [] | Some r \<Rightarrow> [r])"
    "sn_DomainEntries (SnapshotFromNotice n) = (case cn_DomainEntry n of None \<Rightarrow> [] | Some e \<Rightarrow> [e])"
    by (simp_all add: SnapshotFromNotice_def)
  then show ?thesis
    unfolding ApplyChangelog_def ApplySnapshot_def option.case Let_def assms(1) [symmetric]
    using assms(2,3) by (simp only: if_False)
qed

lemma ApplyChangelog_as_snapshot:
  assumes "query_err env = None" "abs_cursor (ls_db s) < cn_SnapshotRecordID n" "\<not> abs_cursor (ls_db s) + 1 < cn_SnapshotRecordID n"
  shows "ApplyChangelog env (Some n) s = ApplySnapshot env (Some (SnapshotFromNotice n)) s"
  using assms by (intro ApplyChangelog_applies [of "abs_cursor (ls_db s)"]) (simp_all add: GetSnapshotRecordID_cursor)

lemma ApplyChangelog_inv:
  assumes "ApplyChangelog env n s = Return (res, s')" "cache_inv (ls_db s)"
  shows "cache_inv (ls_db s') \<and> abs_cursor (ls_db s) \<le> abs_cursor (ls_db s') \<and> (\<forall>e. res = Inl e \<longrightarrow> ls_db s' = ls_db s)"
proof (cases n)
  case (Some cl)
  let ?c = "case GetSnapshotRecordID env s of Inl e \<Rightarrow> 0 | Inr c \<Rightarrow> c"
  show ?thesis
  proof (cases "?c \<ge> cn_SnapshotRecordID cl \<or> ?c + 1 < cn_SnapshotRecordID cl")
    case True
    then show ?thesis using assms Some by (auto simp: ApplyChangelog_def Let_def split: if_splits)
  next
    case False
    then have "ApplySnapshot env (Some (SnapshotFromNotice cl)) s = Return (res, s')"
      using assms(1) Some ApplyChangelog_applies [OF refl, of cl env s] by simp
    then show ?thesis using ApplySnapshot_inv assms(2) by blast
  qed
qed (use assms in \<open>simp add: ApplyChangelog_def\<close>)

section \<open>The subscriber keeps the invariant\<close>

lemma advanced_refl [simp]: "advanced s s"
  by (simp add: advanced_def)

lemma advanced_trans: "advanced s s' \<Longrightarrow> advanced s' s'' \<Longrightarrow> advanced s s''"
  unfolding advanced_def using order_trans by blast

lemma ApplySnapshot_advanced: "ApplySnapshot env sn s = Return (res, s') \<Longrightarrow> advanced s s'"
  using ApplySnapshot_inv unfolding advanced_def by blast

lemma ApplyChangelog_advanced: "ApplyChangelog env n s = Return (res, s') \<Longrightarrow> advanced s s'"
  using ApplyChangelog_inv unfolding advanced_def by blast

lemma catch_up_advanced: "catch_up_loop env st s = Return (res, s') \<Longrightarrow> advanced s s'"
proof (induction env st s rule: catch_up_loop.induct)
  case (4 env sn st s)
  show ?case
  proof (cases "ApplySnapshot env (Some sn) s")
    case (Return x)
    obtain r s1 where x: "x = (r, s1)" by (rule prod.exhaust)
    have a: "advanced s s1" using ApplySnapshot_advanced Return x by blast
    show ?thesis using 4 Return x a by (auto split: sum.splits if_splits intro: advanced_trans [OF a])
  qed (use 4 in simp_all)
qed simp_all

lemma CatchUpSnapshots_advanced: "CatchUpSnapshots env get node c s = Return (res, s') \<Longrightarrow> advanced s s'"
  by (auto simp: CatchUpSnapshots_def catch_up_advanced split: sum.splits)

lemma subscribe_loop_advanced: "subscribe_loop env node evs c s = Return (res, s') \<Longrightarrow> advanced s s'"
proof (induction env node evs c s rule: subscribe_loop.induct)
  case (4 env node n get evs c s)
  consider (old) "cn_SnapshotRecordID n \<le> c" | (gap) "\<not> cn_SnapshotRecordID n \<le> c" "cn_SnapshotRecordID n > c + 1"
    | (succ) "\<not> cn_SnapshotRecordID n \<le> c" "\<not> cn_SnapshotRecordID n > c + 1" by blast
  then show ?case
  proof cases
    case old
    then show ?thesis using 4 by simp
  next
    case gap
    then obtain r s1 where u: "CatchUpSnapshots env get node c s = Return (r, s1)"
      using 4(4) by (auto split: outcome.splits)
    have a: "advanced s s1" using CatchUpSnapshots_advanced [OF u] .
    show ?thesis
    proof (cases r)
      case (Inr x)
      show ?thesis
      proof (cases "GetSnapshotRecordID env s1")
        case G: (Inr c')
        then have "advanced s1 s'" using 4(2) [OF gap u refl Inr G] 4(4) gap u Inr by simp
        then show ?thesis by (rule advanced_trans [OF a])
      qed (use 4(4) gap u Inr a in simp)
    qed (use 4(4) gap u a in simp)
  next
    case succ
    then obtain r s1 where u: "ApplyChangelog env (Some n) s = Return (r, s1)"
      using 4(4) by (auto split: outcome.splits)
    have a: "advanced s s1" using ApplyChangelog_advanced [OF u] .
    show ?thesis
    proof (cases r)
      case (Inr x)
      then have "advanced s1 s'" using 4(3) [OF succ u refl Inr] 4(4) succ u by simp
      then show ?thesis by (rule advanced_trans [OF a])
    qed (use 4(4) succ u a in simp)
  qed
qed simp_all

lemma Subscribe_advanced:
  assumes "Subscribe env client get node s = Return (res, s')"
  shows "advanced s s'"
proof -
  have "advanced s s'" if "client = Some f" "f node = Inr evs" "GetSnapshotRecordID env s = Inr c" for f evs c
  proof (cases "CatchUpSnapshots env get node c s")
    case (Return x)
    obtain r s1 where x: "x = (r, s1)" by (rule prod.exhaust)
    have a: "advanced s s1" using CatchUpSnapshots_advanced Return x by blast
    show ?thesis
      using assms that Return x a subscribe_loop_advanced advanced_trans [OF a]
      by (auto simp: Subscribe_def split: sum.splits)
  qed (use assms that in \<open>simp_all add: Subscribe_def\<close>)
  then show ?thesis using assms by (auto simp: Subscribe_def split: option.splits sum.splits)
qed

section \<open>Reads\<close>

lemma find_filter: "List.find P xs = (case filter P xs of [] \<Rightarrow> None | x # _ \<Rightarrow> Some x)"
  by (induction xs) auto

lemma GetDomainEntryByHostname_abs:
  "query_err env = None \<Longrightarrow> GetDomainEntryByHostname env h s =
     (case abs_entries (ls_db s) h of None \<Rightarrow> Inl ErrRecordNotFound | Some e \<Rightarrow> Inr e)"
  by (simp add: GetDomainEntryByHostname_def abs_entries_def find_filter split: list.splits)

lemma find_key:
  assumes "distinct (map pk rows)"
  shows "List.find (\<lambda>r. pk r = k) rows = Some r \<longleftrightarrow> r \<in> set rows \<and> pk r = k"
  using assms by (induction rows) auto

lemma abs_dns_rows:
  assumes "cache_inv db"
  shows "(\<exists>i. abs_dns db i = Some r) \<longleftrightarrow> (\<exists>x \<in> set (dns_rows db). dc_Detail x = r)"
  using assms by (auto simp: abs_dns_def cache_inv_def find_key)

lemma GetDNSRecordsByHostname_abs:
  assumes "query_err env = None" "cache_inv (ls_db s)"
  shows "\<exists>out. GetDNSRecordsByHostname env h s = Inr out \<and> distinct (map dr_ID out) \<and>
    set out = {r. dr_FQDN r = h \<and> (\<exists>i. abs_dns (ls_db s) i = Some r)} \<and>
    sorted (map (\<lambda>r. (dr_RecordType r, dr_ID r)) out)"
proof -
  let ?rows = "filter (\<lambda>r. dc_FQDN r = h) (dns_rows (ls_db s))"
  let ?k = "\<lambda>r. (dc_RecordType r, dc_ID r)"
  let ?out = "map dc_Detail (sort_key ?k ?rows)"
  have inv: "distinct (map dc_ID (dns_rows (ls_db s)))" and
    row: "\<And>r. r \<in> set (dns_rows (ls_db s)) \<Longrightarrow> dc_ID r = dr_ID (dc_Detail r) \<and> dc_FQDN r = dr_FQDN (dc_Detail r) \<and>
        dc_RecordType r = dr_RecordType (dc_Detail r)"
    using assms(2) by (auto simp: cache_inv_def)
  have sub: "r \<in> set (sort_key ?k ?rows) \<Longrightarrow> r \<in> set (dns_rows (ls_db s)) \<and> dc_FQDN r = h" for r by simp
  have det: "dr_ID (dc_Detail r) = dc_ID r" "dr_RecordType (dc_Detail r) = dc_RecordType r" if "r \<in> set (sort_key ?k ?rows)" for r
    using row [of r] sub [OF that] by auto
  have ids: "map dr_ID ?out = map dc_ID (sort_key ?k ?rows)"
    unfolding map_map comp_def by (intro map_cong refl) (simp add: det)
  have "inj_on dc_ID (set ?rows)" "distinct ?rows" using distinct_map_filter [OF inv] by (simp_all only: distinct_map)
  then have "distinct (map dc_ID (sort_key ?k ?rows))" by (simp only: distinct_map distinct_sort set_sort)
  then have 1: "distinct (map dr_ID ?out)" by (simp only: ids)
  have "map (\<lambda>r. (dr_RecordType r, dr_ID r)) ?out = map ?k (sort_key ?k ?rows)"
    unfolding map_map comp_def by (intro map_cong refl) (simp add: det)
  then have 2: "sorted (map (\<lambda>r. (dr_RecordType r, dr_ID r)) ?out)" by (simp only: sorted_sort_key)
  have 3: "set ?out = {r. dr_FQDN r = h \<and> (\<exists>i. abs_dns (ls_db s) i = Some r)}"
  proof (intro set_eqI iffI)
    fix r assume "r \<in> set ?out"
    then obtain x where x: "x \<in> set (sort_key ?k ?rows)" "r = dc_Detail x" unfolding set_map by blast
    then have m: "x \<in> set (dns_rows (ls_db s))" "dc_FQDN x = h" using sub by blast+
    then have "dr_FQDN r = h" using row [OF m(1)] x(2) by simp
    moreover have "\<exists>i. abs_dns (ls_db s) i = Some r" unfolding abs_dns_rows [OF assms(2)] using m(1) x(2) by blast
    ultimately show "r \<in> {r. dr_FQDN r = h \<and> (\<exists>i. abs_dns (ls_db s) i = Some r)}" by blast
  next
    fix r assume "r \<in> {r. dr_FQDN r = h \<and> (\<exists>i. abs_dns (ls_db s) i = Some r)}"
    then obtain x where x: "x \<in> set (dns_rows (ls_db s))" "dc_Detail x = r" "dr_FQDN r = h"
      unfolding abs_dns_rows [OF assms(2)] by blast
    then have "x \<in> set (sort_key ?k ?rows)" using row [OF x(1)] by simp
    then show "r \<in> set ?out" unfolding set_map using x(2) by blast
  qed
  have "GetDNSRecordsByHostname env h s = Inr ?out" using assms(1) by (simp add: GetDNSRecordsByHostname_def)
  then show ?thesis using 1 2 3 by blast
qed

section \<open>Backoff\<close>

lemma sint_double:
  fixes b :: "64 word"
  assumes "0 \<le> sint b" "sint b < 2 ^ 62"
  shows "sint (b * 2) = sint b * 2"
  using assms by (simp add: sint_word_ariths signed_take_bit_int_eq_self)

lemma next_backoff_sint:
  assumes "0 < sint b" "sint b \<le> sint m" "sint m < 2 ^ 62"
  shows "sint (next_backoff m b) = min (sint m) (sint b * 2)"
  using sint_double [of b] assms by (simp add: next_backoff_def Let_def)

lemma retry_waits_nth:
  assumes "0 < sint b" "sint b \<le> sint m" "sint m < 2 ^ 62" "n < length (retry_waits m b rs)"
  shows "sint (retry_waits m b rs ! n) = min (sint m) (sint b * 2 ^ n)"
  using assms
proof (induction m b rs arbitrary: n rule: retry_waits.induct)
  case (3 m b e rs)
  let ?b = "next_backoff m b"
  have nb: "sint ?b = min (sint m) (sint b * 2)" using next_backoff_sint [OF 3(2-4)] .
  show ?case
  proof (cases n)
    case (Suc k)
    have "sint (retry_waits m ?b rs ! k) = min (sint m) (sint ?b * 2 ^ k)"
      using 3 nb Suc by (intro 3(1)) auto
    also have "\<dots> = min (sint m) (sint b * 2 ^ Suc k)"
    proof (cases "sint b * 2 \<le> sint m")
      case False
      have "sint m * 1 \<le> sint m * 2 ^ k" using 3(2,3) by (intro mult_left_mono) auto
      moreover have "sint m * 2 ^ k \<le> sint b * 2 * 2 ^ k" using False by (intro mult_right_mono) auto
      ultimately have "sint m \<le> sint b * 2 ^ Suc k" "sint m \<le> sint m * 2 ^ k" unfolding power_Suc by linarith+
      moreover have "sint ?b = sint m" using nb False by simp
      ultimately show ?thesis unfolding min_def by simp
    qed (simp add: nb algebra_simps)
    finally show ?thesis by (simp add: Suc)
  qed (use 3 in simp)
qed simp_all

lemma changelog_cases:
  assumes "env_ok env" "cache_inv (ls_db s)" "list_all storable_dns (case cn_DNSRecord n of None \<Rightarrow> [] | Some r \<Rightarrow> [r])"
    "list_all storable_entry (case cn_DomainEntry n of None \<Rightarrow> [] | Some e \<Rightarrow> [e])"
  shows "cn_SnapshotRecordID n \<le> abs_cursor (ls_db s) \<Longrightarrow> ApplyChangelog env (Some n) s = Return (Inr (), s)"
    and "abs_cursor (ls_db s) + 1 < cn_SnapshotRecordID n \<Longrightarrow> abs_cursor (ls_db s) < cn_SnapshotRecordID n \<Longrightarrow>
      ApplyChangelog env (Some n) s = Return (Inl ErrSnapshotOutOfOrder, s)"
    and "abs_cursor (ls_db s) < cn_SnapshotRecordID n \<Longrightarrow> cn_SnapshotRecordID n = abs_cursor (ls_db s) + 1 \<Longrightarrow>
      \<exists>s'. ApplyChangelog env (Some n) s = Return (Inr (), s') \<and> cache_inv (ls_db s') \<and>
        abs_dns (ls_db s') = (case cn_DNSRecord n of None \<Rightarrow> abs_dns (ls_db s) | Some r \<Rightarrow> put_dns r (abs_dns (ls_db s))) \<and>
        abs_entries (ls_db s') = (case cn_DomainEntry n of None \<Rightarrow> abs_entries (ls_db s) | Some e \<Rightarrow> put_entry e (abs_entries (ls_db s))) \<and>
        abs_cursor (ls_db s') = (if cn_DNSRecord n = None \<and> cn_DomainEntry n = None then abs_cursor (ls_db s) else cn_SnapshotRecordID n)"
proof -
  have q: "query_err env = None" using assms(1) by (simp add: env_ok_def)
  note c = GetSnapshotRecordID_cursor [OF q, of s]
  show "cn_SnapshotRecordID n \<le> abs_cursor (ls_db s) \<Longrightarrow> ApplyChangelog env (Some n) s = Return (Inr (), s)"
    by (simp add: ApplyChangelog_def c)
  show "abs_cursor (ls_db s) + 1 < cn_SnapshotRecordID n \<Longrightarrow> abs_cursor (ls_db s) < cn_SnapshotRecordID n \<Longrightarrow>
      ApplyChangelog env (Some n) s = Return (Inl ErrSnapshotOutOfOrder, s)"
    by (simp add: ApplyChangelog_def c Let_def)
  let ?n = "SnapshotFromNotice n"
  assume lt: "abs_cursor (ls_db s) < cn_SnapshotRecordID n" "cn_SnapshotRecordID n = abs_cursor (ls_db s) + 1"
  then have e: "ApplyChangelog env (Some n) s = ApplySnapshot env (Some ?n) s"
    by (intro ApplyChangelog_as_snapshot [OF q]) auto
  have "list_all storable_dns (sn_DNSRecords ?n)" "list_all storable_entry (sn_DomainEntries ?n)"
    using assms(3,4) by (simp_all add: SnapshotFromNotice_def)
  from ApplySnapshot_ok [OF assms(1) this, of s] obtain s' where s': "ApplySnapshot env (Some ?n) s = Return (Inr (), s')"
    "abs_dns (ls_db s') = fold put_dns (sn_DNSRecords ?n) (abs_dns (ls_db s))"
    "abs_entries (ls_db s') = fold put_entry (sn_DomainEntries ?n) (abs_entries (ls_db s))"
    "abs_cursor (ls_db s') = (if sn_DNSRecords ?n = [] \<and> sn_DomainEntries ?n = [] then abs_cursor (ls_db s)
      else max (sn_SnapshotRecordID ?n) (abs_cursor (ls_db s)))" by blast
  have m: "max (cn_SnapshotRecordID n) (abs_cursor (ls_db s)) = cn_SnapshotRecordID n" using lt(1) by (intro max_absorb1) simp
  show "\<exists>s'. ApplyChangelog env (Some n) s = Return (Inr (), s') \<and> cache_inv (ls_db s') \<and>
        abs_dns (ls_db s') = (case cn_DNSRecord n of None \<Rightarrow> abs_dns (ls_db s) | Some r \<Rightarrow> put_dns r (abs_dns (ls_db s))) \<and>
        abs_entries (ls_db s') = (case cn_DomainEntry n of None \<Rightarrow> abs_entries (ls_db s) | Some e \<Rightarrow> put_entry e (abs_entries (ls_db s))) \<and>
        abs_cursor (ls_db s') = (if cn_DNSRecord n = None \<and> cn_DomainEntry n = None then abs_cursor (ls_db s) else cn_SnapshotRecordID n)"
    using s' e m ApplySnapshot_inv [OF s'(1) assms(2)] by (intro exI [of _ s']) (simp add: SnapshotFromNotice_def split: option.splits)
qed

section \<open>Properties\<close>

text \<open>C12. Applying a snapshot stores it. If the database accepts the statements, every record and entry of
  the snapshot replaces the cached one with its key, or removes it when marked deleted, in the order of the
  snapshot; reading a host then returns its last entry, reading a name its records sorted by type and id,
  and the cursor becomes the larger of the old one and the snapshot's (an empty snapshot leaves it).\<close>

theorem snapshot_applied:
  assumes "env_ok env" "cache_inv (ls_db s)" "list_all storable_dns (sn_DNSRecords n)" "list_all storable_entry (sn_DomainEntries n)"
  shows "\<exists>s'. ApplySnapshot env (Some n) s = Return (Inr (), s') \<and>
    (\<forall>h. GetDomainEntryByHostname env h s' =
       (case fold put_entry (sn_DomainEntries n) (abs_entries (ls_db s)) h of None \<Rightarrow> Inl ErrRecordNotFound | Some e \<Rightarrow> Inr e)) \<and>
    (\<forall>h. \<exists>out. GetDNSRecordsByHostname env h s' = Inr out \<and> distinct (map dr_ID out) \<and>
       sorted (map (\<lambda>r. (dr_RecordType r, dr_ID r)) out) \<and>
       set out = {r. dr_FQDN r = h \<and> (\<exists>i. fold put_dns (sn_DNSRecords n) (abs_dns (ls_db s)) i = Some r)}) \<and>
    GetSnapshotRecordID env s' = Inr (if sn_DNSRecords n = [] \<and> sn_DomainEntries n = [] then abs_cursor (ls_db s)
       else max (sn_SnapshotRecordID n) (abs_cursor (ls_db s)))"
proof -
  obtain s' where s': "ApplySnapshot env (Some n) s = Return (Inr (), s')"
    "abs_dns (ls_db s') = fold put_dns (sn_DNSRecords n) (abs_dns (ls_db s))"
    "abs_entries (ls_db s') = fold put_entry (sn_DomainEntries n) (abs_entries (ls_db s))"
    "abs_cursor (ls_db s') = (if sn_DNSRecords n = [] \<and> sn_DomainEntries n = [] then abs_cursor (ls_db s)
      else max (sn_SnapshotRecordID n) (abs_cursor (ls_db s)))"
    using ApplySnapshot_ok [OF assms(1,3,4), of s] by blast
  have q: "query_err env = None" using assms(1) by (simp add: env_ok_def)
  have i: "cache_inv (ls_db s')" using ApplySnapshot_inv [OF s'(1) assms(2)] by blast
  show ?thesis
    using s'(1) GetDomainEntryByHostname_abs [OF q, of _ s'] GetDNSRecordsByHostname_abs [OF q i]
      GetSnapshotRecordID_cursor [OF q, of s'] unfolding s'(2-4) by metis
qed

theorem snapshot_applied_witness:
  defines "r \<equiv> zero_DNSRecord\<lparr>dr_ID := ''r'', dr_FQDN := ''a.b.''\<rparr>"
  defines "e \<equiv> zero_DomainEntryProjection\<lparr>dp_Hostname := ''a.b''\<rparr>"
  defines "n \<equiv> \<lparr>sn_NodeID = ''m'', sn_CreatedAt = 0, sn_SnapshotRecordID = 7, sn_DNSRecords = [r], sn_DomainEntries = [e], sn_Last = True\<rparr>"
  shows "\<exists>s'. ApplySnapshot good_env (Some n) empty_store = Return (Inr (), s') \<and>
    GetDomainEntryByHostname good_env ''a.b'' s' = Inr e \<and> GetSnapshotRecordID good_env s' = Inr 7"
proof -
  have ok: "env_ok good_env" "cache_inv (ls_db empty_store)" by (simp_all add: env_ok_def good_env_def cache_inv_def empty_store_def)
  have st: "list_all storable_dns (sn_DNSRecords n)" "list_all storable_entry (sn_DomainEntries n)"
    by (simp_all add: n_def r_def e_def storable_dns_def storable_entry_def json_shared_def json_time_def json_entry_def
        json_cert_def json_backend_def zero_DNSRecord_def zero_DomainEntryProjection_def time_Zero_def)
  obtain s' where s': "ApplySnapshot good_env (Some n) empty_store = Return (Inr (), s')"
    "GetDomainEntryByHostname good_env ''a.b'' s' =
       (case fold put_entry (sn_DomainEntries n) (abs_entries (ls_db empty_store)) ''a.b'' of None \<Rightarrow> Inl ErrRecordNotFound | Some e \<Rightarrow> Inr e)"
    "GetSnapshotRecordID good_env s' = Inr (if sn_DNSRecords n = [] \<and> sn_DomainEntries n = [] then abs_cursor (ls_db empty_store)
       else max (sn_SnapshotRecordID n) (abs_cursor (ls_db empty_store)))"
    using snapshot_applied [OF ok st] by blast
  then show ?thesis
    by (intro exI [of _ s']) (simp add: n_def e_def put_entry_def zero_DomainEntryProjection_def abs_cursor_def empty_store_def max_def)
qed

text \<open>C13. A change notice is applied exactly when it is the next one. A notice at or below the cursor is
  ignored, one beyond the next is refused with \<^verbatim>\<open>ErrSnapshotOutOfOrder\<close> and changes nothing, and the
  successor of the cursor stores its record and its entry and, when it carries either, becomes the cursor.\<close>

theorem changelog_next_only:
  assumes "env_ok env" "cache_inv (ls_db s)" "list_all storable_dns (case cn_DNSRecord n of None \<Rightarrow> [] | Some r \<Rightarrow> [r])"
    "list_all storable_entry (case cn_DomainEntry n of None \<Rightarrow> [] | Some e \<Rightarrow> [e])"
  defines "c \<equiv> abs_cursor (ls_db s)" and "i \<equiv> cn_SnapshotRecordID n"
  shows "(i \<le> c \<longrightarrow> ApplyChangelog env (Some n) s = Return (Inr (), s)) \<and>
    (c < i \<and> i \<noteq> c + 1 \<longrightarrow> ApplyChangelog env (Some n) s = Return (Inl ErrSnapshotOutOfOrder, s)) \<and>
    (c < i \<and> i = c + 1 \<longrightarrow> (\<exists>s'. ApplyChangelog env (Some n) s = Return (Inr (), s') \<and> cache_inv (ls_db s') \<and>
        abs_dns (ls_db s') = (case cn_DNSRecord n of None \<Rightarrow> abs_dns (ls_db s) | Some r \<Rightarrow> put_dns r (abs_dns (ls_db s))) \<and>
        abs_entries (ls_db s') = (case cn_DomainEntry n of None \<Rightarrow> abs_entries (ls_db s) | Some e \<Rightarrow> put_entry e (abs_entries (ls_db s))) \<and>
        abs_cursor (ls_db s') = (if cn_DNSRecord n = None \<and> cn_DomainEntry n = None then c else i)))"
proof -
  have "c + 1 < i" if "c < i" "i \<noteq> c + 1" using inc_le [OF that(1)] that(2) by simp
  then show ?thesis using changelog_cases [OF assms(1-4)] unfolding c_def i_def by blast
qed

theorem changelog_next_only_witness:
  defines "e \<equiv> zero_DomainEntryProjection\<lparr>dp_Hostname := ''a.b''\<rparr>"
  defines "n \<equiv> (\<lambda>i. zero_ChangeNotification\<lparr>cn_SnapshotRecordID := i, cn_DomainEntry := Some e\<rparr>)"
  shows "ApplyChangelog good_env (Some (n 0)) empty_store = Return (Inr (), empty_store) \<and>
    ApplyChangelog good_env (Some (n 2)) empty_store = Return (Inl ErrSnapshotOutOfOrder, empty_store) \<and>
    (\<exists>s'. ApplyChangelog good_env (Some (n 1)) empty_store = Return (Inr (), s') \<and> abs_entries (ls_db s') ''a.b'' = Some e \<and>
       abs_cursor (ls_db s') = 1)"
proof -
  have ok: "env_ok good_env" "cache_inv (ls_db empty_store)" by (simp_all add: env_ok_def good_env_def cache_inv_def empty_store_def)
  have st: "list_all storable_dns (case cn_DNSRecord (n i) of None \<Rightarrow> [] | Some r \<Rightarrow> [r])"
    "list_all storable_entry (case cn_DomainEntry (n i) of None \<Rightarrow> [] | Some e \<Rightarrow> [e])" for i
    by (simp_all add: n_def e_def zero_ChangeNotification_def storable_entry_def json_entry_def json_cert_def json_backend_def
        zero_DomainEntryProjection_def)
  have c: "abs_cursor (ls_db empty_store) = 0" by (simp add: abs_cursor_def empty_store_def)
  have i: "cn_SnapshotRecordID (n i) = i" "cn_DNSRecord (n i) = None" "cn_DomainEntry (n i) = Some e" for i
    by (simp_all add: n_def zero_ChangeNotification_def)
  have "ApplyChangelog good_env (Some (n 0)) empty_store = Return (Inr (), empty_store)"
    "ApplyChangelog good_env (Some (n 2)) empty_store = Return (Inl ErrSnapshotOutOfOrder, empty_store)"
    using changelog_next_only [OF ok st, of 0] changelog_next_only [OF ok st, of 2] by (simp_all add: c i)
  moreover obtain s' where "ApplyChangelog good_env (Some (n 1)) empty_store = Return (Inr (), s')"
    "abs_entries (ls_db s') = put_entry e (abs_entries (ls_db empty_store))" "abs_cursor (ls_db s') = 1"
    using changelog_next_only [OF ok st, of 1] by (auto simp: c i)
  ultimately show ?thesis by (auto simp: put_entry_def e_def zero_DomainEntryProjection_def)
qed





lemma apply_dns_blocked:
  assumes "\<not> dns_reader env" "\<forall>t k. exec_err env t k = None" "\<forall>r \<in> set rs. \<not> Deleted r \<and> json_shared r"
    "length (dnsChan s) \<le> 100" "100 < length (dnsChan s) + length rs"
  shows "apply_dns_records env i rs tx s = Blocked"
  using assms(3-5)
proof (induction rs arbitrary: tx s)
  case (Cons r rs)
  show ?case
  proof (cases "length (dnsChan s) < 100")
    case True
    then have "dealDNSRecords env r tx s = Return (Inr (), tx\<lparr>dns_rows := upsert_row dc_ID \<lparr>dc_ID = dr_ID r, dc_FQDN = dr_FQDN r,
        dc_RecordType = dr_RecordType r, dc_Detail = r\<rparr> (dns_rows tx)\<rparr>, s\<lparr>dnsChan := dnsChan s @ [[r]]\<rparr>)"
      using Cons.prems assms(2) by (simp add: dealDNSRecords_def send_dns_def Let_def)
    moreover have "apply_dns_records env i rs tx' (s\<lparr>dnsChan := dnsChan s @ [[r]]\<rparr>) = Blocked" for tx'
      using True Cons.prems by (intro Cons.IH) auto
    ultimately show ?thesis by simp
  next
    case False
    then have "dealDNSRecords env r tx s = Blocked"
      using Cons.prems assms(1,2) by (simp add: dealDNSRecords_def send_dns_def Let_def)
    then show ?thesis by simp
  qed
qed simp

text \<open>C18. Without a DNS listener the replica stalls. The channel for DNS updates holds 100 of them and only the
  DNS engine reads it; when that engine is switched off, applying a snapshot with more live records than the
  channel has room for never returns.\<close>

theorem dns_channel_stall:
  assumes "\<not> dns_reader env" "begin_err env = None" "\<forall>t k. exec_err env t k = None"
    "\<forall>r \<in> set (sn_DNSRecords n). \<not> Deleted r \<and> json_shared r"
    "length (dnsChan s) \<le> 100" "100 < length (dnsChan s) + length (sn_DNSRecords n)"
  shows "ApplySnapshot env (Some n) s = Blocked"
  using apply_dns_blocked [OF assms(1,3-6)] assms(2) by (simp add: ApplySnapshot_def)

theorem dns_channel_stall_witness:
  defines "r \<equiv> zero_DNSRecord\<lparr>dr_ID := ''r''\<rparr>"
  defines "n \<equiv> \<lparr>sn_NodeID = ''m'', sn_CreatedAt = 0, sn_SnapshotRecordID = 7, sn_DNSRecords = replicate 101 r, sn_DomainEntries = [], sn_Last = True\<rparr>"
  shows "ApplySnapshot (good_env\<lparr>dns_reader := False\<rparr>) (Some n) empty_store = Blocked"
  by (rule dns_channel_stall)
    (simp_all add: n_def r_def good_env_def empty_store_def zero_DNSRecord_def json_shared_def json_time_def time_Zero_def)

end
