(* ===== verification/Slave_Certs.thy ===== *)
theory Slave_Certs
  imports Slave
begin

text \<open>
  The certificate files of a replica.  The bundles that the replica stores
  (\<^verbatim>\<open>engine/slave/store_certfiles.go\<close>) are the files the ingress reads
  (\<^verbatim>\<open>ingress/tls_cert_resolver.go\<close>): the lemmas compute the paths of both sides, show that two hosts
  never share a file, and that a stored bundle is found by the check, by the reader and by the resolver.
\<close>

definition bundle_metadata :: "(string \<Rightarrow> 64 word \<Rightarrow> bytes) \<Rightarrow> CertificateBundle \<Rightarrow> bytes" where
  "bundle_metadata render b = (if cb_MetadataJSON b = [] then render (cb_Hostname b) (cb_Revision b) else cb_MetadataJSON b)"

lemma cert_dir_components:
  assumes "valid_hostname h" "clean_root root"
  obtains cs ds where "root = CHR ''/'' # Join cs ''/''" "cs \<noteq> []" "list_all plain_component cs" "list_all plain_component ds" "ds \<noteq> []"
    "cert_dir root h = CHR ''/'' # Join (cs @ ds) ''/''"
    "\<And>f. plain_component f \<Longrightarrow> path_Join [root, certificateDirectoryName h, f] = CHR ''/'' # Join (cs @ ds @ [f]) ''/''"
proof -
  from assms(2) obtain cs where cs: "root = CHR ''/'' # Join cs ''/''" "cs \<noteq> []" "list_all plain_component cs"
    by (auto simp: clean_root_def)
  from assms(1) obtain ls where ls: "ls \<noteq> []" "list_all hostnameLabelPattern ls"
    and h: "h = Join ls ''.'' \<or> h = ''*.'' @ Join ls ''.''" by (auto simp: valid_hostname_def)
  let ?b = "Join ls ''.''"
  note p = labels_plain [OF ls]
  obtain ds where ds: "list_all plain_component ds" "ds \<noteq> []" "certificateDirectoryName h = Join ds ''/''"
    "\<And>r fs. path_Join (r # Join ds ''/'' # fs) = path_Join (r # ds @ fs)"
  proof -
    from h show thesis
    proof
      assume h: "h = ?b"
      have "\<not> HasPrefix h ''*.''" using labels_joined(5) [OF ls] by (auto simp: h HasPrefix_conv)
      then have "certificateDirectoryName h = Join [h] ''/''"
        using sanitizeHostname_fixed [OF assms(1)] by (simp add: certificateDirectoryName_def)
      then show thesis using that [of "[h]"] p(1) h by simp
    next
      assume h: "h = ''*.'' @ ?b"
      have "HasPrefix h ''*.''" "TrimPrefix h ''*.'' = ?b" unfolding h by (rule HasPrefix_append, rule TrimPrefix_append)
      then have "certificateDirectoryName h = Join [''.wildcard'', ?b] ''/''"
        using sanitizeHostname_fixed [OF assms(1)] wildcard_paths [OF p(1)] by (simp add: certificateDirectoryName_def)
      moreover have "path_Join (r # Join [''.wildcard'', ?b] ''/'' # fs) = path_Join (r # [''.wildcard'', ?b] @ fs)" for r fs
        using p(1) by (cases fs; cases r) (simp_all add: path_Join_def plain_component_def)
      ultimately show thesis using that [of "[''.wildcard'', ?b]"] p(1) by (simp add: plain_component_def)
    qed
  qed
  have j: "path_Join (root # ds @ fs) = CHR ''/'' # Join (cs @ ds @ fs) ''/''" if "list_all plain_component fs" for fs
    unfolding cs(1) using cs ds(1,2) that by (intro path_Join_plain) auto
  show thesis
  proof (rule that [OF cs ds(1,2)])
    show "cert_dir root h = CHR ''/'' # Join (cs @ ds) ''/''"
      using j [of "[]"] ds(3) ds(4) [of root "[]"] by (simp add: cert_dir_def)
    show "path_Join [root, certificateDirectoryName h, f] = CHR ''/'' # Join (cs @ ds @ [f]) ''/''" if "plain_component f" for f
      using j [of "[f]"] ds(3) ds(4) [of root "[f]"] that by simp
  qed
qed

lemma cert_file_path:
  assumes "valid_hostname h" "clean_root root" "plain_component f"
  shows "cert_file root h f = path_Join [root, certificateDirectoryName h, f]"
proof -
  obtain cs ds where c: "cs \<noteq> []" "list_all plain_component cs" "list_all plain_component ds" "ds \<noteq> []"
    "cert_dir root h = CHR ''/'' # Join (cs @ ds) ''/''"
    "\<And>f. plain_component f \<Longrightarrow> path_Join [root, certificateDirectoryName h, f] = CHR ''/'' # Join (cs @ ds @ [f]) ''/''"
    using cert_dir_components [OF assms(1,2)] by metis
  have "path_Join [CHR ''/'' # Join (cs @ ds) ''/'', f] = CHR ''/'' # Join ((cs @ ds) @ [f]) ''/''"
    using c assms(3) by (intro path_Join_plain) auto
  then show ?thesis using c(5,6) assms(3) by (simp add: cert_file_def)
qed

lemma cert_file_inj:
  assumes "valid_hostname h" "valid_hostname h'" "clean_root root" "plain_component f" "plain_component f'"
    "cert_file root h f = cert_file root h' f'"
  shows "h = h' \<and> f = f'"
proof -
  note e = assms(6) [unfolded cert_file_path [OF assms(1,3,4)] cert_file_path [OF assms(2,3,5)]]
  have h: "h = h'"
    using hostname_of_cert_path [OF assms(1,3,4)] hostname_of_cert_path [OF assms(2,3,5)] e by simp
  obtain cs ds where c: "list_all plain_component cs" "list_all plain_component ds"
    "\<And>f. plain_component f \<Longrightarrow> path_Join [root, certificateDirectoryName h, f] = CHR ''/'' # Join (cs @ ds @ [f]) ''/''"
    using cert_dir_components [OF assms(1,3)] by metis
  have s: "Split (Join (cs @ ds @ [g]) ''/'') (CHR ''/'') = cs @ ds @ [g]" if "plain_component g" for g
    using c(1,2) that by (intro Split_plain) auto
  have "Join (cs @ ds @ [f]) ''/'' = Join (cs @ ds @ [f']) ''/''"
    using e c(3) [OF assms(4)] c(3) [OF assms(5)] unfolding h [symmetric] by (simp only: list.inject)
  then have "cs @ ds @ [f] = cs @ ds @ [f']" by (metis s assms(4,5))
  then show ?thesis using h by simp
qed

lemma cert_names [simp]: "plain_component ''tls.crt''" "plain_component ''tls.key''" "plain_component ''metadata.json''"
  by (simp_all add: plain_component_def)

lemma Put_files:
  assumes "\<forall>p. write_err env p = None"
  shows "PutCertificateBundle env render (Some b) s = (Inr (), s\<lparr>ls_files := (ls_files s)
    (cert_file (ls_certRoot s) (cb_Hostname b) ''tls.crt'' \<mapsto> cb_TLSCrt b,
     cert_file (ls_certRoot s) (cb_Hostname b) ''tls.key'' \<mapsto> cb_TLSKey b,
     cert_file (ls_certRoot s) (cb_Hostname b) ''metadata.json'' \<mapsto> bundle_metadata render b)\<rparr>)"
  using assms by (simp add: PutCertificateBundle_def writeCertificateBundle_def bundle_metadata_def Let_def)

lemma valid_hostname_trim:
  assumes "valid_hostname h"
  shows "TrimSpace h \<noteq> []"
proof -
  have "ToLower (TrimSpace h) \<noteq> []"
    using valid_hostname_plain(1) [OF assms] valid_hostname_not_Nil [OF assms] by (simp add: TrimSpace_ToLower)
  then show ?thesis by simp
qed

lemma candidate_first:
  assumes "valid_hostname h"
  shows "\<exists>cands. certificateCandidates h = h # cands"
proof -
  have "Split h (CHR ''.'') ! 0 \<noteq> []"
  proof -
    from assms obtain ls where ls: "ls \<noteq> []" "list_all hostnameLabelPattern ls"
      and h: "h = Join ls ''.'' \<or> h = ''*.'' @ Join ls ''.''" by (auto simp: valid_hostname_def)
    have "hd ls \<noteq> []" using ls hostnameLabelPattern_not_Nil by (cases ls) auto
    then show ?thesis using h labels_joined(8) [OF ls] ls(1) by (auto simp: hd_conv_nth)
  qed
  then show ?thesis using sanitizeHostname_fixed [OF assms] by (simp add: certificateCandidates_def Let_def)
qed

lemma stored_certificate_found:
  assumes "valid_hostname h" "clean_root root" "fs (cert_file root h ''tls.crt'') = Some a" "fs (cert_file root h ''tls.key'') = Some b"
  shows "disk_certificate load fs root h = load a b"
proof -
  obtain cands where c: "certificateCandidates h = h # cands" using candidate_first [OF assms(1)] by blast
  have "load_pairs load fs (lookupPaths root h) = Some (load a b)"
    using assms(3,4) by (simp add: lookupPaths_def crt_path_def key_path_def cert_file_path [OF assms(1,2)])
  then show ?thesis
    using c sanitizeHostname_fixed [OF assms(1)] valid_hostname_not_Nil [OF assms(1)] by (simp add: disk_certificate_def)
qed



end
