(* ===== verification/Hub.thy ===== *)
theory Hub
  imports Proto_Shim
begin

text \<open>
  The fan-out hub of \<^verbatim>\<open>engine/master/hub.go\<close>: subscriptions by node and subscription id, each
  with a buffered channel.  A channel is its capacity and the notices waiting in it.  A send
  to a full channel is dropped, as in the \<^verbatim>\<open>select\<close> statements with an empty default branch.
  \<open>hub_recv\<close> is the receive of the loop in \<^verbatim>\<open>handleSubscribe\<close> (\<^verbatim>\<open>engine/master/engine.go\<close>).

  The lemmas show that subscription ids are never reused, that one subscriber never
  disturbs another, and that a subscriber sees the published notices in order, without
  loss while its channel does not overflow.
\<close>

record channel =
  ch_cap :: nat
  ch_buf :: "ChangeNotification list"

record Hub =
  subscribers :: "(string \<times> (64 word \<times> channel) list) list"
  nextID :: "64 word"

definition NewHub :: Hub where
  "NewHub = \<lparr>subscribers = [], nextID = 0\<rparr>"

definition node_subs :: "string \<Rightarrow> Hub \<Rightarrow> (64 word \<times> channel) list" where
  "node_subs nodeID h = (case map_of (subscribers h) nodeID of None \<Rightarrow> [] | Some m \<Rightarrow> m)"

definition hub_Subscribe :: "string \<Rightarrow> nat \<Rightarrow> Hub \<Rightarrow> 64 word \<times> Hub" where
  "hub_Subscribe nodeID buffer h = (
     let i = nextID h + 1;
         m = AList.update i \<lparr>ch_cap = buffer, ch_buf = []\<rparr> (node_subs nodeID h) in
     (i, h\<lparr>nextID := i, subscribers := AList.update nodeID m (subscribers h)\<rparr>))"

definition hub_Unsubscribe :: "string \<Rightarrow> 64 word \<Rightarrow> Hub \<Rightarrow> Hub" where
  "hub_Unsubscribe nodeID i h = (case map_of (subscribers h) nodeID of
      None \<Rightarrow> h
    | Some m \<Rightarrow> (case map_of m i of
        None \<Rightarrow> h
      | Some ch \<Rightarrow>
          let m' = AList.delete i m in
          if m' = [] then h\<lparr>subscribers := AList.delete nodeID (subscribers h)\<rparr>
          else h\<lparr>subscribers := AList.update nodeID m' (subscribers h)\<rparr>))"

definition chan_send :: "ChangeNotification \<Rightarrow> channel \<Rightarrow> channel" where
  "chan_send n ch = (if length (ch_buf ch) < ch_cap ch then ch\<lparr>ch_buf := ch_buf ch @ [n]\<rparr> else ch)"

definition hub_Publish :: "string \<Rightarrow> ChangeNotification \<Rightarrow> Hub \<Rightarrow> Hub" where
  "hub_Publish nodeID n h = h\<lparr>subscribers :=
     map (\<lambda>(node, m). (node, if node = nodeID then map (\<lambda>(i, ch). (i, chan_send n ch)) m else m)) (subscribers h)\<rparr>"

definition hub_Boardcast :: "ChangeNotification \<Rightarrow> Hub \<Rightarrow> Hub" where
  "hub_Boardcast n h = h\<lparr>subscribers :=
     map (\<lambda>(node, m). (node, map (\<lambda>(i, ch). (i, chan_send n ch)) m)) (subscribers h)\<rparr>"

definition chan_of :: "string \<Rightarrow> 64 word \<Rightarrow> Hub \<Rightarrow> channel option" where
  "chan_of nodeID i h = map_of (node_subs nodeID h) i"

definition hub_recv :: "string \<Rightarrow> 64 word \<Rightarrow> Hub \<Rightarrow> ChangeNotification option \<times> Hub" where
  "hub_recv nodeID i h = (case chan_of nodeID i h of
      None \<Rightarrow> (None, h)
    | Some ch \<Rightarrow> (case ch_buf ch of
        [] \<Rightarrow> (None, h)
      | n # rest \<Rightarrow> (Some n, h\<lparr>subscribers := AList.update nodeID
          (AList.update i (ch\<lparr>ch_buf := rest\<rparr>) (node_subs nodeID h)) (subscribers h)\<rparr>)))"

section \<open>Histories\<close>

datatype hub_op =
    HSubscribe string nat
  | HUnsubscribe string "64 word"
  | HPublish string ChangeNotification
  | HBoardcast ChangeNotification
  | HRecv string "64 word"

fun hub_step :: "hub_op \<Rightarrow> Hub \<Rightarrow> Hub" where
  "hub_step (HSubscribe node buffer) h = snd (hub_Subscribe node buffer h)"
| "hub_step (HUnsubscribe node i) h = hub_Unsubscribe node i h"
| "hub_step (HPublish node n) h = hub_Publish node n h"
| "hub_step (HBoardcast n) h = hub_Boardcast n h"
| "hub_step (HRecv node i) h = snd (hub_recv node i h)"

text \<open>What one subscriber receives during a history, and what is published to it.\<close>

fun received :: "string \<Rightarrow> 64 word \<Rightarrow> hub_op list \<Rightarrow> Hub \<Rightarrow> ChangeNotification list" where
  "received node i [] h = []"
| "received node i (op # ops) h =
     (if op = HRecv node i then (case fst (hub_recv node i h) of None \<Rightarrow> [] | Some n \<Rightarrow> [n]) else []) @
     received node i ops (hub_step op h)"

fun published :: "string \<Rightarrow> hub_op list \<Rightarrow> ChangeNotification list" where
  "published node [] = []"
| "published node (HPublish node' n # ops) = (if node' = node then n # published node ops else published node ops)"
| "published node (HBoardcast n # ops) = n # published node ops"
| "published node (_ # ops) = published node ops"

text \<open>Subscription ids below the counter, one channel per id across all nodes.\<close>

definition hub_inv :: "Hub \<Rightarrow> bool" where
  "hub_inv h = (distinct (map fst (subscribers h)) \<and>
     (\<forall>(node, m) \<in> set (subscribers h). distinct (map fst m) \<and>
        (\<forall>(i, ch) \<in> set m. i \<le> nextID h \<and> length (ch_buf ch) \<le> ch_cap ch)))"

definition subs_ok :: "64 word \<Rightarrow> (64 word \<times> channel) list \<Rightarrow> bool" where
  "subs_ok n m = (distinct (map fst m) \<and> (\<forall>(i, ch) \<in> set m. i \<le> n \<and> length (ch_buf ch) \<le> ch_cap ch))"

section \<open>One step\<close>

lemma chan_Subscribe:
  "chan_of node j (snd (hub_Subscribe node' buffer h)) =
     (if node = node' \<and> j = nextID h + 1 then Some \<lparr>ch_cap = buffer, ch_buf = []\<rparr> else chan_of node j h)"
  by (auto simp: chan_of_def node_subs_def hub_Subscribe_def Let_def)

lemma chan_Unsubscribe:
  "(node, j) \<noteq> (node', i) \<Longrightarrow> chan_of node j (hub_Unsubscribe node' i h) = chan_of node j h"
proof (cases "map_of (subscribers h) node'")
  case (Some m)
  assume ne: "(node, j) \<noteq> (node', i)"
  have "map_of m j = None" if "AList.delete i m = []" "j \<noteq> i" for j
    using map_of_delete_apply [of i m j] that by simp
  then show ?thesis
    using Some ne by (auto simp: chan_of_def node_subs_def hub_Unsubscribe_def Let_def split: option.splits)
qed (simp add: hub_Unsubscribe_def)

lemma chan_Publish:
  "chan_of node j (hub_Publish node' n h) =
     (if node' = node then map_option (chan_send n) (chan_of node j h) else chan_of node j h)"
  by (auto simp: chan_of_def node_subs_def hub_Publish_def map_of_map_snd split: option.splits)

lemma chan_Boardcast: "chan_of node j (hub_Boardcast n h) = map_option (chan_send n) (chan_of node j h)"
  by (auto simp: chan_of_def node_subs_def hub_Boardcast_def map_of_map_snd split: option.splits)

lemma chan_recv:
  assumes "chan_of node i h = Some ch"
  shows "fst (hub_recv node i h) = (case ch_buf ch of [] \<Rightarrow> None | n # _ \<Rightarrow> Some n)"
    "chan_of node i (snd (hub_recv node i h)) = Some (ch\<lparr>ch_buf := tl (ch_buf ch)\<rparr>)"
  using assms by (auto simp: hub_recv_def chan_of_def node_subs_def split: option.splits list.splits)

lemma chan_recv_other:
  "(node, j) \<noteq> (node', i) \<Longrightarrow> chan_of node j (snd (hub_recv node' i h)) = chan_of node j h"
  by (auto simp: hub_recv_def chan_of_def node_subs_def split: option.splits list.splits)

section \<open>Invariant\<close>

lemma hub_inv_alt: "hub_inv h \<longleftrightarrow> distinct (map fst (subscribers h)) \<and> (\<forall>(node, m) \<in> set (subscribers h). subs_ok (nextID h) m)"
  by (auto simp: hub_inv_def subs_ok_def)

lemma hub_inv_node_subs: "hub_inv h \<Longrightarrow> subs_ok (nextID h) (node_subs node h)"
  by (auto simp: hub_inv_alt node_subs_def subs_ok_def [of _ "[]"] dest!: map_of_SomeD split: option.splits)

lemma hub_inv_update:
  "hub_inv h \<Longrightarrow> subs_ok (nextID h) m \<Longrightarrow> hub_inv (h\<lparr>subscribers := AList.update node m (subscribers h)\<rparr>)"
  by (auto simp: hub_inv_alt dest!: set_update_cases)

lemma subs_ok_update: "subs_ok n m \<Longrightarrow> i \<le> n \<Longrightarrow> length (ch_buf ch) \<le> ch_cap ch \<Longrightarrow> subs_ok n (AList.update i ch m)"
  by (auto simp: subs_ok_def dest!: set_update_cases)

lemma subs_ok_send: "subs_ok n m \<Longrightarrow> subs_ok n (map (\<lambda>(i, ch). (i, chan_send x ch)) m)"
  by (auto simp: subs_ok_def chan_send_def comp_def case_prod_beta)

lemma subs_ok_delete: "subs_ok n m \<Longrightarrow> subs_ok n (AList.delete i m)"
  by (auto simp: subs_ok_def dest!: set_delete_cases)

lemma subs_ok_mono: "subs_ok n m \<Longrightarrow> n \<le> n' \<Longrightarrow> subs_ok n' m"
  by (auto simp: subs_ok_def intro: order_trans)

lemma hub_inv_Subscribe:
  assumes "hub_inv h" "nextID h + 1 \<noteq> 0"
  shows "hub_inv (snd (hub_Subscribe node buffer h))"
proof -
  have le: "nextID h \<le> nextID h + 1" using word_inc_less [OF assms(2)] by simp
  have "hub_inv (h\<lparr>nextID := nextID h + 1\<rparr>)"
    using assms(1) subs_ok_mono [OF _ le] by (auto simp: hub_inv_alt)
  moreover have "subs_ok (nextID h + 1) (node_subs node h)"
    using hub_inv_node_subs [OF assms(1), of node] subs_ok_mono [OF _ le] by blast
  ultimately show ?thesis
    using hub_inv_update [of "h\<lparr>nextID := nextID h + 1\<rparr>" "AList.update (nextID h + 1) \<lparr>ch_cap = buffer, ch_buf = []\<rparr> (node_subs node h)" node]
    by (simp add: hub_Subscribe_def Let_def subs_ok_update)
qed

lemma hub_inv_Unsubscribe:
  assumes "hub_inv h"
  shows "hub_inv (hub_Unsubscribe node i h)"
proof -
  have "hub_inv (h\<lparr>subscribers := AList.delete node (subscribers h)\<rparr>)"
    using assms by (auto simp: hub_inv_alt dest!: set_delete_cases)
  moreover have "hub_inv (h\<lparr>subscribers := AList.update node (AList.delete i m) (subscribers h)\<rparr>)"
    if "map_of (subscribers h) node = Some m" for m
    using hub_inv_node_subs [OF assms, of node] that by (intro hub_inv_update [OF assms] subs_ok_delete) (simp add: node_subs_def)
  ultimately show ?thesis using assms by (simp add: hub_Unsubscribe_def Let_def split: option.splits)
qed

lemma hub_inv_recv:
  assumes "hub_inv h"
  shows "hub_inv (snd (hub_recv node i h))"
proof -
  have "subs_ok (nextID h) (AList.update i (ch\<lparr>ch_buf := rest\<rparr>) (node_subs node h))"
    if "chan_of node i h = Some ch" "ch_buf ch = n # rest" for ch n rest
    using that hub_inv_node_subs [OF assms, of node]
    by (intro subs_ok_update) (auto simp: chan_of_def subs_ok_def dest!: map_of_SomeD)
  then show ?thesis using assms by (auto simp: hub_recv_def hub_inv_update split: option.splits list.splits)
qed

lemma hub_inv_send: "hub_inv h \<Longrightarrow> hub_inv (hub_Publish node n h)" "hub_inv h \<Longrightarrow> hub_inv (hub_Boardcast n h)"
  using subs_ok_send by (auto simp: hub_Publish_def hub_Boardcast_def hub_inv_alt comp_def case_prod_beta)

lemma hub_inv_step: "hub_inv h \<Longrightarrow> nextID h + 1 \<noteq> 0 \<Longrightarrow> hub_inv (hub_step op h)"
  by (cases op) (simp_all add: hub_inv_Subscribe hub_inv_Unsubscribe hub_inv_recv hub_inv_send)

section \<open>The stream of one subscriber\<close>

lemma chan_step_keeps:
  assumes "chan_of node i h = Some ch" "op \<noteq> HUnsubscribe node i" "nextID h + 1 \<noteq> i"
  shows "\<exists>ch'. chan_of node i (hub_step op h) = Some ch' \<and> ch_cap ch' = ch_cap ch"
  using assms
proof (cases op)
  case (HRecv node' j)
  then show ?thesis using assms chan_recv(2) [OF assms(1)] chan_recv_other [of node i node' j h]
    by (cases "(node, i) = (node', j)") auto
qed (auto simp: chan_Subscribe chan_Unsubscribe chan_Publish chan_Boardcast chan_send_def)

text \<open>Ids given out later are larger, so a live subscription is never overwritten.\<close>

lemma next_id_other: "hub_inv h \<Longrightarrow> nextID h + 1 \<noteq> 0 \<Longrightarrow> chan_of node i h = Some ch \<Longrightarrow> nextID h + 1 \<noteq> i"
  using hub_inv_node_subs [of h node] word_inc_less [of "nextID h"]
  by (auto simp: chan_of_def subs_ok_def dest!: map_of_SomeD)

lemma step_counter:
  assumes "unat (nextID h) + Suc n < 2 ^ 64"
  shows "nextID h + 1 \<noteq> 0" "unat (nextID (hub_step op h)) + n < 2 ^ 64"
proof -
  show nz: "nextID h + 1 \<noteq> 0"
  proof
    assume "nextID h + 1 = 0"
    then have "nextID h = - 1" by (rule max_word_wrap)
    then show False using assms by (simp add: unsigned_minus_1_eq_mask mask_eq_exp_minus_1)
  qed
  have "nextID (hub_step op h) = nextID h \<or> nextID (hub_step op h) = nextID h + 1"
    by (cases op) (auto simp: hub_Subscribe_def Let_def hub_Unsubscribe_def hub_Publish_def hub_Boardcast_def
        hub_recv_def split: option.splits list.splits)
  then show "unat (nextID (hub_step op h)) + n < 2 ^ 64" using assms word_inc_unat [OF nz] by auto
qed

lemma subscriber_step:
  assumes "chan_of node i h = Some ch" "op \<noteq> HUnsubscribe node i" "nextID h + 1 \<noteq> i"
    "chan_of node i (hub_step op h) = Some ch'"
  shows "(if op = HRecv node i then (case fst (hub_recv node i h) of None \<Rightarrow> [] | Some n \<Rightarrow> [n]) else []) @ ch_buf ch'
     = ch_buf ch @ published node [op] \<or>
     (length (ch_buf ch) \<ge> ch_cap ch \<and> op \<noteq> HRecv node i \<and> ch_buf ch' = ch_buf ch)"
proof (cases op)
  case (HRecv node' j)
  then show ?thesis using assms chan_recv [OF assms(1)] chan_recv_other [of node i node' j h]
    by (cases "(node, i) = (node', j)") (auto split: list.splits)
qed (use assms in \<open>auto simp: chan_Subscribe chan_Unsubscribe chan_Publish chan_Boardcast chan_send_def split: if_splits\<close>)

lemma published_Cons: "published node (op # ops) = published node [op] @ published node ops"
  by (cases op) auto

lemma subscriber_stream:
  assumes "hub_inv h" "unat (nextID h) + length ops < 2 ^ 64" "chan_of node i h = Some ch" "HUnsubscribe node i \<notin> set ops"
  shows "\<exists>ch'. chan_of node i (fold hub_step ops h) = Some ch' \<and> ch_cap ch' = ch_cap ch \<and>
     length (ch_buf ch') \<le> ch_cap ch \<and>
     subseq (received node i ops h @ ch_buf ch') (ch_buf ch @ published node ops) \<and>
     (length (ch_buf ch) + length (published node ops) \<le> ch_cap ch \<longrightarrow>
        received node i ops h @ ch_buf ch' = ch_buf ch @ published node ops)"
  using assms
proof (induction ops arbitrary: h ch)
  case Nil
  then have "length (ch_buf ch) \<le> ch_cap ch"
    using hub_inv_node_subs [of h node] by (auto simp: chan_of_def subs_ok_def dest!: map_of_SomeD)
  then show ?case using Nil by simp
next
  case (Cons op ops)
  let ?h = "hub_step op h"
  let ?r = "if op = HRecv node i then (case fst (hub_recv node i h) of None \<Rightarrow> [] | Some n \<Rightarrow> [n]) else []"
  have c: "nextID h + 1 \<noteq> 0" "unat (nextID ?h) + length ops < 2 ^ 64"
    using step_counter(1) [of h "length ops"] step_counter(2) [of h "length ops" op] Cons.prems(2) by auto
  have i: "nextID h + 1 \<noteq> i" using next_id_other [OF Cons.prems(1) c(1) Cons.prems(3)] .
  have ne: "op \<noteq> HUnsubscribe node i" "HUnsubscribe node i \<notin> set ops" using Cons.prems(4) by auto
  obtain ch1 where ch1: "chan_of node i ?h = Some ch1" "ch_cap ch1 = ch_cap ch"
    using chan_step_keeps [OF Cons.prems(3) ne(1) i] by blast
  obtain ch' where IH: "chan_of node i (fold hub_step ops ?h) = Some ch'" "ch_cap ch' = ch_cap ch" "length (ch_buf ch') \<le> ch_cap ch"
    "subseq (received node i ops ?h @ ch_buf ch') (ch_buf ch1 @ published node ops)"
    "length (ch_buf ch1) + length (published node ops) \<le> ch_cap ch \<longrightarrow>
        received node i ops ?h @ ch_buf ch' = ch_buf ch1 @ published node ops"
    using Cons.IH [OF hub_inv_step [OF Cons.prems(1) c(1)] c(2) ch1(1) ne(2)] ch1(2) by auto
  from subscriber_step [OF Cons.prems(3) ne(1) i ch1(1)]
  have "subseq (?r @ received node i ops ?h @ ch_buf ch') (ch_buf ch @ published node (op # ops)) \<and>
     (length (ch_buf ch) + length (published node (op # ops)) \<le> ch_cap ch \<longrightarrow>
        ?r @ received node i ops ?h @ ch_buf ch' = ch_buf ch @ published node (op # ops))"
  proof
    assume e: "?r @ ch_buf ch1 = ch_buf ch @ published node [op]"
    then have l: "length (ch_buf ch1) \<le> length (ch_buf ch) + length (published node [op])"
      by (metis le_add2 length_append)
    have p: "ch_buf ch @ published node (op # ops) = ?r @ ch_buf ch1 @ published node ops"
      using e by (simp add: published_Cons [of node op ops])
    have "subseq (?r @ received node i ops ?h @ ch_buf ch') (?r @ ch_buf ch1 @ published node ops)"
      using IH(4) by (simp add: subseq_append')
    then show ?thesis unfolding p using IH(5) l published_Cons [of node op ops] by auto
  next
    assume f: "length (ch_buf ch) \<ge> ch_cap ch \<and> op \<noteq> HRecv node i \<and> ch_buf ch1 = ch_buf ch"
    have "subseq (ch_buf ch @ published node ops) (ch_buf ch @ published node [op] @ published node ops)"
      by (intro list_emb_append_mono subseq_append' list_emb_append2) auto
    then have "subseq (received node i ops ?h @ ch_buf ch') (ch_buf ch @ published node (op # ops))"
      using IH(4) f published_Cons [of node op ops] by (metis subseq_order.order_trans)
    moreover have "length (published node [op]) = 0" if "length (ch_buf ch) + length (published node (op # ops)) \<le> ch_cap ch"
      using that f arg_cong [OF published_Cons [of node op ops], of length] unfolding length_append by linarith
    ultimately show ?thesis using f IH(5) published_Cons [of node op ops] by auto
  qed
  then show ?case using IH(1-3) by auto
qed

section \<open>Properties\<close>

text \<open>C7. From the moment it subscribes until it unsubscribes, whatever other subscribers do, a
  subscriber's channel never holds more than its capacity, and what it has received followed
  by what still waits in its channel is a subsequence of the notices published to it, in
  publication order; if no more notices are published than fit its buffer, none is lost.\<close>
theorem hub_delivers_in_order:
  assumes "hub_inv h0" "unat (nextID h0) + Suc (length ops) < 2 ^ 64"
    and "hub_Subscribe node buffer h0 = (i, h)" "HUnsubscribe node i \<notin> set ops"
  shows "\<exists>ch. chan_of node i (fold hub_step ops h) = Some ch \<and> length (ch_buf ch) \<le> buffer \<and>
     subseq (received node i ops h @ ch_buf ch) (published node ops) \<and>
     (length (published node ops) \<le> buffer \<longrightarrow> received node i ops h @ ch_buf ch = published node ops)"
proof -
  have h: "h = hub_step (HSubscribe node buffer) h0" "i = nextID h0 + 1"
    using assms(3) by (auto simp: hub_Subscribe_def Let_def)
  have c: "nextID h0 + 1 \<noteq> 0" "unat (nextID h) + length ops < 2 ^ 64"
    using step_counter(1) [of h0 "length ops"] step_counter(2) [of h0 "length ops" "HSubscribe node buffer"] assms(2) h by auto
  have "hub_inv h" using hub_inv_step [OF assms(1) c(1), of "HSubscribe node buffer"] h by simp
  moreover have "chan_of node i h = Some \<lparr>ch_cap = buffer, ch_buf = []\<rparr>" using h by (simp add: chan_Subscribe)
  ultimately show ?thesis using subscriber_stream [of h ops node i "\<lparr>ch_cap = buffer, ch_buf = []\<rparr>"] c(2) assms(4) by auto
qed

theorem hub_delivers_in_order_witness:
  "\<exists>ch. chan_of ''n'' 1 (fold hub_step
       [HBoardcast zero_ChangeNotification, HSubscribe ''m'' 1, HRecv ''n'' 1, HPublish ''n'' (zero_ChangeNotification\<lparr>cn_SnapshotRecordID := 7\<rparr>)]
       (snd (hub_Subscribe ''n'' 2 NewHub))) = Some ch \<and>
     received ''n'' 1
       [HBoardcast zero_ChangeNotification, HSubscribe ''m'' 1, HRecv ''n'' 1, HPublish ''n'' (zero_ChangeNotification\<lparr>cn_SnapshotRecordID := 7\<rparr>)]
       (snd (hub_Subscribe ''n'' 2 NewHub)) @ ch_buf ch
     = [zero_ChangeNotification, zero_ChangeNotification\<lparr>cn_SnapshotRecordID := 7\<rparr>]"
proof -
  let ?ops = "[HBoardcast zero_ChangeNotification, HSubscribe ''m'' 1, HRecv ''n'' 1, HPublish ''n'' (zero_ChangeNotification\<lparr>cn_SnapshotRecordID := 7\<rparr>)]"
  have "hub_inv NewHub" by (simp add: hub_inv_def NewHub_def)
  moreover have "hub_Subscribe ''n'' 2 NewHub = (1, snd (hub_Subscribe ''n'' 2 NewHub))"
    by (simp add: hub_Subscribe_def NewHub_def Let_def)
  moreover have "unat (nextID NewHub) + Suc (length ?ops) < 2 ^ 64" by (simp add: NewHub_def)
  moreover have "published ''n'' ?ops = [zero_ChangeNotification, zero_ChangeNotification\<lparr>cn_SnapshotRecordID := 7\<rparr>]" by simp
  ultimately show ?thesis
    using hub_delivers_in_order [of NewHub ?ops "''n''" 2 1 "snd (hub_Subscribe ''n'' 2 NewHub)"] by fastforce
qed

end
