(* ===== verification/Master.thy ===== *)
theory Master
  imports Repository Hub
begin

text \<open>
  The replication side of the master: the change log and the broadcasts of
  \<^verbatim>\<open>engine/master/hub.go\<close> and the handlers of \<^verbatim>\<open>engine/master/engine.go\<close>.

  The state is the database, the hub and the node name.  The clock is a parameter.  A
  handler that streams is a function of what the transport answers to each \<^verbatim>\<open>send\<close>; it
  returns the messages sent, in order, and its result.

  The lemmas describe the stream of \<^verbatim>\<open>handleGetSnapshot\<close>: its chunks are bounded, carry the
  rows the log names in order, end with one marked last, and never mention a deleted row.
\<close>

record master =
  NODE_ID :: string
  m_db :: database
  m_hub :: Hub

section \<open>Change log and broadcasts\<close>

definition appendSnapshotRecord :: "SnapshotSyncType \<Rightarrow> string \<Rightarrow> SnapshotAction \<Rightarrow> master \<Rightarrow> (64 word) result \<times> master" where
  "appendSnapshotRecord syncType syncID action e = (
     case AppendSnapshotRecord \<lparr>sr_ID = 0, sr_SyncType = syncType, sr_SyncID = syncID, sr_Action = action, sr_CreatedAt = time_Zero\<rparr> (m_db e) of
       Inl err \<Rightarrow> (Inl err, e)
     | Inr (i, db) \<Rightarrow> (Inr i, e\<lparr>m_db := db\<rparr>))"

definition BoardcastDNSRecord :: "time \<Rightarrow> string \<Rightarrow> master \<Rightarrow> unit result \<times> master" where
  "BoardcastDNSRecord now recordID e = (case GetDNSRecord recordID (m_db e) of
      Inl err \<Rightarrow> (if err = ErrRecordNotFound then Inr () else Inl err, e)
    | Inr record \<Rightarrow>
        let snapshotAction = (if Deleted record then SnapshotActionDelete else SnapshotActionUpsert) in
        (case appendSnapshotRecord SnapshotSyncTypeDNSRecord recordID snapshotAction e of
           (Inl err, e') \<Rightarrow> (Inl err, e')
         | (Inr i, e') \<Rightarrow> (Inr (), e'\<lparr>m_hub := hub_Boardcast \<lparr>cn_NodeID = NODE_ID e', cn_CreatedAt = now, cn_SnapshotRecordID = i,
             cn_DNSRecord = Some record, cn_DomainEntry = None\<rparr> (m_hub e')\<rparr>)))"

definition BoardcastDomainEndpointProjection :: "time \<Rightarrow> string \<Rightarrow> master \<Rightarrow> unit result \<times> master" where
  "BoardcastDomainEndpointProjection now hostname e = (case GetDomainEntryProjectionByDomain hostname (m_db e) of
      Inl err \<Rightarrow> (if err = ErrRecordNotFound then Inr () else Inl err, e)
    | Inr entry \<Rightarrow>
        let snapshotAction = (if dp_Deleted entry then SnapshotActionDelete else SnapshotActionUpsert) in
        (case appendSnapshotRecord SnapshotSyncTypeDomainEntryProjection hostname snapshotAction e of
           (Inl err, e') \<Rightarrow> (Inl err, e')
         | (Inr i, e') \<Rightarrow> (Inr (), e'\<lparr>m_hub := hub_Boardcast \<lparr>cn_NodeID = NODE_ID e', cn_CreatedAt = now, cn_SnapshotRecordID = i,
             cn_DNSRecord = None, cn_DomainEntry = Some entry\<rparr> (m_hub e')\<rparr>)))"

text \<open>The second half of \<^verbatim>\<open>BoardcastDomainEndpointProjection\<close>: the log record and the notice for an entry read
  before.  Nothing serialises it with the reading half.\<close>

definition publish_entry :: "time \<Rightarrow> string \<Rightarrow> DomainEntryProjection \<Rightarrow> master \<Rightarrow> unit result \<times> master" where
  "publish_entry now hostname entry e = (
     let snapshotAction = (if dp_Deleted entry then SnapshotActionDelete else SnapshotActionUpsert) in
     (case appendSnapshotRecord SnapshotSyncTypeDomainEntryProjection hostname snapshotAction e of
        (Inl err, e') \<Rightarrow> (Inl err, e')
      | (Inr i, e') \<Rightarrow> (Inr (), e'\<lparr>m_hub := hub_Boardcast \<lparr>cn_NodeID = NODE_ID e', cn_CreatedAt = now, cn_SnapshotRecordID = i,
          cn_DNSRecord = None, cn_DomainEntry = Some entry\<rparr> (m_hub e')\<rparr>)))"

section \<open>Snapshots\<close>

text \<open>The variables of \<^verbatim>\<open>handleGetSnapshot\<close>, with the chunks sent so far.\<close>

record snapshot_loop =
  sl_chunk :: Snapshot
  sl_count :: nat
  sl_lastSeen :: "64 word"
  sl_sent :: "Snapshot list"

definition new_chunk :: "string \<Rightarrow> time \<Rightarrow> Snapshot" where
  "new_chunk nodeID now = \<lparr>sn_NodeID = nodeID, sn_CreatedAt = now, sn_SnapshotRecordID = 0, sn_DNSRecords = [], sn_DomainEntries = [],
     sn_Last = False\<rparr>"

text \<open>\<open>send\<close> gives the answer of the transport to the n-th chunk.\<close>

definition sendChunk :: "(nat \<Rightarrow> error option) \<Rightarrow> string \<Rightarrow> time \<Rightarrow> bool \<Rightarrow> snapshot_loop \<Rightarrow> unit result \<times> snapshot_loop" where
  "sendChunk send nodeID now isLast l = (
     let chunk = (sl_chunk l)\<lparr>sn_Last := isLast, sn_SnapshotRecordID := sl_lastSeen l\<rparr> in
     if sn_DNSRecords chunk = [] \<and> sn_DomainEntries chunk = [] \<and> \<not> isLast then (Inr (), l\<lparr>sl_chunk := chunk\<rparr>)
     else case send (length (sl_sent l)) of
       Some err \<Rightarrow> (Inl err, l\<lparr>sl_chunk := chunk\<rparr>)
     | None \<Rightarrow> (Inr (), l\<lparr>sl_chunk := new_chunk nodeID now, sl_count := 0, sl_sent := sl_sent l @ [chunk]\<rparr>))"

definition collect_record :: "database \<Rightarrow> SnapshotRecord \<Rightarrow> snapshot_loop \<Rightarrow> snapshot_loop" where
  "collect_record db record l0 = (
     let l = l0\<lparr>sl_lastSeen := sr_ID record\<rparr> in
     if sr_SyncType record = SnapshotSyncTypeDNSRecord then
       (case GetDNSRecord (sr_SyncID record) db of
          Inr item \<Rightarrow> l\<lparr>sl_chunk := (sl_chunk l)\<lparr>sn_DNSRecords := sn_DNSRecords (sl_chunk l) @ [item]\<rparr>, sl_count := sl_count l + 1\<rparr>
        | Inl _ \<Rightarrow> l)
     else if sr_SyncType record = SnapshotSyncTypeDomainEntryProjection then
       (case GetDomainEntryProjectionByDomain (sr_SyncID record) db of
          Inr item \<Rightarrow> l\<lparr>sl_chunk := (sl_chunk l)\<lparr>sn_DomainEntries := sn_DomainEntries (sl_chunk l) @ [item]\<rparr>, sl_count := sl_count l + 1\<rparr>
        | Inl _ \<Rightarrow> l)
     else l)"

fun snapshot_records_loop :: "(nat \<Rightarrow> error option) \<Rightarrow> string \<Rightarrow> time \<Rightarrow> database \<Rightarrow> SnapshotRecord list \<Rightarrow> snapshot_loop \<Rightarrow>
    unit result \<times> snapshot_loop" where
  "snapshot_records_loop send nodeID now db [] l = sendChunk send nodeID now True l"
| "snapshot_records_loop send nodeID now db (r # rs) l = (
     let l' = collect_record db r l in
     if sl_count l' \<ge> 1000 then
       (case sendChunk send nodeID now False l' of
          (Inl err, l'') \<Rightarrow> (Inl err, l'')
        | (Inr _, l'') \<Rightarrow> snapshot_records_loop send nodeID now db rs l'')
     else snapshot_records_loop send nodeID now db rs l')"

definition handleGetSnapshot :: "(nat \<Rightarrow> error option) \<Rightarrow> time \<Rightarrow> string \<Rightarrow> 64 word \<Rightarrow> master \<Rightarrow> unit result \<times> Snapshot list" where
  "handleGetSnapshot send now nodeID snapshotRecordID e = (case ListSnapshotRecordsAfter snapshotRecordID (m_db e) of
      Inl err \<Rightarrow> (Inl err, [])
    | Inr records \<Rightarrow>
        (case snapshot_records_loop send nodeID now (m_db e) records
            \<lparr>sl_chunk = new_chunk nodeID now, sl_count = 0, sl_lastSeen = snapshotRecordID, sl_sent = []\<rparr> of
           (res, l) \<Rightarrow> (res, sl_sent l)))"

section \<open>Subscriptions and bundles\<close>

text \<open>What the \<^verbatim>\<open>select\<close> of \<^verbatim>\<open>handleSubscribe\<close> finds ready: the end of the context, or the channel.\<close>

datatype subscribe_event = CtxDone error | ChanReady

definition copy_notice :: "ChangeNotification \<Rightarrow> ChangeNotification" where
  "copy_notice n = \<lparr>cn_NodeID = cn_NodeID n, cn_CreatedAt = cn_CreatedAt n, cn_SnapshotRecordID = cn_SnapshotRecordID n,
     cn_DNSRecord = cn_DNSRecord n, cn_DomainEntry = cn_DomainEntry n\<rparr>"

text \<open>The result is \<^const>\<open>None\<close> while the handler is still waiting.\<close>

fun subscribe_events :: "(nat \<Rightarrow> error option) \<Rightarrow> string \<Rightarrow> 64 word \<Rightarrow> subscribe_event list \<Rightarrow> ChangeNotification list \<Rightarrow> Hub \<Rightarrow>
    unit result option \<times> ChangeNotification list \<times> Hub" where
  "subscribe_events send nodeID subID [] sent h = (None, sent, h)"
| "subscribe_events send nodeID subID (CtxDone err # evs) sent h = (Some (Inl err), sent, hub_Unsubscribe nodeID subID h)"
| "subscribe_events send nodeID subID (ChanReady # evs) sent h = (case chan_of nodeID subID h of
      None \<Rightarrow> (Some (Inr ()), sent, hub_Unsubscribe nodeID subID h)
    | Some _ \<Rightarrow> (case hub_recv nodeID subID h of
        (None, h') \<Rightarrow> subscribe_events send nodeID subID evs sent h'
      | (Some notice, h') \<Rightarrow> (case send (length sent) of
          Some err \<Rightarrow> (Some (Inl err), sent, hub_Unsubscribe nodeID subID h')
        | None \<Rightarrow> subscribe_events send nodeID subID evs (sent @ [copy_notice notice]) h')))"

definition handleSubscribe :: "(nat \<Rightarrow> error option) \<Rightarrow> string \<Rightarrow> subscribe_event list \<Rightarrow> Hub \<Rightarrow>
    unit result option \<times> ChangeNotification list \<times> Hub" where
  "handleSubscribe send nodeID evs h = (case hub_Subscribe nodeID 128 h of
      (subID, h') \<Rightarrow> subscribe_events send nodeID subID evs [] h')"

definition handleFetchCertificateBundle :: "(string \<Rightarrow> 64 word \<Rightarrow> CertificateBundle option result) option \<Rightarrow> string \<Rightarrow> 64 word \<Rightarrow>
    CertificateBundle result" where
  "handleFetchCertificateBundle bundles hostname revision = (case bundles of
      None \<Rightarrow> Inl (Err ''certificate bundle provider is not configured'')
    | Some fetch \<Rightarrow> (case fetch hostname revision of
        Inl err \<Rightarrow> Inl err
      | Inr None \<Rightarrow> Inl (Err ''certificate bundle not found'')
      | Inr (Some bundle) \<Rightarrow> Inr \<lparr>cb_Hostname = cb_Hostname bundle, cb_Revision = cb_Revision bundle, cb_TLSCrt = cb_TLSCrt bundle,
          cb_TLSKey = cb_TLSKey bundle, cb_MetadataJSON = cb_MetadataJSON bundle\<rparr>))"

section \<open>Specification\<close>

text \<open>The rows that the records of the log name, in order.\<close>

fun logged_dns :: "database \<Rightarrow> SnapshotRecord list \<Rightarrow> DNSRecord list" where
  "logged_dns db [] = []"
| "logged_dns db (r # rs) = (if sr_SyncType r = SnapshotSyncTypeDNSRecord then
     (case GetDNSRecord (sr_SyncID r) db of Inr item \<Rightarrow> item # logged_dns db rs | Inl _ \<Rightarrow> logged_dns db rs)
     else logged_dns db rs)"

fun logged_entries :: "database \<Rightarrow> SnapshotRecord list \<Rightarrow> DomainEntryProjection list" where
  "logged_entries db [] = []"
| "logged_entries db (r # rs) = (if sr_SyncType r = SnapshotSyncTypeDomainEntryProjection then
     (case GetDomainEntryProjectionByDomain (sr_SyncID r) db of Inr item \<Rightarrow> item # logged_entries db rs | Inl _ \<Rightarrow> logged_entries db rs)
     else logged_entries db rs)"

definition resolvable :: "database \<Rightarrow> SnapshotRecord \<Rightarrow> bool" where
  "resolvable db r = (logged_dns db [r] \<noteq> [] \<or> logged_entries db [r] \<noteq> [])"

definition chunk_size :: "Snapshot \<Rightarrow> nat" where
  "chunk_size c = length (sn_DNSRecords c) + length (sn_DomainEntries c)"

text \<open>A correct stream of chunks for the records \<open>rs\<close>, when the rows \<open>ds\<close> and \<open>es\<close> wait in the
  current chunk and \<open>i\<close> is the last record seen.\<close>

definition good_stream :: "database \<Rightarrow> DNSRecord list \<Rightarrow> DomainEntryProjection list \<Rightarrow> 64 word \<Rightarrow> SnapshotRecord list \<Rightarrow> Snapshot list \<Rightarrow> bool" where
  "good_stream db ds es i rs cs = (
     cs \<noteq> [] \<and> sn_Last (last cs) \<and> (\<forall>c \<in> set (butlast cs). \<not> sn_Last c \<and> 0 < chunk_size c) \<and> (\<forall>c \<in> set cs. chunk_size c \<le> 1000) \<and>
     concat (map sn_DNSRecords cs) = ds @ logged_dns db rs \<and> concat (map sn_DomainEntries cs) = es @ logged_entries db rs \<and>
     (\<forall>c \<in> set cs. i \<le> sn_SnapshotRecordID c \<and> (sn_SnapshotRecordID c = i \<or> sn_SnapshotRecordID c \<in> sr_ID ` set rs)) \<and>
     (ds \<noteq> [] \<or> es \<noteq> [] \<longrightarrow> (\<exists>c \<in> set cs. 0 < chunk_size c)) \<and>
     (\<forall>r \<in> set rs. resolvable db r \<longrightarrow> (\<exists>c \<in> set cs. 0 < chunk_size c \<and> sr_ID r \<le> sn_SnapshotRecordID c)))"

definition chunk_avoids :: "string \<Rightarrow> Snapshot \<Rightarrow> bool" where
  "chunk_avoids h c = ((\<forall>x \<in> set (sn_DomainEntries c). \<not> dp_Deleted x \<and> dp_Hostname x \<noteq> h) \<and> (\<forall>r \<in> set (sn_DNSRecords c). \<not> Deleted r))"

lemma announce_halves:
  "GetDomainEntryProjectionByDomain hostname (m_db e) = Inr entry \<Longrightarrow>
   BoardcastDomainEndpointProjection now hostname e = publish_entry now hostname entry e"
  by (simp add: BoardcastDomainEndpointProjection_def publish_entry_def)

section \<open>The snapshot stream\<close>

lemma collect_record_spec:
  defines "d \<equiv> \<lambda>r db. logged_dns db [r]" and "e \<equiv> \<lambda>r db. logged_entries db [r]"
  shows "sl_lastSeen (collect_record db r l) = sr_ID r" "sl_sent (collect_record db r l) = sl_sent l"
    "sl_count (collect_record db r l) = sl_count l + length (d r db) + length (e r db)"
    "sn_DNSRecords (sl_chunk (collect_record db r l)) = sn_DNSRecords (sl_chunk l) @ d r db"
    "sn_DomainEntries (sl_chunk (collect_record db r l)) = sn_DomainEntries (sl_chunk l) @ e r db"
    "length (d r db) + length (e r db) \<le> 1"
  by (simp_all add: collect_record_def d_def e_def Let_def split: sum.splits)

lemma logged_Cons:
  "logged_dns db (r # rs) = logged_dns db [r] @ logged_dns db rs"
  "logged_entries db (r # rs) = logged_entries db [r] @ logged_entries db rs"
  by (simp_all split: sum.splits)

lemma sendChunk_ok:
  assumes "\<forall>n. send n = None" "isLast \<or> chunk_size (sl_chunk l) > 0"
  shows "sendChunk send nodeID now isLast l = (Inr (), l\<lparr>sl_chunk := new_chunk nodeID now, sl_count := 0,
    sl_sent := sl_sent l @ [(sl_chunk l)\<lparr>sn_Last := isLast, sn_SnapshotRecordID := sl_lastSeen l\<rparr>]\<rparr>)"
  using assms by (auto simp: sendChunk_def Let_def chunk_size_def)

lemma good_stream_last:
  assumes "chunk_size c \<le> 1000" "sn_Last c" "sn_SnapshotRecordID c = i"
  shows "good_stream db (sn_DNSRecords c) (sn_DomainEntries c) i [] [c]"
  using assms by (auto simp: good_stream_def chunk_size_def)

lemma good_stream_collect:
  assumes "good_stream db (ds @ logged_dns db [r]) (es @ logged_entries db [r]) (sr_ID r) rs cs" "i \<le> sr_ID r"
  shows "good_stream db ds es i (r # rs) cs"
proof -
  have res: "\<exists>c\<in>set cs. 0 < chunk_size c \<and> sr_ID r \<le> sn_SnapshotRecordID c" if "resolvable db r"
    using assms(1) that unfolding good_stream_def resolvable_def by blast
  show ?thesis
    using assms res unfolding good_stream_def
    by (auto simp: logged_Cons [of db r rs] simp del: logged_dns.simps logged_entries.simps intro: order_trans)
qed

lemma good_stream_send:
  assumes "good_stream db [] [] i rs cs" "0 < chunk_size c" "chunk_size c \<le> 1000" "\<not> sn_Last c" "sn_SnapshotRecordID c = i"
  shows "good_stream db (sn_DNSRecords c) (sn_DomainEntries c) i rs (c # cs)"
  using assms unfolding good_stream_def by auto

lemma snapshot_records_loop_ok:
  assumes "\<forall>n. send n = None" "sl_count l = chunk_size (sl_chunk l)" "sl_count l < 1000"
    "sorted (map sr_ID rs)" "\<forall>r \<in> set rs. sl_lastSeen l \<le> sr_ID r"
  shows "\<exists>l' cs. snapshot_records_loop send nodeID now db rs l = (Inr (), l') \<and> sl_sent l' = sl_sent l @ cs \<and>
    good_stream db (sn_DNSRecords (sl_chunk l)) (sn_DomainEntries (sl_chunk l)) (sl_lastSeen l) rs cs"
  using assms(2-5)
proof (induction rs arbitrary: l)
  case Nil
  let ?c = "(sl_chunk l)\<lparr>sn_Last := True, sn_SnapshotRecordID := sl_lastSeen l\<rparr>"
  have "good_stream db (sn_DNSRecords ?c) (sn_DomainEntries ?c) (sl_lastSeen l) [] [?c]"
    using Nil by (intro good_stream_last) (simp_all add: chunk_size_def)
  then show ?case using sendChunk_ok [OF assms(1), of True l nodeID now] by auto
next
  case (Cons r rs)
  let ?l = "collect_record db r l"
  note c = collect_record_spec(1-5) [of db r l] collect_record_spec(6) [of db r]
  have size: "sl_count ?l = chunk_size (sl_chunk ?l)" "chunk_size (sl_chunk ?l) \<le> 1000"
    using c(3-6) Cons.prems(1,2) by (simp_all add: chunk_size_def)
  have ord: "sorted (map sr_ID rs)" "\<forall>x \<in> set rs. sr_ID r \<le> sr_ID x" "sl_lastSeen l \<le> sr_ID r" using Cons.prems by auto
  show ?case
  proof (cases "sl_count ?l \<ge> 1000")
    case True
    let ?c = "(sl_chunk ?l)\<lparr>sn_Last := False, sn_SnapshotRecordID := sl_lastSeen ?l\<rparr>"
    let ?l2 = "?l\<lparr>sl_chunk := new_chunk nodeID now, sl_count := 0, sl_sent := sl_sent ?l @ [?c]\<rparr>"
    have send: "sendChunk send nodeID now False ?l = (Inr (), ?l2)"
      using sendChunk_ok [OF assms(1), of False ?l] size(1) True by simp
    obtain l' cs where l': "snapshot_records_loop send nodeID now db rs ?l2 = (Inr (), l')" "sl_sent l' = sl_sent ?l2 @ cs"
      "good_stream db [] [] (sr_ID r) rs cs"
      using Cons.IH [of ?l2] ord c(1) by (auto simp: new_chunk_def chunk_size_def)
    have "good_stream db (sn_DNSRecords ?c) (sn_DomainEntries ?c) (sr_ID r) rs (?c # cs)"
      using l'(3) size True c(1) by (intro good_stream_send) (simp_all add: chunk_size_def)
    then have "good_stream db (sn_DNSRecords (sl_chunk l)) (sn_DomainEntries (sl_chunk l)) (sl_lastSeen l) (r # rs) (?c # cs)"
      using ord(3) c(4,5) by (intro good_stream_collect) simp_all
    then show ?thesis using l' send True c(2) by (simp add: Let_def)
  next
    case False
    obtain l' cs where l': "snapshot_records_loop send nodeID now db rs ?l = (Inr (), l')" "sl_sent l' = sl_sent ?l @ cs"
      "good_stream db (sn_DNSRecords (sl_chunk ?l)) (sn_DomainEntries (sl_chunk ?l)) (sr_ID r) rs cs"
      using Cons.IH [of ?l] ord size False c(1) by auto
    have "good_stream db (sn_DNSRecords (sl_chunk l)) (sn_DomainEntries (sl_chunk l)) (sl_lastSeen l) (r # rs) cs"
      using l'(3) ord(3) c(4,5) by (intro good_stream_collect) simp_all
    then show ?thesis using l' False c(2) by (simp add: Let_def)
  qed
qed

lemma handleGetSnapshot_ok:
  assumes "\<forall>n. send n = None" "db_fault (m_db e) ''snapshot_records'' = None"
  shows "\<exists>cs. handleGetSnapshot send now nodeID c e = (Inr (), cs) \<and>
    good_stream (m_db e) [] [] c (sort_key sr_ID (filter (\<lambda>r. sr_ID r > c) (snapshot_records (m_db e)))) cs"
proof -
  let ?rs = "sort_key sr_ID (filter (\<lambda>r. sr_ID r > c) (snapshot_records (m_db e)))"
  let ?l = "\<lparr>sl_chunk = new_chunk nodeID now, sl_count = 0, sl_lastSeen = c, sl_sent = []\<rparr>"
  have "\<exists>l' cs. snapshot_records_loop send nodeID now (m_db e) ?rs ?l = (Inr (), l') \<and> sl_sent l' = sl_sent ?l @ cs \<and>
    good_stream (m_db e) (sn_DNSRecords (sl_chunk ?l)) (sn_DomainEntries (sl_chunk ?l)) (sl_lastSeen ?l) ?rs cs"
    by (rule snapshot_records_loop_ok [OF assms(1)]) (auto simp: new_chunk_def chunk_size_def)
  then show ?thesis using assms(2)
    by (auto simp: handleGetSnapshot_def ListSnapshotRecordsAfter_def new_chunk_def)
qed

section \<open>Broadcast rows are live\<close>

lemma GetResourceByField_live:
  assumes "GetResourceByField fault column pk field value rows = Inr r"
  shows "\<not> Deleted r \<and> r \<in> set rows"
proof -
  obtain col where "fault = None" "column field = Some col"
    using assms by (auto simp: GetResourceByField_def split: option.splits)
  then obtain rest where "sort_key pk (filter (\<lambda>r. \<not> Deleted r \<and> col r = value) rows) = r # rest"
    using assms by (auto simp: GetResourceByField_def split: list.splits)
  then have "r \<in> set (sort_key pk (filter (\<lambda>r. \<not> Deleted r \<and> col r = value) rows))" by simp
  then show ?thesis by simp
qed

lemma projection_not_deleted: "GetDomainEntryProjectionByDomain h db = Inr e \<Longrightarrow> \<not> dp_Deleted e"
  by (auto simp: GetDomainEntryProjectionByDomain_def zero_DomainEntryProjection_def Let_def split: option.splits list.splits if_splits)

lemma logged_live:
  "r \<in> set (logged_dns db rs) \<Longrightarrow> \<not> Deleted r" "e \<in> set (logged_entries db rs) \<Longrightarrow> \<not> dp_Deleted e"
proof -
  show "r \<in> set (logged_dns db rs) \<Longrightarrow> \<not> Deleted r"
    by (induction db rs rule: logged_dns.induct)
      (auto simp: GetDNSRecord_def dest: GetResourceByField_live split: if_splits sum.splits)
  show "e \<in> set (logged_entries db rs) \<Longrightarrow> \<not> dp_Deleted e"
    by (induction db rs rule: logged_entries.induct) (auto dest: projection_not_deleted split: if_splits sum.splits)
qed

text \<open>C17. A replica that asks for the changes after its cursor gets all of them, in order. When the transport
  accepts every message the stream is never empty, only its last chunk is marked last, every chunk holds at
  most 1000 rows and all but the last at least one; the chunks together carry exactly the live rows that the
  records of the log after the cursor name, in log order; their cursors lie between the replica's and the
  newest record and cover every record that still names a live row.\<close>

theorem snapshot_stream_complete:
  assumes "\<forall>n. send n = None" "db_fault (m_db e) ''snapshot_records'' = None"
  shows "\<exists>cs. handleGetSnapshot send now nodeID c e = (Inr (), cs) \<and>
    good_stream (m_db e) [] [] c (sort_key sr_ID (filter (\<lambda>r. sr_ID r > c) (snapshot_records (m_db e)))) cs"
  using handleGetSnapshot_ok [OF assms] .

theorem snapshot_stream_complete_witness:
  defines "db \<equiv> sample_db\<lparr>snapshot_records := [\<lparr>sr_ID = 5, sr_SyncType = SnapshotSyncTypeDomainEntryProjection, sr_SyncID = ''h'',
      sr_Action = SnapshotActionUpsert, sr_CreatedAt = 0\<rparr>]\<rparr>"
  defines "e \<equiv> \<lparr>NODE_ID = ''m'', m_db = db, m_hub = NewHub\<rparr>"
  shows "\<exists>cs. handleGetSnapshot (\<lambda>_. None) 0 ''n'' 2 e = (Inr (), cs) \<and> sn_Last (last cs) \<and>
    (\<exists>x. concat (map sn_DomainEntries cs) = [x] \<and> dp_Hostname x = ''h'' \<and> map hp_ID (dp_HTTPRoutes x) = [''r2'', ''r1''])"
proof -
  have ok: "\<forall>n. (\<lambda>_. None :: error option) n = None" "db_fault (m_db e) ''snapshot_records'' = None"
    by (simp_all add: e_def db_def sample_db_def empty_db_def)
  obtain cs where cs: "handleGetSnapshot (\<lambda>_. None) 0 ''n'' 2 e = (Inr (), cs)"
    "good_stream (m_db e) [] [] 2 (sort_key sr_ID (filter (\<lambda>r. sr_ID r > 2) (snapshot_records (m_db e)))) cs"
    using snapshot_stream_complete [OF ok] by blast
  have "sort_key sr_ID (filter (\<lambda>r. sr_ID r > 2) (snapshot_records (m_db e))) = snapshot_records db"
    by (simp add: e_def db_def)
  moreover have "logged_entries db (snapshot_records db) = [zero_DomainEntryProjection\<lparr>dp_Hostname := ''h'', dp_BackendType := BackendTypeL7HTTP,
      dp_Cert := Some (zero_CertificateRevision\<lparr>cr_ID := ''c2'', cr_Hostname := ''h'', cr_Revision := 2\<rparr>),
      dp_HTTPRoutes := map (project_route db) [zero_HTTPRoute\<lparr>hr_ID := ''r2'', hr_Hostname := ''h'', hr_Path := ''/api'', hr_Priority := 4, hr_BackendRefID := ''b''\<rparr>,
        zero_HTTPRoute\<lparr>hr_ID := ''r1'', hr_Hostname := ''h'', hr_Path := ''/'', hr_Priority := 1, hr_BackendRefID := ''b''\<rparr>]\<rparr>]"
    unfolding db_def by code_simp
  ultimately show ?thesis using cs by (auto simp: good_stream_def e_def project_route_def zero_DomainEntryProjection_def zero_HTTPRoute_def)
qed

section \<open>Deletions\<close>

lemma projection_absent:
  assumes "db_fault db ''domain_endpoints'' = None" "\<forall>de \<in> set (domain_endpoints db). de_Hostname de = h \<longrightarrow> Deleted de"
  shows "GetDomainEntryProjectionByDomain h db = Inl ErrRecordNotFound"
proof -
  have "filter (\<lambda>de. \<not> Deleted de \<and> de_Hostname de = h) (domain_endpoints db) = []" using assms(2) by (auto simp: filter_empty_conv)
  then have "projection_rows h db = []" unfolding projection_rows_def by simp
  then show ?thesis using assms(1) by (simp add: GetDomainEntryProjectionByDomain_def)
qed

lemma projection_host:
  assumes "GetDomainEntryProjectionByDomain h db = Inr x"
  shows "dp_Hostname x = h"
proof -
  have rows: "row \<in> set (projection_rows h db) \<Longrightarrow> de_Hostname (fst row) = h" for row
    unfolding projection_rows_def by auto
  obtain de cr hr rb bb rest where r: "projection_rows h db = (de, cr, hr, rb, bb) # rest" "dp_Hostname x = de_Hostname de"
    using assms by (auto simp: GetDomainEntryProjectionByDomain_def Let_def split: option.splits list.splits if_splits)
  then show ?thesis using rows [of "(de, cr, hr, rb, bb)"] by simp
qed

lemma collect_avoids:
  assumes "GetDomainEntryProjectionByDomain h db = Inl err" "chunk_avoids h (sl_chunk l)"
  shows "chunk_avoids h (sl_chunk (collect_record db r l))"
proof -
  have d: "\<not> Deleted x" if "GetDNSRecord (sr_SyncID r) db = Inr x" for x
    using that GetResourceByField_live unfolding GetDNSRecord_def by blast
  have e: "\<not> dp_Deleted x \<and> dp_Hostname x \<noteq> h" if "GetDomainEntryProjectionByDomain (sr_SyncID r) db = Inr x" for x
    using that projection_not_deleted projection_host assms(1) by fastforce
  show ?thesis using assms(2) d e by (auto simp: collect_record_def chunk_avoids_def Let_def split: sum.splits)
qed

lemma chunk_avoids_frame [simp]:
  "chunk_avoids h (c\<lparr>sn_Last := b, sn_SnapshotRecordID := i\<rparr>) = chunk_avoids h c" "chunk_avoids h (new_chunk nodeID now)"
  by (simp_all add: chunk_avoids_def new_chunk_def)

lemma sendChunk_avoids:
  assumes "sendChunk send nodeID now b l = (res, l')" "chunk_avoids h (sl_chunk l)" "\<forall>c \<in> set (sl_sent l). chunk_avoids h c"
  shows "chunk_avoids h (sl_chunk l') \<and> (\<forall>c \<in> set (sl_sent l'). chunk_avoids h c)"
  using assms by (auto simp: sendChunk_def Let_def split: if_splits option.splits)

lemma loop_avoids:
  assumes "snapshot_records_loop send nodeID now db rs l = (res, l')" "GetDomainEntryProjectionByDomain h db = Inl err"
    "chunk_avoids h (sl_chunk l)" "\<forall>c \<in> set (sl_sent l). chunk_avoids h c"
  shows "\<forall>c \<in> set (sl_sent l'). chunk_avoids h c"
  using assms(1,3,4)
proof (induction rs arbitrary: l)
  case Nil
  then show ?case using sendChunk_avoids [of send nodeID now True l res l' h] by simp
next
  case (Cons r rs)
  let ?l = "collect_record db r l"
  have a: "chunk_avoids h (sl_chunk ?l)" "\<forall>c \<in> set (sl_sent ?l). chunk_avoids h c"
    using collect_avoids [OF assms(2) Cons.prems(2)] Cons.prems(3) collect_record_spec(2) by simp_all
  obtain r2 l2 where s: "sendChunk send nodeID now False ?l = (r2, l2)" by (rule prod.exhaust)
  note b = sendChunk_avoids [OF s a]
  show ?case
  proof (cases "sl_count ?l \<ge> 1000")
    case True
    then show ?thesis using Cons.prems(1) s b Cons.IH [of l2] by (cases r2) (auto simp: Let_def)
  next
    case False
    then show ?thesis using Cons.prems(1) Cons.IH [of ?l] a by (simp add: Let_def)
  qed
qed



end
