(* ===== verification/Replication.thy ===== *)
theory Replication
  imports Master Slave
begin

text \<open>
  Master, transport and replica together.  The transport code is
  \<^verbatim>\<open>replication/replication_impl_server.go\<close> and \<^verbatim>\<open>replication_impl_client.go\<close>: every message is
  converted to its protobuf form and back.  gRPC itself is not part of the sources; a stream
  delivers the messages sent, in order, followed by the final status.

  A change is a DNS record or a domain entry, named by the type and the id that the
  change log uses.  The theory shows what a replica knows after catching up, and that over
  every interleaving of writes, announcements, notices and reconnections a replica agrees
  with the master on everything announced up to its cursor.
\<close>

section \<open>Transport\<close>

definition server_GetSnapshot :: "time \<Rightarrow> string \<Rightarrow> 64 word \<Rightarrow> master \<Rightarrow> unit result \<times> pb_Snapshot option list" where
  "server_GetSnapshot now nodeID c e = (case handleGetSnapshot (\<lambda>_. None) now nodeID c e of
      (res, cs) \<Rightarrow> (res, map (\<lambda>sn. SnapshotToProto (Some sn)) cs))"

text \<open>What \<^verbatim>\<open>Recv\<close> of the client returns, call after call.\<close>

definition client_GetSnapshot :: "time \<Rightarrow> master \<Rightarrow> get_snapshot" where
  "client_GetSnapshot now e nodeID c = (case server_GetSnapshot now nodeID c e of
      (res, msgs) \<Rightarrow> Inr (map (\<lambda>m. Inr (SnapshotFromProto m)) msgs @ [case res of Inr _ \<Rightarrow> Inl ErrEOF | Inl err \<Rightarrow> Inl err]))"

definition client_notice :: "ChangeNotification \<Rightarrow> (ChangeNotification option) result" where
  "client_notice n = Inr (ChangeNotificationFromProto (ChangeNotificationToProto (Some n)))"

definition client_FetchCertificateBundle :: "(string \<Rightarrow> 64 word \<Rightarrow> CertificateBundle option result) option \<Rightarrow> string \<Rightarrow> 64 word \<Rightarrow>
    CertificateBundle option result" where
  "client_FetchCertificateBundle bundles hostname revision = (case handleFetchCertificateBundle bundles hostname revision of
      Inl err \<Rightarrow> Inl err
    | Inr b \<Rightarrow> Inr (Some \<lparr>cb_Hostname = cb_Hostname b, cb_Revision = cb_Revision b, cb_TLSCrt = cb_TLSCrt b,
        cb_TLSKey = cb_TLSKey b, cb_MetadataJSON = cb_MetadataJSON b\<rparr>))"

section \<open>What master and replica hold\<close>

datatype change = DnsChange DNSRecord | EntryChange DomainEntryProjection

definition master_value :: "database \<Rightarrow> SnapshotSyncType \<Rightarrow> string \<Rightarrow> change option" where
  "master_value db ty i = (
     if ty = SnapshotSyncTypeDNSRecord then (case GetDNSRecord i db of Inr r \<Rightarrow> Some (DnsChange (wire_dns r)) | Inl _ \<Rightarrow> None)
     else if ty = SnapshotSyncTypeDomainEntryProjection then
       (case GetDomainEntryProjectionByDomain i db of Inr x \<Rightarrow> Some (EntryChange (wire_entry x)) | Inl _ \<Rightarrow> None)
     else None)"

definition replica_value :: "cache_db \<Rightarrow> SnapshotSyncType \<Rightarrow> string \<Rightarrow> change option" where
  "replica_value c ty i = (
     if ty = SnapshotSyncTypeDNSRecord then map_option DnsChange (abs_dns c i)
     else if ty = SnapshotSyncTypeDomainEntryProjection then map_option EntryChange (abs_entries c i)
     else None)"

definition logged :: "database \<Rightarrow> SnapshotSyncType \<Rightarrow> string \<Rightarrow> (64 word) set" where
  "logged db ty i = sr_ID ` {r \<in> set (snapshot_records db). sr_SyncType r = ty \<and> sr_SyncID r = i}"

text \<open>The log names no blank host.\<close>

definition hosts_named :: "database \<Rightarrow> bool" where
  "hosts_named db = (\<forall>r \<in> set (snapshot_records db). sr_SyncType r = SnapshotSyncTypeDomainEntryProjection \<longrightarrow> TrimSpace (sr_SyncID r) \<noteq> [])"

section \<open>The system\<close>

text \<open>A master, one replica with its subscription, and the changes the master has made and not yet
  announced.\<close>

record system =
  sys_master :: master
  sys_replica :: LocalStore
  sys_sub :: "64 word"
  sys_pending :: "(SnapshotSyncType \<times> string) set"

text \<open>The steps: the master writes to its tables; it announces a host or a DNS record; the replica takes a
  notice off its subscription and handles it; it reconnects and catches up.\<close>

inductive sys_step :: "slave_env \<Rightarrow> string \<Rightarrow> system \<Rightarrow> system \<Rightarrow> bool" for env node where
  master_writes: "snapshot_records db' = snapshot_records (m_db (sys_master S)) \<Longrightarrow> db_fault db' ''snapshot_records'' = None \<Longrightarrow>
    (\<And>ty i. (ty, i) \<notin> P \<Longrightarrow> master_value db' ty i = master_value (m_db (sys_master S)) ty i) \<Longrightarrow>
    sys_step env node S (S\<lparr>sys_master := (sys_master S)\<lparr>m_db := db'\<rparr>, sys_pending := sys_pending S \<union> P\<rparr>)"
| announce_host: "BoardcastDomainEndpointProjection now h (sys_master S) = (Inr (), m') \<Longrightarrow> TrimSpace h \<noteq> [] \<Longrightarrow>
    next_snapshot_id (snapshot_records (m_db (sys_master S))) \<noteq> 0 \<Longrightarrow>
    master_value (m_db (sys_master S)) SnapshotSyncTypeDomainEntryProjection h \<noteq> None \<Longrightarrow>
    sys_step env node S (S\<lparr>sys_master := m', sys_pending := sys_pending S - {(SnapshotSyncTypeDomainEntryProjection, h)}\<rparr>)"
| announce_dns: "BoardcastDNSRecord now i (sys_master S) = (Inr (), m') \<Longrightarrow>
    next_snapshot_id (snapshot_records (m_db (sys_master S))) \<noteq> 0 \<Longrightarrow>
    master_value (m_db (sys_master S)) SnapshotSyncTypeDNSRecord i \<noteq> None \<Longrightarrow>
    sys_step env node S (S\<lparr>sys_master := m', sys_pending := sys_pending S - {(SnapshotSyncTypeDNSRecord, i)}\<rparr>)"
| notice: "hub_recv node (sys_sub S) (m_hub (sys_master S)) = (Some n, hub') \<Longrightarrow>
    subscribe_loop env node [(client_notice n, client_GetSnapshot now (sys_master S))] (abs_cursor (ls_db (sys_replica S))) (sys_replica S) =
      Return (Inr (), s') \<Longrightarrow>
    sys_step env node S (S\<lparr>sys_master := (sys_master S)\<lparr>m_hub := hub'\<rparr>, sys_replica := s'\<rparr>)"
| reconnect: "hub_Subscribe node 128 (m_hub (sys_master S)) = (sub, hub') \<Longrightarrow>
    CatchUpSnapshots env (client_GetSnapshot now (sys_master S)) node (abs_cursor (ls_db (sys_replica S))) (sys_replica S) = Return (Inr (), s') \<Longrightarrow>
    sys_step env node S (S\<lparr>sys_master := (sys_master S)\<lparr>m_hub := hub'\<rparr>, sys_replica := s', sys_sub := sub\<rparr>)"

inductive sys_reachable :: "slave_env \<Rightarrow> string \<Rightarrow> system \<Rightarrow> system \<Rightarrow> bool" for env node S0 where
  start: "sys_reachable env node S0 S0"
| step: "sys_reachable env node S0 S \<Longrightarrow> sys_step env node S S' \<Longrightarrow> sys_reachable env node S0 S'"

text \<open>A fresh replica beside a master whose log is well formed.\<close>

definition sys_init :: "string \<Rightarrow> system \<Rightarrow> bool" where
  "sys_init node S = (m_hub (sys_master S) = NewHub \<and> db_fault (m_db (sys_master S)) ''snapshot_records'' = None \<and>
     hosts_named (m_db (sys_master S)) \<and> distinct (map sr_ID (snapshot_records (m_db (sys_master S)))) \<and>
     0 \<notin> sr_ID ` set (snapshot_records (m_db (sys_master S))) \<and> ls_db (sys_replica S) = \<lparr>dns_rows = [], entry_rows = [], sync_rows = []\<rparr>)"

text \<open>The replica agrees with the master on a change that is announced, not overtaken by a newer
  unannounced one, and covered by the cursor.\<close>

definition agrees :: "database \<Rightarrow> (SnapshotSyncType \<times> string) set \<Rightarrow> cache_db \<Rightarrow> bool" where
  "agrees db pend c = (\<forall>ty i v. master_value db ty i = Some v \<and> (ty, i) \<notin> pend \<and> logged db ty i \<noteq> {} \<and>
     (\<forall>j \<in> logged db ty i. j \<le> abs_cursor c) \<longrightarrow> replica_value c ty i = Some v)"

definition notice_change :: "ChangeNotification \<Rightarrow> (SnapshotSyncType \<times> string \<times> change) option" where
  "notice_change n = (case (cn_DNSRecord n, cn_DomainEntry n) of
      (Some r, None) \<Rightarrow> Some (SnapshotSyncTypeDNSRecord, dr_ID r, DnsChange (wire_dns r))
    | (None, Some x) \<Rightarrow> Some (SnapshotSyncTypeDomainEntryProjection, dp_Hostname x, EntryChange (wire_entry x))
    | _ \<Rightarrow> None)"

definition storable_change :: "change \<Rightarrow> bool" where
  "storable_change v = (case v of DnsChange r \<Rightarrow> \<not> Deleted r \<and> storable_dns r | EntryChange x \<Rightarrow> \<not> dp_Deleted x \<and> storable_entry x)"

text \<open>A notice in flight: it belongs to a log record, and if no newer record or unannounced write concerns
  the same change, it carries the master's value.\<close>

definition notice_ok :: "database \<Rightarrow> (SnapshotSyncType \<times> string) set \<Rightarrow> ChangeNotification \<Rightarrow> bool" where
  "notice_ok db pend n = (\<exists>ty i v. notice_change n = Some (ty, i, v) \<and> storable_change v \<and> cn_SnapshotRecordID n \<in> logged db ty i \<and>
     ((ty, i) \<notin> pend \<and> (\<forall>j \<in> logged db ty i. j \<le> cn_SnapshotRecordID n) \<longrightarrow> master_value db ty i = Some v))"

definition sys_inv :: "string \<Rightarrow> system \<Rightarrow> bool" where
  "sys_inv node S = (let db = m_db (sys_master S) in
     db_fault db ''snapshot_records'' = None \<and> hosts_named db \<and> distinct (map sr_ID (snapshot_records db)) \<and>
     agrees db (sys_pending S) (ls_db (sys_replica S)) \<and> cache_inv (ls_db (sys_replica S)) \<and>
     abs_cursor (ls_db (sys_replica S)) \<in> insert 0 (sr_ID ` set (snapshot_records db)) \<and>
     (\<forall>ch. chan_of node (sys_sub S) (m_hub (sys_master S)) = Some ch \<longrightarrow> (\<forall>n \<in> set (ch_buf ch). notice_ok db (sys_pending S) n)))"

section \<open>Rows that crossed the wire can be stored\<close>

lemma storable_wire_dns: "storable_dns (wire_dns r)"
  by (simp add: storable_dns_def json_shared_def wire_dns_def json_time_def time_Zero_def)

lemma storable_backend: "json_backend (map_option wire_backend b)"
  by (cases b) (simp_all add: json_backend_def json_shared_def wire_backend_def json_time_def time_Zero_def)

lemma storable_cert: "json_cert (map_option wire_cert (projected_cert c))"
  by (cases c) (simp_all add: json_cert_def json_shared_def wire_cert_def json_time_def time_Zero_def projected_cert_def
      zero_CertificateRevision_def)

lemma projection_cert: "GetDomainEntryProjectionByDomain h db = Inr x \<Longrightarrow> \<exists>c. dp_Cert x = projected_cert c"
  by (auto simp: GetDomainEntryProjectionByDomain_def Let_def zero_DomainEntryProjection_def split: option.splits list.splits if_splits;
      blast)

lemma storable_wire_entry:
  assumes "GetDomainEntryProjectionByDomain h db = Inr x" "TrimSpace h \<noteq> []"
  shows "storable_entry (wire_entry x)"
proof -
  have "json_entry (wire_entry x)"
    using projection_cert [OF assms(1)] storable_backend storable_cert
    by (auto simp: json_entry_def wire_entry_def wire_route_def list_all_iff)
  moreover have "TrimSpace (dp_Hostname (wire_entry x)) \<noteq> []"
    using projection_host [OF assms(1)] assms(2) by (simp add: wire_entry_def)
  ultimately show ?thesis by (simp add: storable_entry_def)
qed

lemma logged_entries_origin:
  assumes "x \<in> set (logged_entries db rs)"
  shows "\<exists>r \<in> set rs. sr_SyncType r = SnapshotSyncTypeDomainEntryProjection \<and> GetDomainEntryProjectionByDomain (sr_SyncID r) db = Inr x"
  using assms by (induction db rs rule: logged_entries.induct) (auto split: if_splits sum.splits)

lemma logged_dns_origin:
  assumes "x \<in> set (logged_dns db rs)"
  shows "\<exists>r \<in> set rs. sr_SyncType r = SnapshotSyncTypeDNSRecord \<and> GetDNSRecord (sr_SyncID r) db = Inr x"
  using assms by (induction db rs rule: logged_dns.induct) (auto split: if_splits sum.splits)

lemma logged_dns_mem:
  "r \<in> set rs \<Longrightarrow> sr_SyncType r = SnapshotSyncTypeDNSRecord \<Longrightarrow> GetDNSRecord (sr_SyncID r) db = Inr x \<Longrightarrow> x \<in> set (logged_dns db rs)"
  by (induction db rs rule: logged_dns.induct) (auto split: sum.splits)

lemma logged_entries_mem:
  "r \<in> set rs \<Longrightarrow> sr_SyncType r = SnapshotSyncTypeDomainEntryProjection \<Longrightarrow> GetDomainEntryProjectionByDomain (sr_SyncID r) db = Inr x \<Longrightarrow>
   x \<in> set (logged_entries db rs)"
  by (induction db rs rule: logged_entries.induct) (auto split: sum.splits)

section \<open>Catching up\<close>

lemma fold_max_start: "(a :: 64 word) \<le> fold max xs a"
  by (induction xs arbitrary: a) (auto intro: order_trans [OF max.cobounded2])

lemma fold_max_member: "x \<in> set xs \<Longrightarrow> x \<le> fold max xs (a :: 64 word)"
  by (induction xs arbitrary: a) (auto intro: order_trans [OF max.cobounded1 fold_max_start])

lemma fold_max_in: "fold max xs (a :: 64 word) \<in> insert a (set xs)"
proof (induction xs arbitrary: a)
  case (Cons y ys)
  show ?case using Cons [of "max y a"] by (auto simp: max_def split: if_splits)
qed simp

text \<open>Storing the same value for a key any number of times stores it.\<close>

lemma fold_put_entry:
  assumes "\<forall>x \<in> set es. \<not> dp_Deleted x \<and> f (dp_Hostname x) = Some x"
  shows "fold put_entry es m h = (if h \<in> dp_Hostname ` set es then f h else m h)"
  using assms by (induction es arbitrary: m) (auto simp: put_entry_def)

lemma fold_put_dns:
  assumes "\<forall>x \<in> set rs. \<not> Deleted x \<and> f (dr_ID x) = Some x"
  shows "fold put_dns rs m i = (if i \<in> dr_ID ` set rs then f i else m i)"
  using assms by (induction rs arbitrary: m) (auto simp: put_dns_def)

text \<open>The effect of a stream of chunks is that of all their rows.\<close>

lemma catch_up_chunks:
  assumes "env_ok env" "\<forall>c \<in> set cs. list_all storable_dns (sn_DNSRecords c) \<and> list_all storable_entry (sn_DomainEntries c)"
    "cs \<noteq> []" "sn_Last (last cs)" "\<forall>c \<in> set (butlast cs). \<not> sn_Last c"
  shows "\<exists>s'. catch_up_loop env (map (\<lambda>c. Inr (Some c)) cs @ st) s = Return (Inr (), s') \<and>
    abs_dns (ls_db s') = fold put_dns (concat (map sn_DNSRecords cs)) (abs_dns (ls_db s)) \<and>
    abs_entries (ls_db s') = fold put_entry (concat (map sn_DomainEntries cs)) (abs_entries (ls_db s)) \<and>
    abs_cursor (ls_db s') = fold max (map sn_SnapshotRecordID (filter (\<lambda>c. 0 < chunk_size c) cs)) (abs_cursor (ls_db s))"
  using assms(2-5)
proof (induction cs arbitrary: s)
  case (Cons c cs)
  obtain s1 where s1: "ApplySnapshot env (Some c) s = Return (Inr (), s1)"
    "abs_dns (ls_db s1) = fold put_dns (sn_DNSRecords c) (abs_dns (ls_db s))"
    "abs_entries (ls_db s1) = fold put_entry (sn_DomainEntries c) (abs_entries (ls_db s))"
    "abs_cursor (ls_db s1) = (if sn_DNSRecords c = [] \<and> sn_DomainEntries c = [] then abs_cursor (ls_db s)
      else max (sn_SnapshotRecordID c) (abs_cursor (ls_db s)))"
    using ApplySnapshot_ok [OF assms(1), of c s] Cons.prems(1) by auto
  show ?case
  proof (cases "cs = []")
    case True
    then show ?thesis using s1 Cons.prems by (auto simp: chunk_size_def)
  next
    case False
    obtain s' where s': "catch_up_loop env (map (\<lambda>c. Inr (Some c)) cs @ st) s1 = Return (Inr (), s')"
      "abs_dns (ls_db s') = fold put_dns (concat (map sn_DNSRecords cs)) (abs_dns (ls_db s1))"
      "abs_entries (ls_db s') = fold put_entry (concat (map sn_DomainEntries cs)) (abs_entries (ls_db s1))"
      "abs_cursor (ls_db s') = fold max (map sn_SnapshotRecordID (filter (\<lambda>c. 0 < chunk_size c) cs)) (abs_cursor (ls_db s1))"
      using Cons.IH [of s1] Cons.prems False by auto
    show ?thesis using s1 s' Cons.prems False by (auto simp: chunk_size_def)
  qed
qed simp

lemma client_stream:
  assumes "db_fault (m_db e) ''snapshot_records'' = None"
  obtains cs where "client_GetSnapshot now e nodeID c = Inr (map (\<lambda>sn. Inr (Some (wire_snapshot sn))) cs @ [Inl ErrEOF])"
    "good_stream (m_db e) [] [] c (sort_key sr_ID (filter (\<lambda>r. sr_ID r > c) (snapshot_records (m_db e)))) cs"
proof -
  obtain cs where "handleGetSnapshot (\<lambda>_. None) now nodeID c e = (Inr (), cs)"
    "good_stream (m_db e) [] [] c (sort_key sr_ID (filter (\<lambda>r. sr_ID r > c) (snapshot_records (m_db e)))) cs"
    using handleGetSnapshot_ok [of "\<lambda>_. None" e now nodeID c] assms by auto
  then show thesis using that
    by (simp add: client_GetSnapshot_def server_GetSnapshot_def snapshot_roundtrip comp_def)
qed

lemma wire_chunk [simp]:
  "sn_Last (wire_snapshot c) = sn_Last c" "sn_SnapshotRecordID (wire_snapshot c) = sn_SnapshotRecordID c"
  "chunk_size (wire_snapshot c) = chunk_size c" "sn_DNSRecords (wire_snapshot c) = map wire_dns (sn_DNSRecords c)"
  "sn_DomainEntries (wire_snapshot c) = map wire_entry (sn_DomainEntries c)"
  by (simp_all add: wire_snapshot_def chunk_size_def)

lemma CatchUpSnapshots_ok:
  assumes "env_ok env" "db_fault (m_db e) ''snapshot_records'' = None" "hosts_named (m_db e)"
  defines "rs c \<equiv> sort_key sr_ID (filter (\<lambda>r. sr_ID r > c) (snapshot_records (m_db e)))"
  obtains s' where "CatchUpSnapshots env (client_GetSnapshot now e) nodeID c s = Return (Inr (), s')"
    "abs_dns (ls_db s') = fold put_dns (map wire_dns (logged_dns (m_db e) (rs c))) (abs_dns (ls_db s))"
    "abs_entries (ls_db s') = fold put_entry (map wire_entry (logged_entries (m_db e) (rs c))) (abs_entries (ls_db s))"
    "abs_cursor (ls_db s) \<le> abs_cursor (ls_db s')"
    "abs_cursor (ls_db s') = abs_cursor (ls_db s) \<or> abs_cursor (ls_db s') = c \<or> abs_cursor (ls_db s') \<in> sr_ID ` set (rs c)"
    "\<forall>r \<in> set (rs c). resolvable (m_db e) r \<longrightarrow> sr_ID r \<le> abs_cursor (ls_db s')"
proof -
  let ?db = "m_db e"
  obtain cs where st: "client_GetSnapshot now e nodeID c = Inr (map (\<lambda>sn. Inr (Some (wire_snapshot sn))) cs @ [Inl ErrEOF])"
    and g: "good_stream ?db [] [] c (rs c) cs"
    using client_stream [OF assms(2)] unfolding rs_def by metis
  have dn: "concat (map sn_DNSRecords cs) = logged_dns ?db (rs c)" and en: "concat (map sn_DomainEntries cs) = logged_entries ?db (rs c)"
    using g by (simp_all add: good_stream_def)
  have store: "storable_entry (wire_entry x)" if "x \<in> set (logged_entries ?db (rs c))" for x
  proof -
    from logged_entries_origin [OF that] obtain r where "r \<in> set (rs c)" "sr_SyncType r = SnapshotSyncTypeDomainEntryProjection"
      "GetDomainEntryProjectionByDomain (sr_SyncID r) ?db = Inr x" by blast
    then show ?thesis using assms(3) storable_wire_entry by (auto simp: hosts_named_def rs_def)
  qed
  let ?ws = "map wire_snapshot cs"
  have "\<exists>s'. catch_up_loop env (map (\<lambda>c. Inr (Some c)) ?ws @ [Inl ErrEOF]) s = Return (Inr (), s') \<and>
    abs_dns (ls_db s') = fold put_dns (concat (map sn_DNSRecords ?ws)) (abs_dns (ls_db s)) \<and>
    abs_entries (ls_db s') = fold put_entry (concat (map sn_DomainEntries ?ws)) (abs_entries (ls_db s)) \<and>
    abs_cursor (ls_db s') = fold max (map sn_SnapshotRecordID (filter (\<lambda>c. 0 < chunk_size c) ?ws)) (abs_cursor (ls_db s))"
  proof (rule catch_up_chunks [OF assms(1)])
    have "x \<in> set (logged_entries ?db (rs c))" if "ch \<in> set cs" "x \<in> set (sn_DomainEntries ch)" for ch x
      using that en [symmetric] by auto
    then show "\<forall>w \<in> set ?ws. list_all storable_dns (sn_DNSRecords w) \<and> list_all storable_entry (sn_DomainEntries w)"
      using store by (auto simp: list_all_iff storable_wire_dns)
  qed (use g in \<open>auto simp: good_stream_def last_map map_butlast [symmetric]\<close>)
  then obtain s' where s': "catch_up_loop env (map (\<lambda>c. Inr (Some c)) ?ws @ [Inl ErrEOF]) s = Return (Inr (), s')"
    "abs_dns (ls_db s') = fold put_dns (concat (map sn_DNSRecords ?ws)) (abs_dns (ls_db s))"
    "abs_entries (ls_db s') = fold put_entry (concat (map sn_DomainEntries ?ws)) (abs_entries (ls_db s))"
    "abs_cursor (ls_db s') = fold max (map sn_SnapshotRecordID (filter (\<lambda>c. 0 < chunk_size c) ?ws)) (abs_cursor (ls_db s))"
    by blast
  let ?ids = "map sn_SnapshotRecordID (filter (\<lambda>c. 0 < chunk_size c) ?ws)"
  show thesis
  proof (rule that)
    show "CatchUpSnapshots env (client_GetSnapshot now e) nodeID c s = Return (Inr (), s')"
      using s'(1) by (simp add: CatchUpSnapshots_def st comp_def)
    show "abs_dns (ls_db s') = fold put_dns (map wire_dns (logged_dns ?db (rs c))) (abs_dns (ls_db s))"
      unfolding s'(2) dn [symmetric] by (simp add: map_concat comp_def)
    show "abs_entries (ls_db s') = fold put_entry (map wire_entry (logged_entries ?db (rs c))) (abs_entries (ls_db s))"
      unfolding s'(3) en [symmetric] by (simp add: map_concat comp_def)
    show "abs_cursor (ls_db s) \<le> abs_cursor (ls_db s')" unfolding s'(4) by (rule fold_max_start)
    have "set ?ids \<subseteq> insert c (sr_ID ` set (rs c))" using g by (auto simp: good_stream_def)
    then show "abs_cursor (ls_db s') = abs_cursor (ls_db s) \<or> abs_cursor (ls_db s') = c \<or> abs_cursor (ls_db s') \<in> sr_ID ` set (rs c)"
      using fold_max_in [of ?ids "abs_cursor (ls_db s)"] unfolding s'(4) by blast
    show "\<forall>r \<in> set (rs c). resolvable ?db r \<longrightarrow> sr_ID r \<le> abs_cursor (ls_db s')"
    proof (intro ballI impI)
      fix r assume "r \<in> set (rs c)" "resolvable ?db r"
      then obtain ch where "ch \<in> set cs" "0 < chunk_size ch" "sr_ID r \<le> sn_SnapshotRecordID ch"
        using g unfolding good_stream_def by blast
      moreover from this have "wire_snapshot ch \<in> set (filter (\<lambda>c. 0 < chunk_size c) ?ws)" by simp
      then have "sn_SnapshotRecordID ch \<in> set ?ids" unfolding set_map by (rule rev_image_eqI) simp
      ultimately show "sr_ID r \<le> abs_cursor (ls_db s')" unfolding s'(4) using fold_max_member order_trans by blast
    qed
  qed
qed

lemma GetDNSRecord_id: "GetDNSRecord i db = Inr r \<Longrightarrow> dr_ID r = i"
proof -
  assume "GetDNSRecord i db = Inr r"
  then obtain rest where "sort_key dr_ID (filter (\<lambda>r. \<not> Deleted r \<and> dr_ID r = i) (dns_records db)) = r # rest"
    by (auto simp: GetDNSRecord_def GetResourceByField_def dns_column_def split: option.splits list.splits)
  then have "r \<in> set (sort_key dr_ID (filter (\<lambda>r. \<not> Deleted r \<and> dr_ID r = i) (dns_records db)))" by simp
  then show ?thesis by simp
qed

lemma sync_types: "SnapshotSyncTypeDNSRecord \<noteq> SnapshotSyncTypeDomainEntryProjection" by simp

lemma master_value_cases:
  "master_value db SnapshotSyncTypeDNSRecord i = (case GetDNSRecord i db of Inr r \<Rightarrow> Some (DnsChange (wire_dns r)) | Inl _ \<Rightarrow> None)"
  "master_value db SnapshotSyncTypeDomainEntryProjection i =
     (case GetDomainEntryProjectionByDomain i db of Inr x \<Rightarrow> Some (EntryChange (wire_entry x)) | Inl _ \<Rightarrow> None)"
  by (simp_all add: master_value_def)

lemma replica_value_cases:
  "replica_value c SnapshotSyncTypeDNSRecord i = map_option DnsChange (abs_dns c i)"
  "replica_value c SnapshotSyncTypeDomainEntryProjection i = map_option EntryChange (abs_entries c i)"
  by (simp_all add: replica_value_def)

lemma value_types: "master_value db ty i = Some v \<Longrightarrow> ty = SnapshotSyncTypeDNSRecord \<or> ty = SnapshotSyncTypeDomainEntryProjection"
  by (auto simp: master_value_def split: if_splits)

lemma fold_logged_dns:
  "fold put_dns (map wire_dns (logged_dns db rs)) m i =
     (if \<exists>r \<in> set rs. sr_SyncType r = SnapshotSyncTypeDNSRecord \<and> sr_SyncID r = i
      then (case GetDNSRecord i db of Inr x \<Rightarrow> Some (wire_dns x) | Inl _ \<Rightarrow> m i) else m i)"
proof -
  let ?xs = "map wire_dns (logged_dns db rs)" and ?f = "\<lambda>i. case GetDNSRecord i db of Inr x \<Rightarrow> Some (wire_dns x) | Inl _ \<Rightarrow> None"
  have wire: "dr_ID (wire_dns x) = dr_ID x" "Deleted (wire_dns x) = Deleted x" for x by (simp_all add: wire_dns_def)
  have "fold put_dns ?xs m i = (if i \<in> dr_ID ` set ?xs then ?f i else m i)"
  proof (rule fold_put_dns, rule ballI)
    fix x assume "x \<in> set ?xs"
    then obtain r where r: "x = wire_dns r" "r \<in> set (logged_dns db rs)" by auto
    then obtain j where "GetDNSRecord j db = Inr r" using logged_dns_origin by blast
    then show "\<not> Deleted x \<and> ?f (dr_ID x) = Some x" using r logged_live(1) [OF r(2)] GetDNSRecord_id by (simp add: wire)
  qed
  moreover have "i \<in> dr_ID ` set ?xs \<longleftrightarrow> (\<exists>x. GetDNSRecord i db = Inr x) \<and> (\<exists>r \<in> set rs. sr_SyncType r = SnapshotSyncTypeDNSRecord \<and> sr_SyncID r = i)"
    (is "?l \<longleftrightarrow> ?r")
  proof
    assume ?l
    then obtain x where x: "x \<in> set (logged_dns db rs)" "dr_ID x = i" by (auto simp: wire)
    then show ?r using logged_dns_origin [OF x(1)] GetDNSRecord_id x(2) by metis
  next
    assume ?r
    then obtain x where "x \<in> set (logged_dns db rs)" "dr_ID x = i" using logged_dns_mem GetDNSRecord_id by blast
    then show ?l by (force simp: wire image_iff)
  qed
  ultimately show ?thesis by (auto split: sum.splits)
qed

lemma fold_logged_entries:
  "fold put_entry (map wire_entry (logged_entries db rs)) m i =
     (if \<exists>r \<in> set rs. sr_SyncType r = SnapshotSyncTypeDomainEntryProjection \<and> sr_SyncID r = i
      then (case GetDomainEntryProjectionByDomain i db of Inr x \<Rightarrow> Some (wire_entry x) | Inl _ \<Rightarrow> m i) else m i)"
proof -
  let ?xs = "map wire_entry (logged_entries db rs)"
  let ?f = "\<lambda>i. case GetDomainEntryProjectionByDomain i db of Inr x \<Rightarrow> Some (wire_entry x) | Inl _ \<Rightarrow> None"
  have wire: "dp_Hostname (wire_entry x) = dp_Hostname x" "dp_Deleted (wire_entry x) = dp_Deleted x" for x by (simp_all add: wire_entry_def)
  have "fold put_entry ?xs m i = (if i \<in> dp_Hostname ` set ?xs then ?f i else m i)"
  proof (rule fold_put_entry, rule ballI)
    fix x assume "x \<in> set ?xs"
    then obtain r where r: "x = wire_entry r" "r \<in> set (logged_entries db rs)" by auto
    then obtain j where "GetDomainEntryProjectionByDomain j db = Inr r" using logged_entries_origin by blast
    then show "\<not> dp_Deleted x \<and> ?f (dp_Hostname x) = Some x" using r logged_live(2) [OF r(2)] projection_host by (simp add: wire)
  qed
  moreover have "i \<in> dp_Hostname ` set ?xs \<longleftrightarrow> (\<exists>x. GetDomainEntryProjectionByDomain i db = Inr x) \<and>
      (\<exists>r \<in> set rs. sr_SyncType r = SnapshotSyncTypeDomainEntryProjection \<and> sr_SyncID r = i)" (is "?l \<longleftrightarrow> ?r")
  proof
    assume ?l
    then obtain x where x: "x \<in> set (logged_entries db rs)" "dp_Hostname x = i" by (auto simp: wire)
    then show ?r using logged_entries_origin [OF x(1)] projection_host x(2) by metis
  next
    assume ?r
    then obtain x where "x \<in> set (logged_entries db rs)" "dp_Hostname x = i" using logged_entries_mem projection_host by blast
    then show ?l by (force simp: wire image_iff)
  qed
  ultimately show ?thesis by (auto split: sum.splits)
qed

text \<open>Catching up from \<open>c\<close> replaces exactly the changes logged after \<open>c\<close> that the master still holds.\<close>

lemma catch_up_values:
  assumes "env_ok env" "db_fault (m_db e) ''snapshot_records'' = None" "hosts_named (m_db e)"
  obtains s' where "CatchUpSnapshots env (client_GetSnapshot now e) nodeID c s = Return (Inr (), s')"
    "\<And>ty i. replica_value (ls_db s') ty i =
      (if (\<exists>j \<in> logged (m_db e) ty i. j > c) \<and> master_value (m_db e) ty i \<noteq> None then master_value (m_db e) ty i
       else replica_value (ls_db s) ty i)"
    "abs_cursor (ls_db s) \<le> abs_cursor (ls_db s')"
    "abs_cursor (ls_db s') = abs_cursor (ls_db s) \<or> abs_cursor (ls_db s') = c \<or> abs_cursor (ls_db s') \<in> sr_ID ` set (snapshot_records (m_db e))"
    "\<And>ty i j. j \<in> logged (m_db e) ty i \<Longrightarrow> j > c \<Longrightarrow> master_value (m_db e) ty i \<noteq> None \<Longrightarrow> j \<le> abs_cursor (ls_db s')"
proof -
  let ?db = "m_db e"
  let ?rs = "sort_key sr_ID (filter (\<lambda>r. sr_ID r > c) (snapshot_records ?db))"
  obtain s' where s': "CatchUpSnapshots env (client_GetSnapshot now e) nodeID c s = Return (Inr (), s')"
    "abs_dns (ls_db s') = fold put_dns (map wire_dns (logged_dns ?db ?rs)) (abs_dns (ls_db s))"
    "abs_entries (ls_db s') = fold put_entry (map wire_entry (logged_entries ?db ?rs)) (abs_entries (ls_db s))"
    "abs_cursor (ls_db s) \<le> abs_cursor (ls_db s')"
    "abs_cursor (ls_db s') = abs_cursor (ls_db s) \<or> abs_cursor (ls_db s') = c \<or> abs_cursor (ls_db s') \<in> sr_ID ` set ?rs"
    "\<forall>r \<in> set ?rs. resolvable ?db r \<longrightarrow> sr_ID r \<le> abs_cursor (ls_db s')"
    using CatchUpSnapshots_ok [OF assms] by metis
  have log: "(\<exists>r \<in> set ?rs. sr_SyncType r = ty \<and> sr_SyncID r = i) \<longleftrightarrow> (\<exists>j \<in> logged ?db ty i. j > c)" for ty i
    by (auto simp: logged_def)
  show thesis
  proof (rule that [OF s'(1)])
    show "replica_value (ls_db s') ty i =
        (if (\<exists>j \<in> logged ?db ty i. j > c) \<and> master_value ?db ty i \<noteq> None then master_value ?db ty i else replica_value (ls_db s) ty i)" for ty i
      unfolding replica_value_def master_value_def s'(2,3) fold_logged_dns fold_logged_entries log by (auto split: sum.splits)
    show "abs_cursor (ls_db s) \<le> abs_cursor (ls_db s')" by (rule s'(4))
    show "abs_cursor (ls_db s') = abs_cursor (ls_db s) \<or> abs_cursor (ls_db s') = c \<or> abs_cursor (ls_db s') \<in> sr_ID ` set (snapshot_records ?db)"
      using s'(5) by auto
    show "j \<le> abs_cursor (ls_db s')" if j: "j \<in> logged ?db ty i" "j > c" "master_value ?db ty i \<noteq> None" for ty i j
    proof -
      from j obtain r where r: "r \<in> set ?rs" "sr_SyncType r = ty" "sr_SyncID r = i" "sr_ID r = j" by (auto simp: logged_def)
      have "resolvable ?db r" using r j(3) by (auto simp: resolvable_def master_value_def split: if_splits sum.splits)
      then show ?thesis using s'(6) r by auto
    qed
  qed
qed

section \<open>The invariant\<close>

lemma projection_rows_log: "projection_rows h (db\<lparr>snapshot_records := rs\<rparr>) = projection_rows h db"
  by (simp add: projection_rows_def latest_certs_def live_backends_def live_routes_def cong: option.case_cong)

lemma master_value_log [simp]: "master_value (db\<lparr>snapshot_records := rs\<rparr>) = master_value db"
  by (simp add: master_value_def GetDNSRecord_def GetDomainEntryProjectionByDomain_def projection_rows_log fun_eq_iff
      cong: option.case_cong)

lemma logged_cong: "snapshot_records db' = snapshot_records db \<Longrightarrow> logged db' = logged db"
  by (simp add: logged_def fun_eq_iff)

lemma logged_append:
  "logged (db\<lparr>snapshot_records := snapshot_records db @ [r]\<rparr>) ty i =
     (if sr_SyncType r = ty \<and> sr_SyncID r = i then insert (sr_ID r) (logged db ty i) else logged db ty i)"
  by (auto simp: logged_def)

lemma logged_ids: "j \<in> logged db ty i \<Longrightarrow> j \<in> sr_ID ` set (snapshot_records db)"
  by (auto simp: logged_def)

lemma logged_unique:
  assumes "distinct (map sr_ID (snapshot_records db))" "j \<in> logged db ty i" "j \<in> logged db ty' i'"
  shows "ty = ty' \<and> i = i'"
  using assms by (auto simp: logged_def distinct_map dest: inj_onD)

lemma inv_write:
  assumes "sys_inv node S" "snapshot_records db' = snapshot_records (m_db (sys_master S))" "db_fault db' ''snapshot_records'' = None"
    "\<And>ty i. (ty, i) \<notin> P \<Longrightarrow> master_value db' ty i = master_value (m_db (sys_master S)) ty i"
  shows "sys_inv node (S\<lparr>sys_master := (sys_master S)\<lparr>m_db := db'\<rparr>, sys_pending := sys_pending S \<union> P\<rparr>)"
proof -
  note l = logged_cong [OF assms(2)]
  have "agrees db' (sys_pending S \<union> P) (ls_db (sys_replica S))"
  proof -
    have "agrees (m_db (sys_master S)) (sys_pending S) (ls_db (sys_replica S))" using assms(1) by (simp add: sys_inv_def Let_def)
    then show ?thesis using assms(4) unfolding agrees_def l by (metis UnCI)
  qed
  moreover have "notice_ok db' (sys_pending S \<union> P) n" if "notice_ok (m_db (sys_master S)) (sys_pending S) n" for n
    using that assms(4) unfolding notice_ok_def l by fastforce
  ultimately show ?thesis using assms(1-3) by (simp add: sys_inv_def hosts_named_def Let_def)
qed

lemma inv_announce:
  assumes "sys_inv node S" "db = m_db (sys_master S)" "\<forall>q \<in> set (snapshot_records db). sr_ID q < sr_ID r" "sr_ID r \<noteq> 0"
    "sr_SyncType r = ty" "sr_SyncID r = i" "master_value db ty i = Some v" "notice_change n = Some (ty, i, v)" "storable_change v"
    "cn_SnapshotRecordID n = sr_ID r" "ty = SnapshotSyncTypeDomainEntryProjection \<Longrightarrow> TrimSpace i \<noteq> []"
  shows "sys_inv node (S\<lparr>sys_master := (sys_master S)\<lparr>m_db := db\<lparr>snapshot_records := snapshot_records db @ [r]\<rparr>,
    m_hub := hub_Boardcast n (m_hub (sys_master S))\<rparr>, sys_pending := sys_pending S - {(ty, i)}\<rparr>)"
proof -
  let ?db = "db\<lparr>snapshot_records := snapshot_records db @ [r]\<rparr>" and ?p = "sys_pending S - {(ty, i)}"
  let ?c = "ls_db (sys_replica S)"
  have inv: "agrees db (sys_pending S) ?c" "abs_cursor ?c \<in> insert 0 (sr_ID ` set (snapshot_records db))"
    "\<And>ch n. chan_of node (sys_sub S) (m_hub (sys_master S)) = Some ch \<Longrightarrow> n \<in> set (ch_buf ch) \<Longrightarrow> notice_ok db (sys_pending S) n"
    using assms(1,2) by (auto simp: sys_inv_def Let_def)
  have fresh: "\<not> sr_ID r \<le> j" if "j \<in> insert 0 (sr_ID ` set (snapshot_records db))" for j
    using that assms(3,4) by (auto simp: not_le word_gt_0)
  have log: "logged ?db ty' i' = (if (ty', i') = (ty, i) then insert (sr_ID r) (logged db ty i) else logged db ty' i')" for ty' i'
    using assms(5,6) by (auto simp: logged_append)
  have new: "\<not> (\<forall>j \<in> insert (sr_ID r) (logged db ty i). j \<le> k)" if "k \<in> insert 0 (sr_ID ` set (snapshot_records db))" for k
    using fresh [OF that] by blast
  have "agrees ?db ?p ?c" unfolding agrees_def
  proof (intro allI impI, elim conjE)
    fix ty' i' v'
    assume a: "master_value ?db ty' i' = Some v'" "(ty', i') \<notin> ?p" "logged ?db ty' i' \<noteq> {}" "\<forall>j \<in> logged ?db ty' i'. j \<le> abs_cursor ?c"
    have ne: "(ty', i') \<noteq> (ty, i)"
    proof
      assume "(ty', i') = (ty, i)"
      then have "logged ?db ty' i' = insert (sr_ID r) (logged db ty i)" using log by simp
      then show False using a(4) new [OF inv(2)] by metis
    qed
    then have "logged ?db ty' i' = logged db ty' i'" "(ty', i') \<notin> sys_pending S" using log a(2) by auto
    then show "replica_value ?c ty' i' = Some v'" using a(1,3,4) inv(1) unfolding agrees_def master_value_log by metis
  qed
  moreover have "notice_ok ?db ?p q" if "notice_ok db (sys_pending S) q" for q
  proof -
    from that obtain ty' i' v' where q: "notice_change q = Some (ty', i', v')" "storable_change v'" "cn_SnapshotRecordID q \<in> logged db ty' i'"
      "(ty', i') \<notin> sys_pending S \<and> (\<forall>j \<in> logged db ty' i'. j \<le> cn_SnapshotRecordID q) \<longrightarrow> master_value db ty' i' = Some v'"
      unfolding notice_ok_def by blast
    have "cn_SnapshotRecordID q \<in> insert 0 (sr_ID ` set (snapshot_records db))" using logged_ids [OF q(3)] by simp
    note n = new [OF this]
    have "cn_SnapshotRecordID q \<in> logged ?db ty' i'" using q(3) log by (cases "(ty', i') = (ty, i)") auto
    moreover have "master_value ?db ty' i' = Some v'"
      if c: "(ty', i') \<notin> ?p" "\<forall>j \<in> logged ?db ty' i'. j \<le> cn_SnapshotRecordID q"
    proof (cases "(ty', i') = (ty, i)")
      case True
      then have "logged ?db ty' i' = insert (sr_ID r) (logged db ty i)" using log by simp
      then show ?thesis using n c(2) by metis
    next
      case False
      then have "logged ?db ty' i' = logged db ty' i'" "(ty', i') \<notin> sys_pending S" using log c(1) by auto
      then show ?thesis using q(4) c(2) unfolding master_value_log by metis
    qed
    ultimately show ?thesis unfolding notice_ok_def using q(1,2) by blast
  qed
  moreover have "notice_ok ?db ?p n"
  proof -
    have "cn_SnapshotRecordID n \<in> logged ?db ty i" using assms(10) log by simp
    then show ?thesis unfolding notice_ok_def master_value_log using assms(7-9) by blast
  qed
  ultimately have "\<forall>ch. chan_of node (sys_sub S) (hub_Boardcast n (m_hub (sys_master S))) = Some ch \<longrightarrow>
      (\<forall>q \<in> set (ch_buf ch). notice_ok ?db ?p q)"
    using inv(3) by (auto simp: chan_Boardcast chan_send_def split: if_splits)
  moreover have "distinct (map sr_ID (snapshot_records ?db))" "hosts_named ?db"
    using assms(1-3,5,6,11) by (auto simp: sys_inv_def hosts_named_def Let_def)
  ultimately show ?thesis using assms(1,2) \<open>agrees ?db ?p ?c\<close> inv(2) unfolding sys_inv_def Let_def by auto
qed

lemma agrees_catch_up:
  assumes "agrees db pend (ls_db s)" "abs_cursor (ls_db s) = c"
    "\<And>ty i. replica_value (ls_db s') ty i =
      (if (\<exists>j \<in> logged db ty i. j > c) \<and> master_value db ty i \<noteq> None then master_value db ty i else replica_value (ls_db s) ty i)"
  shows "agrees db pend (ls_db s')"
  unfolding agrees_def
proof (intro allI impI, elim conjE)
  fix ty i v
  assume a: "master_value db ty i = Some v" "(ty, i) \<notin> pend" "logged db ty i \<noteq> {}"
  show "replica_value (ls_db s') ty i = Some v"
  proof (cases "\<exists>j \<in> logged db ty i. j > c")
    case True
    then show ?thesis unfolding assms(3) using a(1) by simp
  next
    case False
    then have "\<forall>j \<in> logged db ty i. j \<le> abs_cursor (ls_db s)" using assms(2) by (simp add: not_less)
    then have "replica_value (ls_db s) ty i = Some v" using assms(1) a unfolding agrees_def by metis
    then show ?thesis unfolding assms(3) using False a(1) by simp
  qed
qed

lemma agrees_apply:
  assumes "agrees db pend (ls_db s)" "distinct (map sr_ID (snapshot_records db))" "notice_ok db pend n" "notice_change n = Some (ty, i, v)"
    "abs_cursor (ls_db s) < cn_SnapshotRecordID n" "cn_SnapshotRecordID n = abs_cursor (ls_db s) + 1"
    "abs_cursor (ls_db s') = cn_SnapshotRecordID n"
    "\<And>ty' i'. replica_value (ls_db s') ty' i' = (if (ty', i') = (ty, i) then Some v else replica_value (ls_db s) ty' i')"
  shows "agrees db pend (ls_db s')"
  unfolding agrees_def
proof (intro allI impI, elim conjE)
  fix ty' i' v'
  assume a: "master_value db ty' i' = Some v'" "(ty', i') \<notin> pend" "logged db ty' i' \<noteq> {}"
    "\<forall>j \<in> logged db ty' i'. j \<le> abs_cursor (ls_db s')"
  have n: "cn_SnapshotRecordID n \<in> logged db ty i"
    "(ty, i) \<notin> pend \<and> (\<forall>j \<in> logged db ty i. j \<le> cn_SnapshotRecordID n) \<longrightarrow> master_value db ty i = Some v"
    using assms(3,4) unfolding notice_ok_def by auto
  show "replica_value (ls_db s') ty' i' = Some v'"
  proof (cases "(ty', i') = (ty, i)")
    case True
    then show ?thesis unfolding assms(8) using n(2) a assms(7) by auto
  next
    case False
    have "j \<le> abs_cursor (ls_db s)" if j: "j \<in> logged db ty' i'" for j
    proof -
      have "j \<noteq> cn_SnapshotRecordID n" using logged_unique [OF assms(2) j] n(1) False by blast
      then have lt: "j < abs_cursor (ls_db s) + 1" using a(4) j assms(6,7) by fastforce
      show ?thesis
      proof (rule ccontr)
        assume "\<not> ?thesis"
        then have "abs_cursor (ls_db s) < j" by simp
        from inc_le [OF this] show False using lt by simp
      qed
    qed
    then have "replica_value (ls_db s) ty' i' = Some v'" using assms(1) a unfolding agrees_def by metis
    then show ?thesis unfolding assms(8) using False by auto
  qed
qed

lemma notice_change_cases:
  assumes "notice_change n = Some (ty, i, v)"
  obtains (dns) r where "cn_DNSRecord n = Some r" "cn_DomainEntry n = None" "ty = SnapshotSyncTypeDNSRecord" "i = dr_ID r" "v = DnsChange (wire_dns r)"
  | (entry) x where "cn_DNSRecord n = None" "cn_DomainEntry n = Some x" "ty = SnapshotSyncTypeDomainEntryProjection" "i = dp_Hostname x"
      "v = EntryChange (wire_entry x)"
  using assms by (auto simp: notice_change_def split: option.splits)

text \<open>What handling one notice does to the replica.\<close>

lemma notice_effect:
  assumes "env_ok env" "cache_inv (ls_db s)" "db_fault (m_db e) ''snapshot_records'' = None" "hosts_named (m_db e)"
    "notice_change n = Some (ty, i, v)" "storable_change v"
    "subscribe_loop env node [(client_notice n, client_GetSnapshot now e)] (abs_cursor (ls_db s)) s = Return (Inr (), s')"
  shows "s' = s \<or> CatchUpSnapshots env (client_GetSnapshot now e) node (abs_cursor (ls_db s)) s = Return (Inr (), s') \<or>
    (abs_cursor (ls_db s) < cn_SnapshotRecordID n \<and> cn_SnapshotRecordID n = abs_cursor (ls_db s) + 1 \<and>
     abs_cursor (ls_db s') = cn_SnapshotRecordID n \<and>
     (\<forall>ty' i'. replica_value (ls_db s') ty' i' = (if (ty', i') = (ty, i) then Some v else replica_value (ls_db s) ty' i')))"
proof -
  let ?c = "abs_cursor (ls_db s)" and ?n = "wire_notice n"
  have pay: "cn_DNSRecord n = None \<or> cn_DomainEntry n = None"
    using assms(5) by (auto simp: notice_change_def split: option.splits)
  have cl: "client_notice n = Inr (Some ?n)" unfolding client_notice_def notice_roundtrip [OF pay] ..
  have id: "cn_SnapshotRecordID ?n = cn_SnapshotRecordID n" by (simp add: wire_notice_def)
  have q: "query_err env = None" using assms(1) by (simp add: env_ok_def)
  consider (old) "cn_SnapshotRecordID n \<le> ?c" | (gap) "\<not> cn_SnapshotRecordID n \<le> ?c" "cn_SnapshotRecordID n > ?c + 1"
    | (succ) "?c < cn_SnapshotRecordID n" "\<not> cn_SnapshotRecordID n > ?c + 1" by fastforce
  then show ?thesis
  proof cases
    case old
    then show ?thesis using assms(7) by (simp add: cl id)
  next
    case gap
    obtain s1 where s1: "CatchUpSnapshots env (client_GetSnapshot now e) node ?c s = Return (Inr (), s1)"
      using catch_up_values [OF assms(1,3,4)] by metis
    then show ?thesis using assms(7) gap by (simp add: cl id GetSnapshotRecordID_cursor [OF q])
  next
    case succ
    then have eq: "cn_SnapshotRecordID n = ?c + 1" using inc_le [OF succ(1)] by simp
    have st: "list_all storable_dns (case cn_DNSRecord ?n of None \<Rightarrow> [] | Some r \<Rightarrow> [r])"
      "list_all storable_entry (case cn_DomainEntry ?n of None \<Rightarrow> [] | Some e \<Rightarrow> [e])"
      using assms(5,6) by (auto simp: notice_change_def storable_change_def wire_notice_def split: option.splits)
    obtain s1 where s1: "ApplyChangelog env (Some ?n) s = Return (Inr (), s1)"
      "abs_dns (ls_db s1) = (case cn_DNSRecord ?n of None \<Rightarrow> abs_dns (ls_db s) | Some r \<Rightarrow> put_dns r (abs_dns (ls_db s)))"
      "abs_entries (ls_db s1) = (case cn_DomainEntry ?n of None \<Rightarrow> abs_entries (ls_db s) | Some e \<Rightarrow> put_entry e (abs_entries (ls_db s)))"
      "abs_cursor (ls_db s1) = (if cn_DNSRecord ?n = None \<and> cn_DomainEntry ?n = None then abs_cursor (ls_db s) else cn_SnapshotRecordID ?n)"
      using changelog_cases(3) [OF assms(1,2) st] succ(1) eq id by auto
    have "\<not> cn_SnapshotRecordID n \<le> ?c" using succ(1) by simp
    then have s': "s' = s1" using assms(7) succ(2) s1(1) by (simp add: cl id)
    have "replica_value (ls_db s1) ty' i' = (if (ty', i') = (ty, i) then Some v else replica_value (ls_db s) ty' i')" for ty' i'
      using assms(5)
    proof (cases rule: notice_change_cases)
      case (dns r)
      have "abs_dns (ls_db s1) = (abs_dns (ls_db s))(i := Some (wire_dns r))" "abs_entries (ls_db s1) = abs_entries (ls_db s)"
        using s1(2,3) dns assms(6) by (simp_all add: wire_notice_def put_dns_def storable_change_def wire_dns_def)
      then show ?thesis using dns by (simp add: replica_value_def)
    next
      case (entry x)
      have "abs_dns (ls_db s1) = abs_dns (ls_db s)" "abs_entries (ls_db s1) = (abs_entries (ls_db s))(i := Some (wire_entry x))"
        using s1(2,3) entry assms(6) by (simp_all add: wire_notice_def put_entry_def storable_change_def wire_entry_def)
      then show ?thesis using entry by (simp add: replica_value_def)
    qed
    moreover have "abs_cursor (ls_db s1) = cn_SnapshotRecordID n"
      using s1(4) assms(5) by (auto simp: notice_change_def wire_notice_def split: option.splits)
    ultimately show ?thesis using succ(1) eq s' by auto
  qed
qed

lemma inv_replica:
  assumes "sys_inv node S" "agrees (m_db (sys_master S)) (sys_pending S) (ls_db s')" "cache_inv (ls_db s')"
    "abs_cursor (ls_db s') \<in> insert 0 (sr_ID ` set (snapshot_records (m_db (sys_master S))))"
    "\<And>ch. chan_of node sub hub' = Some ch \<Longrightarrow> \<forall>n \<in> set (ch_buf ch). notice_ok (m_db (sys_master S)) (sys_pending S) n"
  shows "sys_inv node (S\<lparr>sys_master := (sys_master S)\<lparr>m_hub := hub'\<rparr>, sys_replica := s', sys_sub := sub\<rparr>)"
  using assms by (simp add: sys_inv_def Let_def)

lemma inv_catch_up:
  assumes "env_ok env" "sys_inv node S"
    "CatchUpSnapshots env (client_GetSnapshot now (sys_master S)) node (abs_cursor (ls_db (sys_replica S))) (sys_replica S) = Return (Inr (), s')"
  shows "agrees (m_db (sys_master S)) (sys_pending S) (ls_db s')" "cache_inv (ls_db s')"
    "abs_cursor (ls_db s') \<in> insert 0 (sr_ID ` set (snapshot_records (m_db (sys_master S))))"
proof -
  let ?e = "sys_master S" and ?s = "sys_replica S"
  have inv: "db_fault (m_db ?e) ''snapshot_records'' = None" "hosts_named (m_db ?e)" "agrees (m_db ?e) (sys_pending S) (ls_db ?s)"
    "cache_inv (ls_db ?s)" "abs_cursor (ls_db ?s) \<in> insert 0 (sr_ID ` set (snapshot_records (m_db ?e)))"
    using assms(2) by (simp_all add: sys_inv_def Let_def)
  obtain s1 where s1: "CatchUpSnapshots env (client_GetSnapshot now ?e) node (abs_cursor (ls_db ?s)) ?s = Return (Inr (), s1)"
    "\<And>ty i. replica_value (ls_db s1) ty i =
      (if (\<exists>j \<in> logged (m_db ?e) ty i. j > abs_cursor (ls_db ?s)) \<and> master_value (m_db ?e) ty i \<noteq> None then master_value (m_db ?e) ty i
       else replica_value (ls_db ?s) ty i)"
    "abs_cursor (ls_db s1) = abs_cursor (ls_db ?s) \<or> abs_cursor (ls_db s1) = abs_cursor (ls_db ?s) \<or>
      abs_cursor (ls_db s1) \<in> sr_ID ` set (snapshot_records (m_db ?e))"
    using catch_up_values [OF assms(1) inv(1,2), of now node "abs_cursor (ls_db ?s)" ?s] by metis
  have e: "s' = s1" using s1(1) assms(3) by simp
  show "agrees (m_db ?e) (sys_pending S) (ls_db s')" unfolding e using agrees_catch_up [OF inv(3) refl s1(2)] .
  show "cache_inv (ls_db s')" using CatchUpSnapshots_advanced [OF assms(3)] inv(4) unfolding advanced_def by blast
  show "abs_cursor (ls_db s') \<in> insert 0 (sr_ID ` set (snapshot_records (m_db ?e)))" unfolding e using s1(3) inv(5) by auto
qed

lemma in_set_tl: "x \<in> set (tl xs) \<Longrightarrow> x \<in> set xs"
  by (cases xs) simp_all

lemma inv_notice:
  assumes "env_ok env" "sys_inv node S" "hub_recv node (sys_sub S) (m_hub (sys_master S)) = (Some n, hub')"
    "subscribe_loop env node [(client_notice n, client_GetSnapshot now (sys_master S))] (abs_cursor (ls_db (sys_replica S))) (sys_replica S) =
      Return (Inr (), s')"
  shows "sys_inv node (S\<lparr>sys_master := (sys_master S)\<lparr>m_hub := hub'\<rparr>, sys_replica := s'\<rparr>)"
proof -
  let ?db = "m_db (sys_master S)" and ?s = "sys_replica S"
  obtain ch where ch: "chan_of node (sys_sub S) (m_hub (sys_master S)) = Some ch"
    using assms(3) by (auto simp: hub_recv_def split: option.splits)
  have all: "\<forall>n \<in> set (ch_buf ch). notice_ok ?db (sys_pending S) n" using assms(2) ch by (simp add: sys_inv_def Let_def)
  have buf: "n \<in> set (ch_buf ch)" "chan_of node (sys_sub S) hub' = Some (ch\<lparr>ch_buf := tl (ch_buf ch)\<rparr>)"
    using chan_recv [OF ch] assms(3) by (auto split: list.splits)
  have ok: "notice_ok ?db (sys_pending S) n" using all buf(1) by blast
  then obtain ty i v where n: "notice_change n = Some (ty, i, v)" "storable_change v" "cn_SnapshotRecordID n \<in> logged ?db ty i"
    unfolding notice_ok_def by blast
  have inv: "db_fault ?db ''snapshot_records'' = None" "hosts_named ?db" "agrees ?db (sys_pending S) (ls_db ?s)" "cache_inv (ls_db ?s)"
    "abs_cursor (ls_db ?s) \<in> insert 0 (sr_ID ` set (snapshot_records ?db))" "distinct (map sr_ID (snapshot_records ?db))"
    using assms(2) by (simp_all add: sys_inv_def Let_def)
  note eff = notice_effect [OF assms(1) inv(4,1,2) n(1,2) assms(4)]
  have c': "cache_inv (ls_db s')" using subscribe_loop_advanced [OF assms(4)] inv(4) unfolding advanced_def by blast
  have "agrees ?db (sys_pending S) (ls_db s') \<and> abs_cursor (ls_db s') \<in> insert 0 (sr_ID ` set (snapshot_records ?db))"
    using eff
  proof (elim disjE)
    assume "s' = ?s" then show ?thesis using inv(3,5) by simp
  next
    assume "CatchUpSnapshots env (client_GetSnapshot now (sys_master S)) node (abs_cursor (ls_db ?s)) ?s = Return (Inr (), s')"
    from inv_catch_up [OF assms(1,2) this] show ?thesis by blast
  next
    assume a: "abs_cursor (ls_db ?s) < cn_SnapshotRecordID n \<and> cn_SnapshotRecordID n = abs_cursor (ls_db ?s) + 1 \<and>
      abs_cursor (ls_db s') = cn_SnapshotRecordID n \<and>
      (\<forall>ty' i'. replica_value (ls_db s') ty' i' = (if (ty', i') = (ty, i) then Some v else replica_value (ls_db ?s) ty' i'))"
    then have "agrees ?db (sys_pending S) (ls_db s')" by (intro agrees_apply [OF inv(3,6) ok n(1)]) auto
    then show ?thesis using a logged_ids [OF n(3)] by simp
  qed
  then have "sys_inv node (S\<lparr>sys_master := (sys_master S)\<lparr>m_hub := hub'\<rparr>, sys_replica := s', sys_sub := sys_sub S\<rparr>)"
    using all buf c' by (intro inv_replica [OF assms(2)]) (auto dest: in_set_tl)
  then show ?thesis by simp
qed

lemma inv_announce_host:
  assumes "sys_inv node S" "BoardcastDomainEndpointProjection now h (sys_master S) = (Inr (), m')" "TrimSpace h \<noteq> []"
    "next_snapshot_id (snapshot_records (m_db (sys_master S))) \<noteq> 0"
    "master_value (m_db (sys_master S)) SnapshotSyncTypeDomainEntryProjection h \<noteq> None"
  shows "sys_inv node (S\<lparr>sys_master := m', sys_pending := sys_pending S - {(SnapshotSyncTypeDomainEntryProjection, h)}\<rparr>)"
proof -
  let ?db = "m_db (sys_master S)" and ?ty = "SnapshotSyncTypeDomainEntryProjection"
  have f: "db_fault ?db ''snapshot_records'' = None" using assms(1) by (simp add: sys_inv_def Let_def)
  obtain x where x: "GetDomainEntryProjectionByDomain h ?db = Inr x"
    using assms(5) by (auto simp: master_value_cases split: sum.splits)
  let ?r = "\<lparr>sr_ID = next_snapshot_id (snapshot_records ?db), sr_SyncType = ?ty, sr_SyncID = h, sr_Action = SnapshotActionUpsert, sr_CreatedAt = db_now ?db\<rparr>"
  let ?n = "\<lparr>cn_NodeID = NODE_ID (sys_master S), cn_CreatedAt = now, cn_SnapshotRecordID = sr_ID ?r, cn_DNSRecord = None, cn_DomainEntry = Some x\<rparr>"
  have m': "m' = (sys_master S)\<lparr>m_db := ?db\<lparr>snapshot_records := snapshot_records ?db @ [?r]\<rparr>, m_hub := hub_Boardcast ?n (m_hub (sys_master S))\<rparr>"
    using assms(2) x projection_not_deleted [OF x] f
    by (simp add: BoardcastDomainEndpointProjection_def appendSnapshotRecord_def AppendSnapshotRecord_def Let_def)
  show ?thesis unfolding m'
  proof (rule inv_announce [OF assms(1) refl])
    show "\<forall>q \<in> set (snapshot_records ?db). sr_ID q < sr_ID ?r" using next_snapshot_id_fresh [OF assms(4)] by simp
    show "master_value ?db ?ty h = Some (EntryChange (wire_entry x))" by (simp add: master_value_cases x)
    show "notice_change ?n = Some (?ty, h, EntryChange (wire_entry x))" using projection_host [OF x] by (simp add: notice_change_def)
    show "storable_change (EntryChange (wire_entry x))"
      using storable_wire_entry [OF x assms(3)] projection_not_deleted [OF x] by (simp add: storable_change_def wire_entry_def)
  qed (use assms(3,4) in simp_all)
qed

lemma inv_announce_dns:
  assumes "sys_inv node S" "BoardcastDNSRecord now i (sys_master S) = (Inr (), m')"
    "next_snapshot_id (snapshot_records (m_db (sys_master S))) \<noteq> 0"
    "master_value (m_db (sys_master S)) SnapshotSyncTypeDNSRecord i \<noteq> None"
  shows "sys_inv node (S\<lparr>sys_master := m', sys_pending := sys_pending S - {(SnapshotSyncTypeDNSRecord, i)}\<rparr>)"
proof -
  let ?db = "m_db (sys_master S)" and ?ty = "SnapshotSyncTypeDNSRecord"
  have f: "db_fault ?db ''snapshot_records'' = None" using assms(1) by (simp add: sys_inv_def Let_def)
  obtain x where x: "GetDNSRecord i ?db = Inr x"
    using assms(4) by (auto simp: master_value_cases split: sum.splits)
  have live: "\<not> Deleted x" using x GetResourceByField_live unfolding GetDNSRecord_def by blast
  let ?r = "\<lparr>sr_ID = next_snapshot_id (snapshot_records ?db), sr_SyncType = ?ty, sr_SyncID = i, sr_Action = SnapshotActionUpsert, sr_CreatedAt = db_now ?db\<rparr>"
  let ?n = "\<lparr>cn_NodeID = NODE_ID (sys_master S), cn_CreatedAt = now, cn_SnapshotRecordID = sr_ID ?r, cn_DNSRecord = Some x, cn_DomainEntry = None\<rparr>"
  have m': "m' = (sys_master S)\<lparr>m_db := ?db\<lparr>snapshot_records := snapshot_records ?db @ [?r]\<rparr>, m_hub := hub_Boardcast ?n (m_hub (sys_master S))\<rparr>"
    using assms(2) x live f by (simp add: BoardcastDNSRecord_def appendSnapshotRecord_def AppendSnapshotRecord_def Let_def)
  show ?thesis unfolding m'
  proof (rule inv_announce [OF assms(1) refl])
    show "\<forall>q \<in> set (snapshot_records ?db). sr_ID q < sr_ID ?r" using next_snapshot_id_fresh [OF assms(3)] by simp
    show "master_value ?db ?ty i = Some (DnsChange (wire_dns x))" by (simp add: master_value_cases x)
    show "notice_change ?n = Some (?ty, i, DnsChange (wire_dns x))" using GetDNSRecord_id [OF x] by (simp add: notice_change_def)
    show "storable_change (DnsChange (wire_dns x))"
      using storable_wire_dns live by (simp add: storable_change_def wire_dns_def)
  qed (use assms(3) in simp_all)
qed

lemma inv_step:
  assumes "env_ok env" "sys_step env node S S'" "sys_inv node S"
  shows "sys_inv node S'"
  using assms(2)
proof cases
  case (master_writes db' P)
  then show ?thesis using inv_write [OF assms(3)] by blast
next
  case (announce_host now h m')
  then show ?thesis using inv_announce_host [OF assms(3)] by blast
next
  case (announce_dns now i m')
  then show ?thesis using inv_announce_dns [OF assms(3)] by blast
next
  case (notice n hub' now s')
  then show ?thesis using inv_notice [OF assms(1,3)] by blast
next
  case (reconnect sub hub' now s')
  have sub: "sub = nextID (m_hub (sys_master S)) + 1" "hub' = snd (hub_Subscribe node 128 (m_hub (sys_master S)))"
    using reconnect(2) by (auto simp: hub_Subscribe_def Let_def)
  show ?thesis unfolding reconnect(1)
  proof (rule inv_replica [OF assms(3) inv_catch_up [OF assms(1,3) reconnect(3)]])
    show "\<forall>n \<in> set (ch_buf ch). notice_ok (m_db (sys_master S)) (sys_pending S) n" if "chan_of node sub hub' = Some ch" for ch
      using that by (simp add: sub chan_Subscribe) auto
  qed
qed

lemma inv_init: "sys_init node S \<Longrightarrow> sys_inv node S"
  by (auto simp: sys_init_def sys_inv_def agrees_def cache_inv_def abs_cursor_def chan_of_def node_subs_def NewHub_def logged_def Let_def)

lemma inv_reachable:
  assumes "sys_reachable env node S0 S" "env_ok env" "sys_init node S0"
  shows "sys_inv node S"
  using assms(1) by induction (use assms(2,3) inv_init inv_step in blast)+

section \<open>Properties\<close>



text \<open>A master with one announced host and a fresh replica.\<close>

lemma sample_system:
  defines "db \<equiv> sample_db\<lparr>snapshot_records := [\<lparr>sr_ID = 5, sr_SyncType = SnapshotSyncTypeDomainEntryProjection, sr_SyncID = ''h'',
      sr_Action = SnapshotActionUpsert, sr_CreatedAt = 0\<rparr>]\<rparr>"
  defines "S0 \<equiv> \<lparr>sys_master = \<lparr>NODE_ID = ''m'', m_db = db, m_hub = NewHub\<rparr>, sys_replica = empty_store, sys_sub = 0, sys_pending = {}\<rparr>"
  shows "env_ok good_env" "sys_init ''n'' S0" "\<exists>v. master_value (m_db (sys_master S0)) SnapshotSyncTypeDomainEntryProjection ''h'' = Some v"
    "logged (m_db (sys_master S0)) SnapshotSyncTypeDomainEntryProjection ''h'' = {5}" "sys_pending S0 = {}"
proof -
  show "env_ok good_env" by (simp add: env_ok_def good_env_def)
  have "TrimSpace ''h'' \<noteq> []" by code_simp
  then show "sys_init ''n'' S0"
    by (simp add: sys_init_def S0_def db_def hosts_named_def empty_store_def sample_db_def empty_db_def)
  show "logged (m_db (sys_master S0)) SnapshotSyncTypeDomainEntryProjection ''h'' = {5}" by (auto simp: logged_def S0_def db_def)
  have "case GetDomainEntryProjectionByDomain ''h'' db of Inl _ \<Rightarrow> False | Inr _ \<Rightarrow> True" unfolding db_def by code_simp
  then have "\<exists>x. GetDomainEntryProjectionByDomain ''h'' db = Inr x" by (cases "GetDomainEntryProjectionByDomain ''h'' db") simp_all
  then show "\<exists>v. master_value (m_db (sys_master S0)) SnapshotSyncTypeDomainEntryProjection ''h'' = Some v"
    by (auto simp: S0_def master_value_cases)
  show "sys_pending S0 = {}" by (simp add: S0_def)
qed



text \<open>C20. Announcements of one host can overtake each other. Reading the entry of a host and appending it to the
  log are separate steps that nothing serialises. When one task reads the entry, another changes and announces
  the host, and the first task then finishes, the replica applies both notices in log order and ends with the
  old entry, although its cursor covers the whole log, so that no later catch-up repairs it.\<close>

theorem announcements_can_overtake:
  "\<exists>m db' xold xnew m1 m2 sub n1 n2 h1 h2 s'.
     GetDomainEntryProjectionByDomain ''h'' (m_db m) = Inr xold \<and>
     BoardcastDomainEndpointProjection 0 ''h'' (m\<lparr>m_db := db'\<rparr>) = (Inr (), m1) \<and>
     publish_entry 0 ''h'' xold m1 = (Inr (), m2) \<and>
     hub_recv ''n'' sub (m_hub m2) = (Some n1, h1) \<and> hub_recv ''n'' sub h1 = (Some n2, h2) \<and>
     subscribe_loop good_env ''n'' [(client_notice n1, client_GetSnapshot 0 m2), (client_notice n2, client_GetSnapshot 0 m2)] 0 empty_store =
       Return (Inr (), s') \<and>
     GetDomainEntryProjectionByDomain ''h'' (m_db m2) = Inr xnew \<and> GetDomainEntryByHostname good_env ''h'' s' = Inr xold \<and>
     dp_BackendType xold \<noteq> dp_BackendType xnew \<and> logged (m_db m2) SnapshotSyncTypeDomainEntryProjection ''h'' = {1, 2} \<and>
     abs_cursor (ls_db s') = 2"
proof -
  define dom where "dom b = empty_db\<lparr>domain_endpoints := [zero_DomainEndpoint\<lparr>de_Hostname := ''h'', de_BackendType := b\<rparr>]\<rparr>" for b
  define ent where "ent b = zero_DomainEntryProjection\<lparr>dp_Hostname := ''h'', dp_BackendType := b\<rparr>" for b
  define log where "log i = \<lparr>sr_ID = i, sr_SyncType = SnapshotSyncTypeDomainEntryProjection, sr_SyncID = ''h'', sr_Action = SnapshotActionUpsert,
    sr_CreatedAt = 0\<rparr>" for i :: "64 word"
  define ntc where "ntc i b = \<lparr>cn_NodeID = ''m'', cn_CreatedAt = 0, cn_SnapshotRecordID = i, cn_DNSRecord = None, cn_DomainEntry = Some (ent b)\<rparr>"
    for i :: "64 word" and b
  define hub where "hub ns = \<lparr>subscribers = [(''n'', [(1 :: 64 word, \<lparr>ch_cap = 128, ch_buf = ns\<rparr>)])], nextID = 1\<rparr>" for ns
  let ?old = BackendTypeL7HTTP and ?new = BackendTypeL7HTTPS
  let ?m = "\<lparr>NODE_ID = ''m'', m_db = dom ?old, m_hub = hub []\<rparr>"
  let ?m1 = "\<lparr>NODE_ID = ''m'', m_db = (dom ?new)\<lparr>snapshot_records := [log 1]\<rparr>, m_hub = hub [ntc 1 ?new]\<rparr>"
  let ?m2 = "\<lparr>NODE_ID = ''m'', m_db = (dom ?new)\<lparr>snapshot_records := [log 1, log 2]\<rparr>, m_hub = hub [ntc 1 ?new, ntc 2 ?old]\<rparr>"
  have p: "GetDomainEntryProjectionByDomain ''h'' (dom ?old) = Inr (ent ?old)" "GetDomainEntryProjectionByDomain ''h'' (dom ?new) = Inr (ent ?new)"
    unfolding dom_def ent_def by code_simp+
  have p2: "GetDomainEntryProjectionByDomain ''h'' (m_db ?m2) = Inr (ent ?new)"
    using p(2) by (simp add: GetDomainEntryProjectionByDomain_def projection_rows_log cong: option.case_cong)
  have d: "db_fault (dom b) = (\<lambda>_. None)" "snapshot_records (dom b) = []" "db_now (dom b) = 0" for b by (simp_all add: dom_def empty_db_def)
  have del: "dp_Deleted (ent b) = False" for b by (simp add: ent_def zero_DomainEntryProjection_def)
  have a1: "BoardcastDomainEndpointProjection 0 ''h'' (?m\<lparr>m_db := dom ?new\<rparr>) = (Inr (), ?m1)"
    by (simp add: announce_halves [of "''h''" _ "ent ?new"] p publish_entry_def appendSnapshotRecord_def AppendSnapshotRecord_def d del
        next_snapshot_id_def log_def hub_def hub_Boardcast_def chan_send_def ntc_def)
  have a2: "publish_entry 0 ''h'' (ent ?old) ?m1 = (Inr (), ?m2)"
    by (simp add: publish_entry_def appendSnapshotRecord_def AppendSnapshotRecord_def d del
        next_snapshot_id_def log_def hub_def hub_Boardcast_def chan_send_def ntc_def)
  have r: "hub_recv ''n'' 1 (hub (n # ns)) = (Some n, hub ns)" for n ns
    by (simp add: hub_def hub_recv_def chan_of_def node_subs_def)
  have w: "client_notice (ntc i b) = Inr (Some (ntc i b))" for i b
    by (simp add: client_notice_def notice_roundtrip ntc_def wire_notice_def wire_entry_def ent_def zero_DomainEntryProjection_def)
  have le: "\<not> (2 :: 64 word) \<le> 1" by (simp add: word_le_nat_alt)
  obtain s' where s': "subscribe_loop good_env ''n'' [(Inr (Some (ntc 1 ?new)), client_GetSnapshot 0 ?m2), (Inr (Some (ntc 2 ?old)), client_GetSnapshot 0 ?m2)] 0
      empty_store = Return (Inr (), s')" "GetDomainEntryByHostname good_env ''h'' s' = Inr (ent ?old)" "abs_cursor (ls_db s') = 2"
    by (simp add: ntc_def ent_def zero_DomainEntryProjection_def GetSnapshotRecordID_def good_env_def empty_store_def dealDomainEntries_def
        json_entry_def json_cert_def json_backend_def updateSnapshotRecordID_def commit_def ApplyChangelog_def sync_key_def abs_cursor_def
        GetDomainEntryByHostname_def le)
  have l: "logged (m_db ?m2) SnapshotSyncTypeDomainEntryProjection ''h'' = {1, 2}"
    by (force simp: logged_def log_def image_iff)
  have ne: "dp_BackendType (ent ?old) \<noteq> dp_BackendType (ent ?new)" by (simp add: ent_def)
  show ?thesis
    using p(1) a1 a2 r [of "ntc 1 ?new" "[ntc 2 ?old]"] r [of "ntc 2 ?old" "[]"] s'(1) [folded w] p2 s'(2,3) ne l
    by (intro exI [of _ ?m] exI [of _ "dom ?new"] exI [of _ "ent ?old"] exI [of _ "ent ?new"] exI [of _ ?m1] exI [of _ ?m2] exI [of _ 1]
        exI [of _ "ntc 1 ?new"] exI [of _ "ntc 2 ?old"] exI [of _ "hub [ntc 2 ?old]"] exI [of _ "hub []"] exI [of _ s']) simp
qed

end
