(* ===== verification/Go_Net.thy ===== *)
theory Go_Net
  imports Prelude
begin

text \<open>
  The parts of Go's packages \<^verbatim>\<open>net\<close> (address parsing and printing, host and port), \<^verbatim>\<open>strconv\<close>
  (\<^verbatim>\<open>Atoi\<close>), \<^verbatim>\<open>strings\<close> (\<^verbatim>\<open>SplitN\<close>), \<^verbatim>\<open>encoding/json\<close> (string output) and \<^verbatim>\<open>sort\<close> (stable sorting) that the
  DNS and ingress engines call.  An \<^verbatim>\<open>net.IP\<close> is a list of bytes and
  the nil address is the empty list.  The main lemma, \<open>ParseIP_String\<close>, says that reading a
  printed address gives the address back.
\<close>

section \<open>Addresses\<close>

type_synonym IP = "8 word list"

definition octet :: "string \<Rightarrow> (8 word) option" where
  "octet p = (if 1 < length p \<and> hd p = CHR ''0'' then None else map_option of_nat (ParseUint 8 p))"

fun collect :: "'a option list \<Rightarrow> 'a list option" where
  "collect [] = Some []"
| "collect (None # xs) = None"
| "collect (Some x # xs) = map_option ((#) x) (collect xs)"

definition parseIPv4 :: "string \<Rightarrow> IP option" where
  "parseIPv4 s = (let parts = Split s (CHR ''.'') in if length parts = 4 then collect (map octet parts) else None)"

definition hex_val :: "char \<Rightarrow> nat option" where
  "hex_val c = (let n = (of_char c :: nat) in
     if 48 \<le> n \<and> n \<le> 57 then Some (n - 48)
     else if 97 \<le> n \<and> n \<le> 102 then Some (n - 87)
     else if 65 \<le> n \<and> n \<le> 70 then Some (n - 55)
     else None)"

definition is_hex :: "char \<Rightarrow> bool" where
  "is_hex c = (hex_val c \<noteq> None)"

definition hex_value :: "string \<Rightarrow> nat" where
  "hex_value s = foldl (\<lambda>acc c. acc * 16 + the (hex_val c)) 0 s"

definition group_bytes :: "nat \<Rightarrow> IP" where
  "group_bytes g = [of_nat (g div 256), of_nat (g mod 256)]"

definition finish6 :: "nat option \<Rightarrow> IP \<Rightarrow> string \<Rightarrow> IP option" where
  "finish6 ellipsis ip s = (
     if s \<noteq> [] then None
     else if length ip < 16 then (case ellipsis of
         None \<Rightarrow> None
       | Some k \<Rightarrow> Some (take k ip @ replicate (16 - length ip) 0 @ drop k ip))
     else if ellipsis \<noteq> None then None
     else Some ip)"

text \<open>The loop of \<^verbatim>\<open>parseIPv6\<close>: one hexadecimal group per round, with the bytes read so far and the
  position of the ellipsis.\<close>

function parse6 :: "nat option \<Rightarrow> IP \<Rightarrow> string \<Rightarrow> IP option" where
  "parse6 e ip s = (
     if 16 \<le> length ip then finish6 e ip s
     else let d = takeWhile is_hex s; r = dropWhile is_hex s in
       if d = [] \<or> 4 < length d then None
       else if r \<noteq> [] \<and> hd r = CHR ''.'' then
         (if e = None \<and> length ip \<noteq> 12 then None
          else if 16 < length ip + 4 then None
          else case parseIPv4 s of None \<Rightarrow> None | Some v \<Rightarrow> finish6 e (ip @ v) [])
       else let ip' = ip @ group_bytes (hex_value d) in
         if r = [] then finish6 e ip' []
         else if hd r \<noteq> CHR '':'' \<or> tl r = [] then None
         else if hd (tl r) = CHR '':'' then
           (if e \<noteq> None then None
            else if tl (tl r) = [] then finish6 (Some (length ip')) ip' []
            else parse6 (Some (length ip')) ip' (tl (tl r)))
         else parse6 e ip' (tl r))"
  by pat_completeness auto

termination parse6
proof -
  have shorter: "length (dropWhile is_hex s) < length s" if "takeWhile is_hex s \<noteq> []" for s
    using that by (metis append_Nil length_append length_greater_0_conv less_add_same_cancel2 takeWhile_dropWhile_id)
  show ?thesis
  proof (relation "measure (\<lambda>(e, ip, s). length s)", goal_cases)
    case (2 e ip s d r ip')
    then show ?case using shorter [of s] by simp
  next
    case (3 e ip s d r ip')
    then show ?case using shorter [of s] by simp
  qed simp
qed

declare parse6.simps [simp del]

definition parseIPv6 :: "string \<Rightarrow> IP option" where
  "parseIPv6 s = (if HasPrefix s ''::'' then
       (if length s = 2 then Some (replicate 16 0) else parse6 (Some 0) [] (drop 2 s))
     else parse6 None [] s)"

definition v4_in_6 :: "IP \<Rightarrow> IP" where
  "v4_in_6 v = replicate 10 0 @ [255, 255] @ v"

text \<open>\<^verbatim>\<open>net.ParseIP\<close>: the first dot or colon decides the family, and an address with a zone is refused.\<close>

definition ParseIP :: "string \<Rightarrow> IP" where
  "ParseIP s = (if CHR ''%'' \<in> set s then []
     else case filter (\<lambda>c. c = CHR ''.'' \<or> c = CHR '':'') s of
       [] \<Rightarrow> []
     | c # _ \<Rightarrow> (if c = CHR ''.'' then (case parseIPv4 s of None \<Rightarrow> [] | Some v \<Rightarrow> v4_in_6 v)
                else (case parseIPv6 s of None \<Rightarrow> [] | Some v \<Rightarrow> v)))"

definition To4 :: "IP \<Rightarrow> IP" where
  "To4 ip = (if length ip = 4 then ip
     else if length ip = 16 \<and> take 12 ip = replicate 10 0 @ [255, 255] then drop 12 ip
     else [])"

definition hex_digit :: "nat \<Rightarrow> char" where
  "hex_digit n = (if n < 10 then char_of (48 + n) else char_of (87 + n))"

fun FormatHex :: "nat \<Rightarrow> string" where
  "FormatHex n = (if n < 16 then [hex_digit n] else FormatHex (n div 16) @ [hex_digit (n mod 16)])"

declare FormatHex.simps [simp del]

fun groups :: "IP \<Rightarrow> nat list" where
  "groups (a # b # ip) = (unat a * 256 + unat b) # groups ip"
| "groups ip = []"

definition zero_run :: "nat list \<Rightarrow> nat \<Rightarrow> nat" where
  "zero_run gs i = length (takeWhile (\<lambda>g. g = 0) (drop i gs))"

definition best_run :: "nat list \<Rightarrow> nat \<times> nat" where
  "best_run gs = foldl (\<lambda>(zs, zl) i. if 2 \<le> zero_run gs i \<and> zl < zero_run gs i then (i, zero_run gs i) else (zs, zl)) (0, 0) [0..<length gs]"

definition string6 :: "nat list \<Rightarrow> string" where
  "string6 gs = (case best_run gs of (zs, zl) \<Rightarrow>
     if zl = 0 then Join (map FormatHex gs) '':''
     else Join (map FormatHex (take zs gs)) '':'' @ ''::'' @ Join (map FormatHex (drop (zs + zl) gs)) '':'')"

definition IP_String :: "IP \<Rightarrow> string" where
  "IP_String ip = (
     if ip = [] then ''<nil>''
     else if length ip \<noteq> 4 \<and> length ip \<noteq> 16 then ''?'' @ concat (map (\<lambda>b. [hex_digit (unat b div 16), hex_digit (unat b mod 16)]) ip)
     else if To4 ip \<noteq> [] then Join (map (\<lambda>b. FormatNat (unat b)) (To4 ip)) ''.''
     else string6 (groups ip))"

text \<open>The characters of addresses, and the bytes of a list of groups.\<close>

definition addr_char :: "char \<Rightarrow> bool" where
  "addr_char c = (is_hex c \<or> c = CHR ''.'' \<or> c = CHR '':'')"

definition bytes_of :: "nat list \<Rightarrow> IP" where
  "bytes_of gs = concat (map group_bytes gs)"

section \<open>Numbers and fields\<close>

definition Atoi :: "string \<Rightarrow> int option" where
  "Atoi s = (
     let neg = (s \<noteq> [] \<and> hd s = CHR ''-''); t = (if s \<noteq> [] \<and> (hd s = CHR ''-'' \<or> hd s = CHR ''+'') then tl s else s) in
     if t = [] then None
     else case parse_digits 0 t of
       None \<Rightarrow> None
     | Some n \<Rightarrow> (let v = (if neg then - int n else int n) in if - (2 ^ 63) \<le> v \<and> v < 2 ^ 63 then Some v else None))"

fun SplitN :: "string \<Rightarrow> char \<Rightarrow> nat \<Rightarrow> string list" where
  "SplitN s b 0 = []"
| "SplitN s b (Suc 0) = [s]"
| "SplitN s b (Suc (Suc n)) = (case Index s [b] of None \<Rightarrow> [s] | Some i \<Rightarrow> take i s # SplitN (drop (Suc i) s) b (Suc n))"

section \<open>Host and port\<close>

definition IndexByte :: "string \<Rightarrow> char \<Rightarrow> nat option" where
  "IndexByte s b = Index s [b]"

text \<open>\<^verbatim>\<open>net.SplitHostPort\<close>; the kinds of its error are not told apart.\<close>

definition SplitHostPort :: "string \<Rightarrow> (string \<times> string) option" where
  "SplitHostPort hostport = (case LastIndexByte hostport (CHR '':'') of
       None \<Rightarrow> None
     | Some i \<Rightarrow>
         (let finish = (\<lambda>host j k. if CHR ''['' \<in> set (drop j hostport) \<or> CHR '']'' \<in> set (drop k hostport) then None
              else Some (host, drop (i + 1) hostport)) in
          if hd hostport = CHR ''['' then
            (case IndexByte hostport (CHR '']'') of
               None \<Rightarrow> None
             | Some e \<Rightarrow> if e + 1 = i then finish (drop 1 (take e hostport)) 1 (e + 1) else None)
          else if CHR '':'' \<in> set (take i hostport) then None
          else finish (take i hostport) 0 0))"

section \<open>Strings in JSON\<close>

text \<open>The length of the UTF-8 sequence a text starts with, 0 if it starts with none.\<close>

definition byte_in :: "nat \<Rightarrow> nat \<Rightarrow> char \<Rightarrow> bool" where
  "byte_in lo hi c = (lo \<le> (of_char c :: nat) \<and> (of_char c :: nat) \<le> hi)"

fun utf8_len :: "string \<Rightarrow> nat" where
  "utf8_len [] = 0"
| "utf8_len (a # s) = (
     if byte_in 0 127 a then 1
     else if byte_in 194 223 a then (if s \<noteq> [] \<and> byte_in 128 191 (s ! 0) then 2 else 0)
     else if byte_in 224 239 a then
       (if 2 \<le> length s \<and> byte_in (if a = CHR 0xE0 then 160 else 128) (if a = CHR 0xED then 159 else 191) (s ! 0) \<and> byte_in 128 191 (s ! 1)
        then 3 else 0)
     else if byte_in 240 244 a then
       (if 3 \<le> length s \<and> byte_in (if a = CHR 0xF0 then 144 else 128) (if a = CHR 0xF4 then 143 else 191) (s ! 0) \<and> byte_in 128 191 (s ! 1) \<and>
           byte_in 128 191 (s ! 2)
        then 4 else 0)
     else 0)"

text \<open>How \<^verbatim>\<open>json.Marshal\<close> writes one ASCII byte of a string.\<close>

definition json_ascii :: "char \<Rightarrow> string" where
  "json_ascii c = (
     if c = CHR 0x22 then [CHR 0x5C, CHR 0x22]
     else if c = CHR 0x5C then [CHR 0x5C, CHR 0x5C]
     else if c = CHR 0x08 then [CHR 0x5C, CHR ''b'']
     else if c = CHR 0x0C then [CHR 0x5C, CHR ''f'']
     else if c = CHR 0x0A then [CHR 0x5C, CHR ''n'']
     else if c = CHR 0x0D then [CHR 0x5C, CHR ''r'']
     else if c = CHR 0x09 then [CHR 0x5C, CHR ''t'']
     else if byte_in 0 31 c \<or> c = CHR ''<'' \<or> c = CHR ''>'' \<or> c = CHR ''&'' then
       [CHR 0x5C] @ ''u00'' @ [hex_digit (of_char c div 16), hex_digit (of_char c mod 16)]
     else [c])"

function json_chars :: "string \<Rightarrow> string" where
  "json_chars s = (
     if s = [] then []
     else if utf8_len s = 0 then [CHR 0x5C] @ ''ufffd'' @ json_chars (tl s)
     else if utf8_len s = 1 then json_ascii (hd s) @ json_chars (tl s)
     else if take 3 s = [CHR 0xE2, CHR 0x80, CHR 0xA8] then [CHR 0x5C] @ ''u2028'' @ json_chars (drop 3 s)
     else if take 3 s = [CHR 0xE2, CHR 0x80, CHR 0xA9] then [CHR 0x5C] @ ''u2029'' @ json_chars (drop 3 s)
     else take (utf8_len s) s @ json_chars (drop (utf8_len s) s))"
  by pat_completeness auto
termination json_chars
  by (relation "measure length") auto

declare json_chars.simps [simp del]

definition json_string :: "string \<Rightarrow> string" where
  "json_string s = [CHR 0x22] @ json_chars s @ [CHR 0x22]"

definition json_strings :: "string list \<Rightarrow> string" where
  "json_strings vs = ''['' @ Join (map json_string vs) '','' @ '']''"

section \<open>Stable sorting\<close>

text \<open>\<^verbatim>\<open>sort.SliceStable\<close> moves each element left past the elements it is less than.  For a strict weak
  order the result is the only stable arrangement.\<close>

fun insert_left :: "('a \<Rightarrow> 'a \<Rightarrow> bool) \<Rightarrow> 'a \<Rightarrow> 'a list \<Rightarrow> 'a list" where
  "insert_left lt x [] = [x]"
| "insert_left lt x (y # ys) = (if lt x y then y # insert_left lt x ys else x # y # ys)"

definition SliceStable :: "('a \<Rightarrow> 'a \<Rightarrow> bool) \<Rightarrow> 'a list \<Rightarrow> 'a list" where
  "SliceStable lt xs = rev (foldl (\<lambda>acc x. insert_left lt x acc) [] xs)"

section \<open>Printing and reading decimal numbers\<close>

lemma Atoi_FormatNat:
  assumes "n < 2 ^ 63"
  shows "Atoi (FormatNat n) = Some (int n)"
proof -
  have "is_digit (hd (FormatNat n))" by (rule FormatNat_digits [of _ n]) simp
  then have "hd (FormatNat n) \<noteq> CHR ''-''" "hd (FormatNat n) \<noteq> CHR ''+''" by (auto simp: is_digit_def)
  moreover have "int n < 2 ^ 63" using assms by simp
  ultimately show ?thesis by (simp add: Atoi_def parse_FormatNat)
qed

lemma SplitN_sep: "b \<notin> set w \<Longrightarrow> SplitN (w @ b # s) b (Suc (Suc n)) = w # SplitN s b (Suc n)"
proof -
  assume "b \<notin> set w"
  then have "Index (w @ b # s) [b] = Some (length w)" by (induction w) (auto simp: HasPrefix_def)
  then show ?thesis by simp
qed

lemma FormatNat_leading: "0 < n \<Longrightarrow> hd (FormatNat n) \<noteq> CHR ''0''"
proof (induction n rule: FormatNat.induct)
  case (1 n)
  show ?case
  proof (cases "n < 10")
    case True
    then have "(of_char (char_of (48 + n) :: char) :: nat) \<noteq> of_char (CHR ''0'')" using 1 by simp
    then have "char_of (48 + n) \<noteq> CHR ''0''" by metis
    then show ?thesis using True by (simp add: FormatNat.simps [of n] digit_char_def)
  next
    case False
    then show ?thesis using 1 by (simp add: FormatNat.simps [of n])
  qed
qed

lemma octet_FormatNat [simp]: "octet (FormatNat (unat b)) = Some b"
proof -
  have "hd (FormatNat (unat b)) \<noteq> CHR ''0''" if "1 < length (FormatNat (unat b))"
  proof -
    have "unat b \<noteq> 0"
    proof
      assume "unat b = 0"
      then show False using that by (simp add: FormatNat.simps [of 0])
    qed
    then show ?thesis using FormatNat_leading [of "unat b"] by simp
  qed
  moreover have "unat b < 2 ^ 8" using unsigned_less [of b] by simp
  ultimately show ?thesis by (simp add: octet_def)
qed

section \<open>Reading a printed address\<close>

lemma collect_Some [simp]: "collect (map (\<lambda>x. Some (f x)) xs) = Some (map f xs)"
  by (induction xs) auto

lemma hex_digit_props:
  assumes "n < 16"
  shows "hex_val (hex_digit n) = Some n"
  using assms by (auto simp: hex_val_def hex_digit_def Let_def)

lemma hex_digit_is_hex [simp]: "n < 16 \<Longrightarrow> is_hex (hex_digit n)"
  by (simp add: is_hex_def hex_digit_props)

lemma FormatHex_not_Nil [simp]: "FormatHex n \<noteq> []"
  by (subst FormatHex.simps) simp

lemma FormatHex_hex: "c \<in> set (FormatHex n) \<Longrightarrow> is_hex c"
  by (induction n rule: FormatHex.induct) (subst (asm) (2) FormatHex.simps, auto split: if_splits)

lemma hex_value_snoc: "hex_value (s @ [c]) = hex_value s * 16 + the (hex_val c)"
  by (simp add: hex_value_def)

lemma hex_value_FormatHex [simp]: "hex_value (FormatHex n) = n"
proof (induction n rule: FormatHex.induct)
  case (1 n)
  show ?case
  proof (cases "n < 16")
    case True
    then show ?thesis by (simp add: FormatHex.simps [of n] hex_value_def hex_digit_props)
  next
    case False
    then show ?thesis using 1 by (simp add: FormatHex.simps [of n] hex_value_snoc hex_digit_props)
  qed
qed

lemma FormatHex_length: "n < 16 ^ Suc k \<Longrightarrow> length (FormatHex n) \<le> Suc k"
proof (induction k arbitrary: n)
  case 0
  then show ?case by (simp add: FormatHex.simps [of n])
next
  case (Suc k)
  then have "n div 16 < 16 ^ Suc k" by (simp add: less_mult_imp_div_less)
  then have "length (FormatHex (n div 16)) \<le> Suc k" by (rule Suc.IH)
  then show ?case by (simp add: FormatHex.simps [of n])
qed

lemma hex_split:
  assumes "r = [] \<or> \<not> is_hex (hd r)"
  shows "takeWhile is_hex (FormatHex n @ r) = FormatHex n" "dropWhile is_hex (FormatHex n @ r) = r"
proof -
  have "takeWhile is_hex r = []" "dropWhile is_hex r = r" using assms by (cases r; simp)+
  then show "takeWhile is_hex (FormatHex n @ r) = FormatHex n" "dropWhile is_hex (FormatHex n @ r) = r"
    by (simp_all add: takeWhile_append2 dropWhile_append2 FormatHex_hex)
qed

lemma hex_only [simp]: "takeWhile is_hex (FormatHex n) = FormatHex n" "dropWhile is_hex (FormatHex n) = []"
  using hex_split [of "[]" n] by (simp_all only: append_Nil2 simp_thms)

lemma separators_not_hex [simp]: "\<not> is_hex (CHR '':'')" "\<not> is_hex (CHR ''.'')" "\<not> is_hex (CHR ''%'')"
  by (simp_all add: is_hex_def hex_val_def)

lemma bytes_of_simps [simp]: "bytes_of [] = []" "bytes_of (g # gs) = group_bytes g @ bytes_of gs"
  by (simp_all add: bytes_of_def)

lemma length_group [simp]: "length (group_bytes g) = 2"
  by (simp add: group_bytes_def)

lemma length_bytes_of [simp]: "length (bytes_of gs) = 2 * length gs"
  by (induction gs) simp_all

text \<open>One round of the loop on a group that a colon or the end of the text follows.\<close>

lemma parse6_last:
  assumes "length ip < 16" "g < 65536"
  shows "parse6 e ip (FormatHex g) = finish6 e (ip @ group_bytes g) []"
  using assms FormatHex_length [of g 3] by (subst parse6.simps) (simp add: Let_def)

lemma parse6_group:
  assumes "length ip < 16" "g < 65536" "r \<noteq> []" "hd r \<noteq> CHR '':''"
  shows "parse6 e ip (FormatHex g @ '':'' @ r) = parse6 e (ip @ group_bytes g) r"
  using assms hex_split [of "'':'' @ r" g] FormatHex_length [of g 3] by (subst parse6.simps) simp

lemma parse6_ellipsis:
  assumes "length ip < 16" "g < 65536"
  shows "parse6 None ip (FormatHex g @ ''::'' @ r) =
    (if r = [] then finish6 (Some (length ip + 2)) (ip @ group_bytes g) [] else parse6 (Some (length ip + 2)) (ip @ group_bytes g) r)"
  using assms hex_split [of "''::'' @ r" g] FormatHex_length [of g 3] by (subst parse6.simps) simp

lemma FormatHex_hd [simp]: "hd (FormatHex g @ r) \<noteq> CHR '':''" "hd (FormatHex g) \<noteq> CHR '':''"
  using FormatHex_hex [of "hd (FormatHex g)" g] by (auto simp: hd_append)

lemma Join_FormatHex:
  "gs \<noteq> [] \<Longrightarrow> Join (map FormatHex gs) '':'' \<noteq> [] \<and> hd (Join (map FormatHex gs) '':'' @ r) \<noteq> CHR '':''"
  by (cases gs; cases "tl gs") simp_all

lemma parse6_groups:
  assumes "gs \<noteq> []" "list_all (\<lambda>g. g < 65536) gs" "length ip + 2 * length gs \<le> 16"
  shows "parse6 e ip (Join (map FormatHex gs) '':'') = finish6 e (ip @ bytes_of gs) []"
  using assms
proof (induction gs arbitrary: ip)
  case (Cons g gs)
  show ?case
  proof (cases gs)
    case Nil
    then show ?thesis using Cons.prems by (simp add: parse6_last)
  next
    case (Cons h hs)
    have "parse6 e ip (Join (map FormatHex (g # gs)) '':'') = parse6 e (ip @ group_bytes g) (Join (map FormatHex gs) '':'')"
      using parse6_group [of ip g "Join (map FormatHex gs) '':''" e] Join_FormatHex [of gs "[]"] Cons.prems Cons by simp
    then show ?thesis using Cons.IH [of "ip @ group_bytes g"] Cons.prems Cons by simp
  qed
qed simp

lemma parse6_groups_ellipsis:
  assumes "gs \<noteq> []" "list_all (\<lambda>g. g < 65536) gs" "length ip + 2 * length gs \<le> 16"
  shows "parse6 None ip (Join (map FormatHex gs) '':'' @ ''::'' @ r) =
    (if r = [] then finish6 (Some (length ip + 2 * length gs)) (ip @ bytes_of gs) []
     else parse6 (Some (length ip + 2 * length gs)) (ip @ bytes_of gs) r)"
  using assms
proof (induction gs arbitrary: ip)
  case (Cons g gs)
  show ?case
  proof (cases gs)
    case Nil
    then show ?thesis using Cons.prems parse6_ellipsis [of ip g r] by simp
  next
    case (Cons h hs)
    have "parse6 None ip (Join (map FormatHex (g # gs)) '':'' @ ''::'' @ r) =
        parse6 None (ip @ group_bytes g) (Join (map FormatHex gs) '':'' @ ''::'' @ r)"
      using parse6_group [of ip g "Join (map FormatHex gs) '':'' @ ''::'' @ r" None] Join_FormatHex [of gs "[]"] Cons.prems Cons by simp
    then show ?thesis using Cons.IH [of "ip @ group_bytes g"] Cons.prems Cons by (simp add: add.commute add.left_commute)
  qed
qed simp

text \<open>The run the printer chooses consists of zeros and lies inside the address.\<close>

lemma best_run_zeros:
  assumes "best_run gs = (zs, zl)" "zl \<noteq> 0"
  shows "take zl (drop zs gs) = replicate zl 0" "zs + zl \<le> length gs"
proof -
  have run: "take (zero_run gs i) (drop i gs) = replicate (zero_run gs i) 0 \<and> i + zero_run gs i \<le> length gs" if "i \<le> length gs" for i
  proof
    have "takeWhile (\<lambda>g. g = 0) (drop i gs) = take (zero_run gs i) (drop i gs)"
      by (simp add: zero_run_def takeWhile_eq_take [symmetric])
    moreover have "takeWhile (\<lambda>g. g = 0) xs = replicate (length (takeWhile (\<lambda>g. g = 0) xs)) 0" for xs :: "nat list"
      by (induction xs) auto
    ultimately show "take (zero_run gs i) (drop i gs) = replicate (zero_run gs i) 0" by (metis zero_run_def)
    show "i + zero_run gs i \<le> length gs"
      using length_takeWhile_le [of "\<lambda>g. g = 0" "drop i gs"] that by (simp add: zero_run_def)
  qed
  let ?f = "\<lambda>(zs, zl) i. if 2 \<le> zero_run gs i \<and> zl < zero_run gs i then (i, zero_run gs i) else (zs, zl)"
  let ?ok = "\<lambda>(zs, zl). zl = 0 \<or> take zl (drop zs gs) = replicate zl 0 \<and> zs + zl \<le> length gs"
  have "?ok (foldl ?f a is)" if "?ok a" "\<forall>i \<in> set is. i \<le> length gs" for a "is"
    using that
  proof (induction "is" arbitrary: a)
    case (Cons i "is")
    have "?ok (?f a i)" using Cons.prems run [of i] by (cases a) simp
    then show ?case using Cons by simp
  qed simp
  from this [of "(0, 0)" "[0..<length gs]"] have "?ok (best_run gs)" by (simp add: best_run_def)
  then show "take zl (drop zs gs) = replicate zl 0" "zs + zl \<le> length gs" using assms by simp_all
qed

lemma bytes_of_groups: "even (length ip) \<Longrightarrow> bytes_of (groups ip) = ip"
proof (induction ip rule: groups.induct)
  case (1 a b ip)
  have "unat b < 256" using unsigned_less [of b] by simp
  then show ?case using 1 by (simp add: group_bytes_def)
qed simp_all

lemma length_groups: "length (groups ip) = length ip div 2"
  by (induction ip rule: groups.induct) simp_all

lemma groups_small: "list_all (\<lambda>g. g < 65536) (groups ip)"
proof (induction ip rule: groups.induct)
  case (1 a b ip)
  have "unat a < 256" "unat b < 256" using unsigned_less [of a] unsigned_less [of b] by simp_all
  then show ?case using 1 by simp
qed simp_all

lemma bytes_of_append: "bytes_of (xs @ ys) = bytes_of xs @ bytes_of ys"
  by (simp add: bytes_of_def)

lemma bytes_of_zeros: "bytes_of (replicate n 0) = replicate (2 * n) 0"
  by (induction n) (simp_all add: group_bytes_def)

lemma Join_no_prefix: "gs \<noteq> [] \<Longrightarrow> \<not> HasPrefix (Join (map FormatHex gs) '':'' @ r) ''::''"
  using Join_FormatHex [of gs r] by (cases "Join (map FormatHex gs) '':'' @ r") (auto simp: HasPrefix_def)

lemma parse_string6:
  assumes "length gs = 8" "list_all (\<lambda>g. g < 65536) gs"
  shows "parseIPv6 (string6 gs) = Some (bytes_of gs)"
proof -
  obtain zs zl where b: "best_run gs = (zs, zl)" by (cases "best_run gs")
  have ne: "gs \<noteq> []" using assms(1) by auto
  show ?thesis
  proof (cases "zl = 0")
    case True
    then show ?thesis
      using parse6_groups [OF ne assms(2), of "[]" None] Join_no_prefix [OF ne, of "[]"] assms(1) b
      by (simp add: parseIPv6_def string6_def finish6_def)
  next
    case False
    note z = best_run_zeros [OF b False]
    define pre post where "pre = take zs gs" and "post = drop (zs + zl) gs"
    have gs: "gs = pre @ replicate zl 0 @ post"
      unfolding pre_def post_def z(1) [symmetric] by (metis append_take_drop_id drop_drop add.commute)
    have small: "list_all (\<lambda>g. g < 65536) pre" "list_all (\<lambda>g. g < 65536) post"
      using assms(2) unfolding gs by simp_all
    have len: "length pre + zl + length post = 8" using arg_cong [OF gs, of length] assms(1) by simp
    have str: "string6 gs = Join (map FormatHex pre) '':'' @ ''::'' @ Join (map FormatHex post) '':''"
      using b False by (simp add: string6_def pre_def post_def)
    have fin: "finish6 (Some (2 * length pre)) (bytes_of (pre @ post)) [] = Some (bytes_of gs)"
      using len False by (subst gs) (auto simp: finish6_def bytes_of_append bytes_of_zeros simp flip: replicate_add)
    have rest: "parse6 (Some (2 * length pre)) (bytes_of pre) (Join (map FormatHex post) '':'') = Some (bytes_of gs)" if "post \<noteq> []"
      using parse6_groups [OF that small(2), of "bytes_of pre" "Some (2 * length pre)"] fin len False by (simp add: bytes_of_append)
    show ?thesis
    proof (cases "pre = []")
      case True
      have "length (Join (map FormatHex post) '':'') \<noteq> 0" if "post \<noteq> []" using Join_FormatHex [OF that, of "[]"] by simp
      then show ?thesis using True rest fin len unfolding str parseIPv6_def
        by (cases "post = []") (auto simp: HasPrefix_def gs bytes_of_zeros)
    next
      case False
      show ?thesis
        using parse6_groups_ellipsis [OF False small(1), of "[]" "Join (map FormatHex post) '':''"] rest fin len
          Join_no_prefix [OF False, of "''::'' @ Join (map FormatHex post) '':''"] Join_FormatHex [of post "[]"]
        unfolding str parseIPv6_def by (cases "post = []") simp_all
    qed
  qed
qed

section \<open>Characters of addresses\<close>

lemma is_digit_hex: "is_digit c \<Longrightarrow> is_hex c"
  by (simp add: is_digit_def is_hex_def hex_val_def Let_def)

lemma parse_digits_chars: "parse_digits acc s = Some n \<Longrightarrow> c \<in> set s \<Longrightarrow> is_digit c"
  by (induction s arbitrary: acc) (auto split: if_splits)

lemma collect_all: "collect xs = Some ys \<Longrightarrow> x \<in> set xs \<Longrightarrow> x \<noteq> None"
  by (induction xs arbitrary: ys rule: collect.induct) auto

lemma length_collect: "collect xs = Some ys \<Longrightarrow> length ys = length xs"
  by (induction xs arbitrary: ys rule: collect.induct) auto

lemma parseIPv4_chars:
  assumes "parseIPv4 s = Some v" "c \<in> set s"
  shows "addr_char c"
proof -
  have "c = CHR ''.'' \<or> (\<exists>p \<in> set (Split s (CHR ''.'')). c \<in> set p)"
    using assms(2) Join_chars [of c "Split s (CHR ''.'')" "''.''"] by simp
  moreover have "is_digit c" if p: "p \<in> set (Split s (CHR ''.''))" "c \<in> set p" for p
  proof -
    have "octet p \<noteq> None" using assms(1) collect_all [of "map octet (Split s (CHR ''.''))" v "octet p"] p
      by (force simp: parseIPv4_def Let_def split: if_splits)
    then show ?thesis using p parse_digits_chars [of 0 p] by (auto simp: octet_def ParseUint_def split: if_splits option.splits)
  qed
  ultimately show ?thesis by (auto simp: addr_char_def is_digit_hex)
qed

lemma finish6_text: "finish6 e ip s = Some v \<Longrightarrow> s = []"
  by (simp add: finish6_def split: if_splits)

lemma parse6_chars: "parse6 e ip s = Some v \<Longrightarrow> list_all addr_char s"
proof (induction e ip s rule: parse6.induct)
  case (1 e ip s)
  let ?d = "takeWhile is_hex s" and ?r = "dropWhile is_hex s"
  have d: "list_all addr_char ?d" by (auto simp: list_all_iff addr_char_def dest: set_takeWhileD)
  have r: "list_all addr_char s" if "list_all addr_char ?r"
    using that d list_all_append [of addr_char ?d ?r] by simp
  have colons: "list_all addr_char r" if "r = [] \<or> hd r = CHR '':'' \<and> (tl r = [] \<or> list_all addr_char (tl r) \<or>
      hd (tl r) = CHR '':'' \<and> list_all addr_char (tl (tl r)))" for r
    using that by (cases r; cases "tl r") (auto simp: addr_char_def)
  show ?case
  proof (cases "16 \<le> length ip \<or> (?r \<noteq> [] \<and> hd ?r = CHR ''.'')")
    case True
    then show ?thesis using "1.prems" finish6_text [of e ip s v] parseIPv4_chars [of s]
      by (subst (asm) parse6.simps) (auto simp: Let_def list_all_iff split: if_splits option.splits)
  next
    case False
    define ip' where "ip' = ip @ group_bytes (hex_value ?d)"
    have p: "(if ?d = [] \<or> 4 < length ?d then None else if ?r = [] then finish6 e ip' []
        else if hd ?r \<noteq> CHR '':'' \<or> tl ?r = [] then None
        else if hd (tl ?r) = CHR '':'' then (if e \<noteq> None then None else if tl (tl ?r) = [] then finish6 (Some (length ip')) ip' []
           else parse6 (Some (length ip')) ip' (tl (tl ?r)))
        else parse6 e ip' (tl ?r)) = Some v"
      using "1.prems" False unfolding ip'_def by (subst (asm) parse6.simps) (simp only: Let_def if_False de_Morgan_disj)
    note ih = "1.IH" [OF _ refl refl _ _ refl, folded ip'_def]
    consider "?r = []" | "hd ?r = CHR '':''" "hd (tl ?r) = CHR '':''" "tl (tl ?r) = []"
      | "hd ?r = CHR '':''" "list_all addr_char (tl ?r)" | "hd ?r = CHR '':''" "hd (tl ?r) = CHR '':''" "list_all addr_char (tl (tl ?r))"
      using p ih False by (auto split: if_splits)
    then have "list_all addr_char ?r" by cases (rule colons, metis list.pred_inject(1))+
    then show ?thesis by (rule r)
  qed
qed

lemma ParseIP_chars:
  assumes "ParseIP s \<noteq> []" "c \<in> set s"
  shows "addr_char c"
proof -
  have "(\<exists>v. parseIPv4 s = Some v) \<or> (\<exists>v. parseIPv6 s = Some v)"
    using assms(1) by (auto simp: ParseIP_def split: if_splits list.splits option.splits)
  moreover have "addr_char c" if v: "parseIPv6 s = Some v" for v
  proof (cases "HasPrefix s ''::''")
    case True
    then obtain t where t: "s = ''::'' @ t" by (auto simp: HasPrefix_conv)
    have "list_all addr_char t" using v t parse6_chars [of "Some 0" "[]" t v]
      by (auto simp: parseIPv6_def HasPrefix_def split: if_splits)
    then show ?thesis using assms(2) t by (auto simp: list_all_iff addr_char_def)
  next
    case False
    then show ?thesis using v parse6_chars [of None "[]" s v] assms(2) by (simp add: parseIPv6_def list_all_iff)
  qed
  ultimately show ?thesis using parseIPv4_chars [OF _ assms(2)] by blast
qed

section \<open>Round trip\<close>

lemma parse_dotted:
  assumes "length v = 4"
  shows "parseIPv4 (Join (map (\<lambda>b. FormatNat (unat b)) v) ''.'') = Some v"
proof -
  have "CHR ''.'' \<notin> set (FormatNat n)" for n using FormatNat_digits [of "CHR ''.''" n] by (auto simp: is_digit_def)
  then have "Split (Join (map (\<lambda>b. FormatNat (unat b)) v) ''.'') (CHR ''.'') = map (\<lambda>b. FormatNat (unat b)) v"
    using assms by (intro Split_Join) auto
  then show ?thesis using assms by (simp add: parseIPv4_def comp_def)
qed

lemma first_separator:
  assumes "\<forall>c \<in> set w. is_hex c" "x = CHR ''.'' \<or> x = CHR '':''"
  shows "filter (\<lambda>c. c = CHR ''.'' \<or> c = CHR '':'') (w @ x # s) = x # filter (\<lambda>c. c = CHR ''.'' \<or> c = CHR '':'') s"
proof -
  have w: "filter (\<lambda>c. c = CHR ''.'' \<or> c = CHR '':'') w = []"
  proof (rule filter_False, rule ballI)
    fix c assume "c \<in> set w"
    then have "is_hex c" using assms(1) by blast
    then show "\<not> (c = CHR ''.'' \<or> c = CHR '':'')" using separators_not_hex by blast
  qed
  show ?thesis by (subst filter_append, subst w, subst filter.simps(2), subst if_P, rule assms(2), rule append_Nil)
qed

lemma addr_char_percent: "\<not> addr_char (CHR ''%'')"
  by (simp add: addr_char_def)

lemma ParseIP_family:
  "CHR ''%'' \<notin> set s \<Longrightarrow> filter (\<lambda>c. c = CHR ''.'' \<or> c = CHR '':'') s = CHR ''.'' # l \<Longrightarrow> parseIPv4 s = Some v \<Longrightarrow>
    ParseIP s = v4_in_6 v"
  "CHR ''%'' \<notin> set s \<Longrightarrow> filter (\<lambda>c. c = CHR ''.'' \<or> c = CHR '':'') s = CHR '':'' # l \<Longrightarrow> parseIPv6 s = Some v \<Longrightarrow>
    ParseIP s = v"
  by (simp_all add: ParseIP_def)

lemma ParseIP_dotted:
  assumes "length v = 4"
  shows "ParseIP (Join (map (\<lambda>b. FormatNat (unat b)) v) ''.'') = v4_in_6 v"
proof -
  let ?s = "Join (map (\<lambda>b. FormatNat (unat b)) v) ''.''"
  have p: "CHR ''%'' \<notin> set ?s" using parseIPv4_chars [OF parse_dotted [OF assms]] addr_char_percent by blast
  obtain b w where v: "v = b # w" "w \<noteq> []" using assms by (cases v; cases "tl v") auto
  then have "?s = FormatNat (unat b) @ CHR ''.'' # Join (map (\<lambda>b. FormatNat (unat b)) w) ''.''" by (cases w) simp_all
  then have "\<exists>l. filter (\<lambda>c. c = CHR ''.'' \<or> c = CHR '':'') ?s = CHR ''.'' # l"
    using first_separator [of "FormatNat (unat b)" "CHR ''.''"] FormatNat_digits is_digit_hex by auto
  then obtain l where "filter (\<lambda>c. c = CHR ''.'' \<or> c = CHR '':'') ?s = CHR ''.'' # l" by blast
  with p show ?thesis using parse_dotted [OF assms] by (rule ParseIP_family(1))
qed

lemma string6_separator:
  assumes "length gs = 8"
  shows "\<exists>l. filter (\<lambda>c. c = CHR ''.'' \<or> c = CHR '':'') (string6 gs) = CHR '':'' # l"
proof -
  have *: "\<exists>w t. (\<forall>c \<in> set w. is_hex c) \<and> Join (map FormatHex hs) '':'' @ '':'' @ r = w @ CHR '':'' # t" for hs r
  proof (cases hs)
    case (Cons h hs')
    then show ?thesis using FormatHex_hex by (cases hs'; rule_tac exI [of _ "FormatHex h"]) auto
  qed (rule exI [of _ "[]"], simp)
  obtain zs zl where b: "best_run gs = (zs, zl)" by (cases "best_run gs")
  have "\<exists>w t. (\<forall>c \<in> set w. is_hex c) \<and> string6 gs = w @ CHR '':'' # t"
  proof (cases "zl = 0")
    case True
    obtain g h gs' where "gs = g # h # gs'" using assms by (cases gs; cases "tl gs") auto
    then show ?thesis using b True FormatHex_hex by (rule_tac exI [of _ "FormatHex g"]) (auto simp: string6_def)
  next
    case False
    then show ?thesis using b * [of "take zs gs"] by (simp add: string6_def)
  qed
  then show ?thesis using first_separator by force
qed

lemma ParseIP_string6:
  assumes "length ip = 16"
  shows "ParseIP (string6 (groups ip)) = ip"
proof -
  have g: "length (groups ip) = 8" using assms by (simp add: length_groups)
  have p: "parseIPv6 (string6 (groups ip)) = Some ip"
    using parse_string6 [OF g groups_small] bytes_of_groups [of ip] assms by simp
  have "CHR ''%'' \<notin> set (string6 (groups ip))"
  proof -
    have "c = CHR '':'' \<or> is_hex c" if "c \<in> set (Join (map FormatHex hs) '':'')" for c hs
      using Join_chars [OF that] FormatHex_hex by auto
    then have "c = CHR '':'' \<or> is_hex c" if "c \<in> set (string6 (groups ip))" for c
      using that by (auto simp: string6_def split: prod.splits if_splits)
    moreover have "\<not> (CHR ''%'' = CHR '':'' \<or> is_hex (CHR ''%''))" using separators_not_hex(3) by simp
    ultimately show ?thesis by blast
  qed
  moreover obtain l where "filter (\<lambda>c. c = CHR ''.'' \<or> c = CHR '':'') (string6 (groups ip)) = CHR '':'' # l"
    using string6_separator [OF g] by blast
  ultimately show ?thesis using p by (rule ParseIP_family(2))
qed

text \<open>Reading a printed address gives the address back, in its 16 byte form.\<close>

lemma ParseIP_String:
  "length ip = 4 \<Longrightarrow> ParseIP (IP_String ip) = v4_in_6 ip"
  "length ip = 16 \<Longrightarrow> ParseIP (IP_String ip) = ip"
proof -
  show "ParseIP (IP_String ip) = v4_in_6 ip" if "length ip = 4"
  proof -
    have "ip \<noteq> []" using that by auto
    then show ?thesis using that ParseIP_dotted [OF that] by (simp add: IP_String_def To4_def)
  qed
  show "ParseIP (IP_String ip) = ip" if l: "length ip = 16"
  proof (cases "To4 ip = []")
    case True
    then show ?thesis using l ParseIP_string6 [OF l] by (auto simp: IP_String_def)
  next
    case False
    then have t: "To4 ip = drop 12 ip" "take 12 ip = replicate 10 0 @ [255, 255]" using l by (simp_all add: To4_def split: if_splits)
    have "v4_in_6 (drop 12 ip) = take 12 ip @ drop 12 ip" unfolding t(2) v4_in_6_def by simp
    then have "v4_in_6 (To4 ip) = ip" "length (To4 ip) = 4" using l t(1) by simp_all
    moreover have "IP_String ip = Join (map (\<lambda>b. FormatNat (unat b)) (To4 ip)) ''.''"
      using l False by (cases ip) (simp_all add: IP_String_def)
    ultimately show ?thesis using ParseIP_dotted [of "To4 ip"] by simp
  qed
qed

lemma To4_v4_in_6 [simp]: "length v = 4 \<Longrightarrow> To4 (v4_in_6 v) = v"
  by (simp add: To4_def v4_in_6_def)

section \<open>Stable sorting by a key\<close>

lemma insert_left_rev:
  "sorted_wrt (\<lambda>a b. k b \<le> k a) ys \<Longrightarrow> rev (insert_left (\<lambda>a b. k a < k b) x ys) = takeWhile (\<lambda>y. k y \<le> k x) (rev ys) @ x # dropWhile (\<lambda>y. k y \<le> k x) (rev ys)"
  for k :: "'a \<Rightarrow> 'b::linorder"
proof (induction ys)
  case (Cons y ys)
  show ?case
  proof (cases "k x < k y")
    case True
    then show ?thesis using Cons by (auto simp: takeWhile_append dropWhile_append takeWhile_eq_all_conv)
  next
    case False
    then have "\<forall>z \<in> set (y # ys). k z \<le> k x" using Cons.prems by force
    then have "takeWhile (\<lambda>y. k y \<le> k x) (rev (y # ys)) = rev (y # ys)" "dropWhile (\<lambda>y. k y \<le> k x) (rev (y # ys)) = []"
      by (simp_all add: takeWhile_eq_all_conv)
    moreover have "rev (insert_left (\<lambda>a b. k a < k b) x (y # ys)) = rev (y # ys) @ [x]" using False by simp
    ultimately show ?thesis by metis
  qed
qed simp

lemma SliceStable_snoc:
  fixes k :: "'a \<Rightarrow> 'b::linorder"
  assumes "sorted (map k (SliceStable (\<lambda>a b. k a < k b) xs))"
  defines "ys \<equiv> SliceStable (\<lambda>a b. k a < k b) xs"
  shows "SliceStable (\<lambda>a b. k a < k b) (xs @ [x]) = takeWhile (\<lambda>y. k y \<le> k x) ys @ x # dropWhile (\<lambda>y. k y \<le> k x) ys"
  using assms insert_left_rev [of k "rev ys" x] by (simp add: SliceStable_def sorted_map sorted_wrt_rev)

lemma insert_sorted_key:
  fixes k :: "'a \<Rightarrow> 'b::linorder" and x :: 'a
  assumes "sorted (map k ys)"
  defines "zs \<equiv> takeWhile (\<lambda>y. k y \<le> k x) ys @ x # dropWhile (\<lambda>y. k y \<le> k x) ys"
  shows "sorted (map k zs)" "filter (\<lambda>y. c = k y) zs = filter (\<lambda>y. c = k y) (ys @ [x])" "mset zs = mset (ys @ [x])"
proof -
  let ?t = "takeWhile (\<lambda>y. k y \<le> k x) ys" and ?d = "dropWhile (\<lambda>y. k y \<le> k x) ys"
  have s: "sorted (map k ?t)" "sorted (map k ?d)"
    using assms(1) sorted_append [of "map k ?t" "map k ?d"] by (simp_all flip: map_append)
  have t: "\<forall>y \<in> set ?t. k y \<le> k x" by (auto dest: set_takeWhileD)
  have d: "\<forall>y \<in> set ?d. k x < k y"
  proof (cases ?d)
    case (Cons z zs)
    then have "k x < k z" using hd_dropWhile [of "\<lambda>y. k y \<le> k x" ys] by simp
    then show ?thesis using s(2) Cons by auto
  qed (metis empty_iff list.set(1))
  show "sorted (map k zs)" unfolding zs_def using s t d by (fastforce simp: sorted_append)
  have "filter (\<lambda>y. c = k y) (x # ?d) = filter (\<lambda>y. c = k y) (?d @ [x])"
  proof (cases "c = k x")
    case True
    then have "filter (\<lambda>y. c = k y) ?d = []" using d by (auto simp: filter_empty_conv)
    then show ?thesis using True by simp
  qed simp
  then have "filter (\<lambda>y. c = k y) zs = filter (\<lambda>y. c = k y) ((?t @ ?d) @ [x])" unfolding zs_def by (simp only: filter_append append_assoc)
  then show "filter (\<lambda>y. c = k y) zs = filter (\<lambda>y. c = k y) (ys @ [x])" by (simp only: takeWhile_dropWhile_id)
  have "mset zs = mset (?t @ ?d) + {#x#}" unfolding zs_def by (simp del: takeWhile_dropWhile_id)
  then show "mset zs = mset (ys @ [x])" by simp
qed

lemma SliceStable_props:
  fixes k :: "'a \<Rightarrow> 'b::linorder"
  defines "f \<equiv> SliceStable (\<lambda>a b. k a < k b)"
  shows "sorted (map k (f xs)) \<and> mset (f xs) = mset xs \<and> (\<forall>c. filter (\<lambda>y. c = k y) (f xs) = filter (\<lambda>y. c = k y) xs)"
proof (induction xs rule: rev_induct)
  case Nil
  then show ?case by (simp add: f_def SliceStable_def)
next
  case (snoc x xs)
  then have s: "sorted (map k (f xs))" by simp
  have f: "f (xs @ [x]) = takeWhile (\<lambda>y. k y \<le> k x) (f xs) @ x # dropWhile (\<lambda>y. k y \<le> k x) (f xs)"
    using SliceStable_snoc [of k xs x] s unfolding f_def by blast
  show ?case unfolding f using insert_sorted_key [OF s, where x = x] snoc by simp
qed

lemma SliceStable_sort_key: "SliceStable (\<lambda>a b. k a < k b) xs = sort_key k xs" for k :: "'a \<Rightarrow> 'b::linorder"
  using SliceStable_props [of k xs] by (intro properties_for_sort_key [symmetric]) auto

end
