(* ===== verification/Dns_Render.thy ===== *)
theory Dns_Render
  imports Dns_Store Go_Net
begin

text \<open>
  From stored records to answers: the rendering of \<^verbatim>\<open>dns/engine.go\<close> (\<^verbatim>\<open>toRR\<close>, \<^verbatim>\<open>splitValues\<close>), the forwarder of
  \<^verbatim>\<open>dns/forward.go\<close> and the geographic ordering of \<^verbatim>\<open>dns/geoip.go\<close>.

  What belongs to \<^verbatim>\<open>github.com/miekg/dns\<close> is the parameter \<open>m :: mdns\<close>: the tables of type names and the two
  constructors of messages.  The exchange with an upstream server is a function.  The geographic database
  is a function from addresses to coordinates and the floating point distance a parameter; a \<^verbatim>\<open>float64\<close> is
  its bit pattern.

  The lemmas show that rendering inverts what the forwarder and the Kubernetes bridge write for values free
  of separators, that it does not for others, and that geographic sorting only reorders the answers.
\<close>

section \<open>Messages of the DNS library\<close>

record RR_Header =
  rh_Name :: string
  rh_Rrtype :: "16 word"
  rh_Class :: "16 word"
  rh_Ttl :: "32 word"

datatype RR =
    RR_A RR_Header IP
  | RR_AAAA RR_Header IP
  | RR_CNAME RR_Header string
  | RR_TXT RR_Header "string list"
  | RR_NS RR_Header string
  | RR_MX RR_Header "16 word" string
  | RR_SRV RR_Header "16 word" "16 word" "16 word" string
  | RR_CAA RR_Header "8 word" string string
  | RR_Other RR_Header

primrec rr_header :: "RR \<Rightarrow> RR_Header" where
  "rr_header (RR_A h _) = h"
| "rr_header (RR_AAAA h _) = h"
| "rr_header (RR_CNAME h _) = h"
| "rr_header (RR_TXT h _) = h"
| "rr_header (RR_NS h _) = h"
| "rr_header (RR_MX h _ _) = h"
| "rr_header (RR_SRV h _ _ _ _) = h"
| "rr_header (RR_CAA h _ _ _) = h"
| "rr_header (RR_Other h) = h"

record Msg =
  msg_Response :: bool
  msg_RecursionDesired :: bool
  msg_Rcode :: nat
  msg_Question :: "(string \<times> 16 word) list"
  msg_Answer :: "RR list"
  msg_Ns :: "RR list"
  msg_Extra :: "RR list"

abbreviation (input) RcodeSuccess :: nat where "RcodeSuccess \<equiv> 0"
abbreviation (input) RcodeServerFailure :: nat where "RcodeServerFailure \<equiv> 2"
abbreviation (input) RcodeNameError :: nat where "RcodeNameError \<equiv> 3"
abbreviation (input) ClassINET :: "16 word" where "ClassINET \<equiv> 1"

type_synonym exchange = "string \<Rightarrow> Msg \<Rightarrow> Msg option result"

record mdns =
  StringToType :: "string \<Rightarrow> (16 word) option"
  TypeToString :: "16 word \<Rightarrow> string"
  SetQuestion :: "string \<Rightarrow> 16 word \<Rightarrow> Msg"
  SetReply :: "Msg \<Rightarrow> Msg"

definition known :: "mdns \<Rightarrow> string \<Rightarrow> bool" where
  "known m t = (StringToType m t \<noteq> None)"

section \<open>Rendering records\<close>

text \<open>\<^verbatim>\<open>strings.Trim\<close> with the quotation mark as its cut set.\<close>

definition TrimQuotes :: "string \<Rightarrow> string" where
  "TrimQuotes s = TrimFunc (\<lambda>c. c = CHR 0x22) s"

definition splitValues :: "string \<Rightarrow> string list" where
  "splitValues values = (
     let raw0 = TrimSpace values in
     if raw0 = [] then []
     else let raw = (if Contains raw0 ''['' then TrimSuffix (TrimPrefix raw0 ''['') '']'' else raw0) in
       filter (\<lambda>p. p \<noteq> []) (map (\<lambda>p. TrimSpace (TrimQuotes p)) (Split raw (CHR '',''))))"

definition toRR_value :: "DNSRecordType \<Rightarrow> RR_Header \<Rightarrow> string \<Rightarrow> string \<Rightarrow> RR result" where
  "toRR_value rawType header recordType value = (
     if recordType = DNSTypeA then
       (let ip = To4 (ParseIP value) in
        if ip = [] then Inl (ErrOn ''invalid A record value'' value) else Inr (RR_A header ip))
     else if recordType = DNSTypeAAAA then
       (let ip = ParseIP value in
        if ip = [] then Inl (ErrOn ''invalid AAAA record value'' value) else Inr (RR_AAAA header ip))
     else if recordType = DNSTypeCNAME then Inr (RR_CNAME header (normalizeFQDN value))
     else if recordType = DNSTypeTXT then Inr (RR_TXT header [value])
     else if recordType = DNSTypeNS then Inr (RR_NS header (normalizeFQDN value))
     else if recordType = DNSTypeMX then
       (case SplitN value (CHR '' '') 2 of
          [p0, p1] \<Rightarrow> (case Atoi (TrimSpace p0) of
             None \<Rightarrow> Inl (ErrOn ''invalid MX preference'' p0)
           | Some preference \<Rightarrow> Inr (RR_MX header (of_int preference) (normalizeFQDN p1)))
        | _ \<Rightarrow> Inl (ErrOn ''invalid MX record value'' value))
     else if recordType = DNSTypeSRV then
       (case Fields value of
          [p0, p1, p2, p3] \<Rightarrow> (case Atoi p0 of
             None \<Rightarrow> Inl (ErrOn ''strconv.Atoi'' p0)
           | Some priority \<Rightarrow> (case Atoi p1 of
               None \<Rightarrow> Inl (ErrOn ''strconv.Atoi'' p1)
             | Some weight \<Rightarrow> (case Atoi p2 of
                 None \<Rightarrow> Inl (ErrOn ''strconv.Atoi'' p2)
               | Some port \<Rightarrow> Inr (RR_SRV header (of_int priority) (of_int weight) (of_int port) (normalizeFQDN p3)))))
        | _ \<Rightarrow> Inl (ErrOn ''invalid SRV record value'' value))
     else if recordType = DNSTypeCAA then
       (case SplitN value (CHR '' '') 3 of
          [p0, p1, p2] \<Rightarrow> (case Atoi (TrimSpace p0) of
             None \<Rightarrow> Inl (ErrOn ''strconv.Atoi'' (TrimSpace p0))
           | Some flagValue \<Rightarrow> Inr (RR_CAA header (of_int flagValue) (TrimSpace p1) (TrimQuotes (TrimSpace p2))))
        | _ \<Rightarrow> Inl (ErrOn ''invalid CAA record value'' value))
     else Inl (ErrOn ''unsupported record type'' rawType))"

fun toRR_values :: "DNSRecordType \<Rightarrow> RR_Header \<Rightarrow> string \<Rightarrow> string list \<Rightarrow> RR list result" where
  "toRR_values rawType header recordType [] = Inr []"
| "toRR_values rawType header recordType (v # vs) = (case toRR_value rawType header recordType v of
      Inl e \<Rightarrow> Inl e
    | Inr rr \<Rightarrow> (case toRR_values rawType header recordType vs of Inl e \<Rightarrow> Inl e | Inr rrs \<Rightarrow> Inr (rr # rrs)))"

definition rr_header_of :: "mdns \<Rightarrow> DNSRecord \<Rightarrow> RR_Header" where
  "rr_header_of m r = \<lparr>rh_Name = normalizeFQDN (dr_FQDN r),
     rh_Rrtype = (case StringToType m (normalizeRecordType (known m) (dr_RecordType r)) of None \<Rightarrow> 0 | Some t \<Rightarrow> t),
     rh_Class = ClassINET, rh_Ttl = dr_TTLSeconds r\<rparr>"

definition toRR :: "mdns \<Rightarrow> DNSRecord \<Rightarrow> RR list result" where
  "toRR m r = toRR_values (dr_RecordType r) (rr_header_of m r) (normalizeRecordType (known m) (dr_RecordType r)) (splitValues (dr_ValuesJSON r))"

section \<open>Forwarding\<close>

record ForwarderConfig =
  fc_Enabled :: bool
  fc_Servers :: "string list"
  fc_Timeout :: int

definition DefaultForwarderConfig :: ForwarderConfig where
  "DefaultForwarderConfig = \<lparr>fc_Enabled = False, fc_Servers = [''1.1.1.1:53''], fc_Timeout = 5000000000\<rparr>"

definition NewForwarder :: "ForwarderConfig \<Rightarrow> ForwarderConfig" where
  "NewForwarder cfg = (if fc_Timeout cfg \<le> 0 then cfg\<lparr>fc_Timeout := 5000000000\<rparr> else cfg)"

definition errForwardUnavailable :: error where
  "errForwardUnavailable = Err ''dns forward unavailable''"

fun forward_servers :: "exchange \<Rightarrow> Msg \<Rightarrow> string list \<Rightarrow> Msg result" where
  "forward_servers ex query [] = Inl errForwardUnavailable"
| "forward_servers ex query (server0 # servers) = (
     let server = TrimSpace server0 in
     if server = [] then forward_servers ex query servers
     else case ex server query of
       Inr (Some resp) \<Rightarrow> Inr resp
     | _ \<Rightarrow> forward_servers ex query servers)"

definition Forward :: "exchange \<Rightarrow> Msg \<Rightarrow> ForwarderConfig \<Rightarrow> Msg result" where
  "Forward ex req f = (
     if \<not> fc_Enabled f \<or> fc_Servers f = [] then Inl errForwardUnavailable
     else forward_servers ex (req\<lparr>msg_Response := False, msg_Answer := [], msg_Ns := [], msg_Extra := [], msg_Rcode := RcodeSuccess,
       msg_RecursionDesired := True\<rparr>) (fc_Servers f))"

definition rr_text :: "RR \<Rightarrow> string option" where
  "rr_text rr = (case rr of
      RR_A h ip \<Rightarrow> Some (IP_String ip)
    | RR_AAAA h ip \<Rightarrow> Some (IP_String ip)
    | RR_CNAME h target \<Rightarrow> Some (normalizeFQDN target)
    | RR_TXT h txt \<Rightarrow> Some (Join txt '','')
    | RR_NS h ns \<Rightarrow> Some (normalizeFQDN ns)
    | RR_MX h preference mx \<Rightarrow> Some (FormatNat (unat preference) @ '' '' @ normalizeFQDN mx)
    | RR_SRV h priority weight port target \<Rightarrow>
        Some (FormatNat (unat priority) @ '' '' @ FormatNat (unat weight) @ '' '' @ FormatNat (unat port) @ '' '' @ normalizeFQDN target)
    | RR_CAA h flag tag value \<Rightarrow> Some (FormatNat (unat flag) @ '' '' @ tag @ '' '' @ value)
    | RR_Other h \<Rightarrow> None)"

definition rrToRecord :: "DNSQuestion \<Rightarrow> nat \<Rightarrow> RR \<Rightarrow> DNSRecord option" where
  "rrToRecord question index rr = (
     let record = zero_DNSRecord\<lparr>
           dr_ID := ''forward:'' @ q_FQDN question @ '':'' @ q_RecordType question @ '':'' @ FormatNat index,
           dr_FQDN := normalizeFQDN (rh_Name (rr_header rr)), dr_RecordType := q_RecordType question,
           dr_TTLSeconds := rh_Ttl (rr_header rr), dr_Enabled := True\<rparr> in
     map_option (\<lambda>v. record\<lparr>dr_ValuesJSON := v\<rparr>) (rr_text rr))"

definition forwarded_records :: "DNSQuestion \<Rightarrow> RR list \<Rightarrow> DNSRecord list" where
  "forwarded_records question rrs = List.map_filter (\<lambda>(i, rr). rrToRecord question i rr) (List.enumerate 0 rrs)"

definition Forwarder_Lookup :: "mdns \<Rightarrow> exchange \<Rightarrow> DNSQuestion \<Rightarrow> ForwarderConfig \<Rightarrow> DNSAnswerSet result" where
  "Forwarder_Lookup m ex q0 f = (
     let question = normalizeQuestion (known m) q0;
         req = SetQuestion m (q_FQDN question) (case StringToType m (q_RecordType question) of None \<Rightarrow> 0 | Some t \<Rightarrow> t) in
     case Forward ex req f of
       Inl e \<Rightarrow> Inl e
     | Inr resp \<Rightarrow> (let records = forwarded_records question (msg_Answer resp) in
         Inr \<lparr>as_Question = question, as_Found = 0 < length records, as_Records = records\<rparr>))"

section \<open>Geographic order\<close>

type_synonym float64 = "64 word"

record Coordinates =
  Latitude :: float64
  Longitude :: float64

definition is_NaN :: "float64 \<Rightarrow> bool" where
  "is_NaN x = (9218868437227405312 < uint x mod 2 ^ 63)"

definition float_rank :: "float64 \<Rightarrow> int" where
  "float_rank x = (if 2 ^ 63 \<le> uint x then - (uint x mod 2 ^ 63) else uint x)"

text \<open>\<open><\<close> on \<^verbatim>\<open>float64\<close>: the magnitudes are ordered like their bit patterns, both zeros are equal and NaN is
  not comparable.\<close>

definition float_less :: "float64 \<Rightarrow> float64 \<Rightarrow> bool" where
  "float_less x y = (\<not> is_NaN x \<and> \<not> is_NaN y \<and> float_rank x < float_rank y)"

definition MaxFloat64 :: float64 where
  "MaxFloat64 = 9218868437227405311"

record geo_reader =
  geo_lookup :: "IP \<Rightarrow> Coordinates option"
  Haversine :: "Coordinates \<Rightarrow> Coordinates \<Rightarrow> float64"

datatype net_addr = UDPAddr IP | TCPAddr IP | OtherAddr string

definition remoteAddrIP :: "net_addr option \<Rightarrow> IP" where
  "remoteAddrIP addr = (case addr of
      None \<Rightarrow> []
    | Some (UDPAddr ip) \<Rightarrow> ip
    | Some (TCPAddr ip) \<Rightarrow> ip
    | Some (OtherAddr s) \<Rightarrow> (case SplitHostPort s of None \<Rightarrow> ParseIP s | Some (host, _) \<Rightarrow> ParseIP host))"

definition value_distance :: "geo_reader \<Rightarrow> Coordinates \<Rightarrow> string \<Rightarrow> float64" where
  "value_distance g client value = (
     let ip = ParseIP value in
     if ip = [] then MaxFloat64
     else case geo_lookup g ip of None \<Rightarrow> MaxFloat64 | Some coords \<Rightarrow> Haversine g client coords)"

definition sortRecordValuesByDistance :: "geo_reader \<Rightarrow> Coordinates \<Rightarrow> DNSRecord \<Rightarrow> DNSRecord" where
  "sortRecordValuesByDistance g client r = (
     if dr_RecordType r \<noteq> ''A'' \<and> dr_RecordType r \<noteq> ''AAAA'' then r
     else let values = splitValues (dr_ValuesJSON r) in
       if length values \<le> 1 then r
       else let entries = SliceStable (\<lambda>a b. float_less (snd a) (snd b)) (map (\<lambda>v. (v, value_distance g client v)) values) in
         r\<lparr>dr_ValuesJSON := Join (map fst entries) '',''\<rparr>)"

definition ApplyGeoSort :: "geo_reader \<Rightarrow> net_addr option \<Rightarrow> DNSRecord list \<Rightarrow> DNSRecord list" where
  "ApplyGeoSort g addr records = (
     if records = [] \<or> addr = None then records
     else let clientIP = remoteAddrIP addr in
       if clientIP = [] then records
       else case geo_lookup g clientIP of
         None \<Rightarrow> records
       | Some clientCoords \<Rightarrow> map (sortRecordValuesByDistance g clientCoords) records)"

section \<open>Values that survive\<close>

text \<open>A value without the separators that \<^const>\<open>splitValues\<close> interprets, and one that JSON also leaves alone.\<close>

definition plain_value :: "string \<Rightarrow> bool" where
  "plain_value v = (v \<noteq> [] \<and> CHR '','' \<notin> set v \<and> CHR 0x22 \<notin> set v \<and> CHR ''['' \<notin> set v \<and> \<not> is_space (hd v) \<and> \<not> is_space (last v))"

definition json_plain :: "char \<Rightarrow> bool" where
  "json_plain c = (byte_in 32 127 c \<and> c \<noteq> CHR 0x22 \<and> c \<noteq> CHR 0x5C \<and> c \<noteq> CHR ''<'' \<and> c \<noteq> CHR ''>'' \<and> c \<noteq> CHR ''&'' \<and> c \<noteq> CHR '','')"

definition plain_name :: "string \<Rightarrow> bool" where
  "plain_name t = (normalizeFQDN t = t \<and> plain_value t \<and> list_all (\<lambda>c. \<not> is_space c) t)"

fun plain_rr :: "DNSRecordType \<Rightarrow> RR \<Rightarrow> bool" where
  "plain_rr t (RR_A h ip) = (t = DNSTypeA \<and> length ip = 4)"
| "plain_rr t (RR_AAAA h ip) = (t = DNSTypeAAAA \<and> length ip = 16)"
| "plain_rr t (RR_CNAME h target) = (t = DNSTypeCNAME \<and> plain_name target)"
| "plain_rr t (RR_TXT h txt) = (t = DNSTypeTXT \<and> (case txt of [v] \<Rightarrow> plain_value v | _ \<Rightarrow> False))"
| "plain_rr t (RR_NS h ns) = (t = DNSTypeNS \<and> plain_name ns)"
| "plain_rr t (RR_MX h pref mx) = (t = DNSTypeMX \<and> plain_name mx)"
| "plain_rr t (RR_SRV h prio weight port target) = (t = DNSTypeSRV \<and> plain_name target)"
| "plain_rr t (RR_CAA h flag tag val) = (t = DNSTypeCAA \<and> plain_value tag \<and> list_all (\<lambda>c. \<not> is_space c) tag \<and> plain_value val)"
| "plain_rr t (RR_Other h) = False"

text \<open>The documented behaviour of the library for the supported types, for the concrete examples.\<close>

definition std_types :: "(string \<times> 16 word) list" where
  "std_types = [(''A'', 1), (''NS'', 2), (''CNAME'', 5), (''MX'', 15), (''TXT'', 16), (''AAAA'', 28), (''SRV'', 33), (''CAA'', 257)]"

definition std_mdns :: mdns where
  "std_mdns = \<lparr>StringToType = map_of std_types,
     TypeToString = (\<lambda>t. case map_of (map (\<lambda>(n, c). (c, n)) std_types) t of None \<Rightarrow> [] | Some n \<Rightarrow> n),
     SetQuestion = (\<lambda>n t. \<lparr>msg_Response = False, msg_RecursionDesired = True, msg_Rcode = 0, msg_Question = [(n, t)], msg_Answer = [], msg_Ns = [], msg_Extra = []\<rparr>),
     SetReply = (\<lambda>q. \<lparr>msg_Response = True, msg_RecursionDesired = msg_RecursionDesired q, msg_Rcode = 0, msg_Question = take 1 (msg_Question q),
       msg_Answer = [], msg_Ns = [], msg_Extra = []\<rparr>)\<rparr>"

section \<open>Splitting values\<close>

lemma Contains_char: "Contains s [c] \<longleftrightarrow> c \<in> set s"
  by (simp add: Contains_def Index_char)

lemma TrimQuotes_free [simp]: "CHR 0x22 \<notin> set s \<Longrightarrow> TrimQuotes s = s"
  unfolding TrimQuotes_def by (cases "s = []") (simp, metis TrimFunc_fixed hd_in_set last_in_set)

lemma TrimSpace_ends: "v \<noteq> [] \<Longrightarrow> \<not> is_space (hd v) \<Longrightarrow> \<not> is_space (last v) \<Longrightarrow> TrimSpace v = v"
  by (simp add: TrimSpace_def TrimFunc_fixed)

lemma Join_ends:
  assumes "vs \<noteq> []" "\<forall>v \<in> set vs. v \<noteq> []"
  shows "Join vs sep \<noteq> []" "hd (Join vs sep) = hd (hd vs)" "last (Join vs sep) = last (last vs)"
  using assms by (induction vs sep rule: Join.induct) (auto simp: last_append)

lemma splitValues_Join:
  assumes "vs \<noteq> []" "list_all plain_value vs"
  shows "splitValues (Join vs '','') = vs"
proof -
  let ?s = "Join vs '',''"
  have p: "v \<noteq> [] \<and> CHR '','' \<notin> set v \<and> CHR 0x22 \<notin> set v \<and> CHR ''['' \<notin> set v \<and> TrimSpace v = v" if "v \<in> set vs" for v
    using assms(2) that by (auto simp: list_all_iff plain_value_def TrimSpace_ends)
  have "plain_value (hd vs)" "plain_value (last vs)" using assms by (simp_all add: list_all_iff)
  then have t: "TrimSpace ?s = ?s" using Join_ends [OF assms(1), of "'',''"] p by (intro TrimSpace_ends) (auto simp: plain_value_def)
  have b: "CHR ''['' \<notin> set ?s" using p by (auto dest: Join_chars)
  have ne: "?s \<noteq> []" using Join_ends(1) [OF assms(1)] p by blast
  have "Split ?s (CHR '','') = vs" using assms(1) p by (intro Split_Join) auto
  then have "splitValues ?s = filter (\<lambda>q. q \<noteq> []) (map (\<lambda>q. TrimSpace (TrimQuotes q)) vs)"
    using ne t b by (simp add: splitValues_def Contains_char)
  also have "map (\<lambda>q. TrimSpace (TrimQuotes q)) vs = vs" using p by (intro map_idI) simp
  also have "filter (\<lambda>q. q \<noteq> []) vs = vs" using p by (intro filter_True) auto
  finally show ?thesis .
qed

lemma splitValues_single: "plain_value v \<Longrightarrow> splitValues v = [v]"
  using splitValues_Join [of "[v]"] by simp

lemma splitValues_not_Nil: "v \<in> set (splitValues s) \<Longrightarrow> v \<noteq> []"
  by (auto simp: splitValues_def Let_def split: if_splits)

section \<open>Values written as JSON\<close>

lemma json_chars_plain: "list_all json_plain s \<Longrightarrow> json_chars s = s"
proof (induction s)
  case (Cons c s)
  have "byte_in 0 127 c" using Cons.prems by (simp add: json_plain_def byte_in_def)
  then have u: "utf8_len (c # s) = 1" by simp
  have "\<not> byte_in 0 31 c" using Cons.prems by (simp add: json_plain_def byte_in_def)
  moreover have "byte_in 0 31 (CHR 0x08)" "byte_in 0 31 (CHR 0x0C)" "byte_in 0 31 (CHR 0x0A)" "byte_in 0 31 (CHR 0x0D)" "byte_in 0 31 (CHR 0x09)"
    by (simp_all add: byte_in_def)
  ultimately have "c \<noteq> CHR 0x08" "c \<noteq> CHR 0x0C" "c \<noteq> CHR 0x0A" "c \<noteq> CHR 0x0D" "c \<noteq> CHR 0x09" "\<not> byte_in 0 31 c" by blast+
  then have "json_ascii c = [c]" using Cons.prems by (simp add: json_plain_def json_ascii_def)
  then show ?case using Cons u by (subst json_chars.simps) simp
qed (simp add: json_chars.simps)

lemma splitValues_json:
  assumes "vs \<noteq> []" "\<forall>v \<in> set vs. v \<noteq> [] \<and> list_all json_plain v \<and> TrimSpace v = v"
  shows "splitValues (json_strings vs) = vs"
proof -
  let ?j = "\<lambda>v. [CHR 0x22] @ v @ [CHR 0x22]"
  have "map json_string vs = map ?j vs" using assms(2) by (simp add: json_string_def json_chars_plain)
  then have s: "json_strings vs = ''['' @ Join (map ?j vs) '','' @ '']''" unfolding json_strings_def by metis
  have t: "TrimSpace (json_strings vs) = json_strings vs" unfolding s by (rule TrimSpace_ends) (simp_all add: is_space_def)
  have c: "Contains (json_strings vs) ''[''" by (simp add: Contains_char json_strings_def)
  have "TrimSuffix (TrimPrefix (json_strings vs) ''['') '']'' = Join (map ?j vs) '',''"
    unfolding s using TrimPrefix_append [of "''[''"] TrimSuffix_append [of _ "'']''"] by simp
  then have "splitValues (json_strings vs) = filter (\<lambda>q. q \<noteq> []) (map (\<lambda>q. TrimSpace (TrimQuotes q)) (Split (Join (map ?j vs) '','') (CHR '','')))"
    unfolding splitValues_def t Let_def using c by (simp add: json_strings_def)
  also have "Split (Join (map ?j vs) '','') (CHR '','') = map ?j vs"
  proof (rule Split_Join)
    fix w assume "w \<in> set (map ?j vs)"
    then obtain v where v: "v \<in> set vs" "w = ?j v" by auto
    then have "\<forall>c \<in> set v. json_plain c" using assms(2) by (simp add: list_all_iff)
    moreover have "\<not> json_plain (CHR '','')" by (simp add: json_plain_def)
    ultimately have "CHR '','' \<notin> set v" by blast
    then show "CHR '','' \<notin> set w" by (simp add: v(2))
  qed (simp add: assms(1))
  also have "map (\<lambda>q. TrimSpace (TrimQuotes q)) (map ?j vs) = vs"
  proof -
    have "TrimSpace (TrimQuotes (?j v)) = v" if "v \<in> set vs" for v
    proof -
      have v: "v \<noteq> []" "CHR 0x22 \<notin> set v" "TrimSpace v = v"
        using assms(2) that json_plain_def [of "CHR 0x22"] by (auto simp: list_all_iff)
      have "dropWhile (\<lambda>c. c = CHR 0x22) (v @ [CHR 0x22]) = v @ [CHR 0x22]" using v by (cases v) auto
      moreover have "dropWhile (\<lambda>c. c = CHR 0x22) (rev v) = rev v" using v by (cases "rev v") (auto simp: rev_eq_Cons_iff)
      ultimately have "TrimQuotes (?j v) = v" by (simp add: TrimQuotes_def TrimFunc_def TrimLeftFunc_def TrimRightFunc_def)
      then show ?thesis using v(3) by simp
    qed
    then show ?thesis by (simp add: map_idI)
  qed
  also have "filter (\<lambda>q. q \<noteq> []) vs = vs" using assms(2) by (intro filter_True) auto
  finally show ?thesis .
qed

section \<open>Texts of forwarded records\<close>

lemma digits_plain [simp]: "plain_value (FormatNat n)" "list_all (\<lambda>c. \<not> is_space c) (FormatNat n)" "CHR '' '' \<notin> set (FormatNat n)"
proof -
  have d: "is_digit c \<Longrightarrow> \<not> is_space c \<and> c \<noteq> CHR '','' \<and> c \<noteq> CHR 0x22 \<and> c \<noteq> CHR ''['' \<and> c \<noteq> CHR '' ''" for c
    by (auto simp: is_digit_def is_space_def Let_def)
  have h: "is_digit (hd (FormatNat n))" "is_digit (last (FormatNat n))" by (rule FormatNat_digits [of _ n], simp)+
  show "list_all (\<lambda>c. \<not> is_space c) (FormatNat n)" "CHR '' '' \<notin> set (FormatNat n)"
    using FormatNat_digits [of _ n] d by (auto simp: list_all_iff)
  show "plain_value (FormatNat n)" unfolding plain_value_def using FormatNat_digits [of _ n] d h by auto
qed

lemma plain_append: "plain_value a \<Longrightarrow> plain_value b \<Longrightarrow> plain_value (a @ '' '' @ b)"
  by (simp add: plain_value_def)

lemma plain_nameD:
  assumes "plain_name t"
  shows "normalizeFQDN t = t" "plain_value t" "list_all (\<lambda>c. \<not> is_space c) t"
  using assms by (simp_all add: plain_name_def)

lemma fields_aux_word: "list_all (\<lambda>c. \<not> is_space c) w \<Longrightarrow> fields_aux acc (w @ s) = fields_aux (rev w @ acc) s"
  by (induction w arbitrary: acc) simp_all

lemma Fields_word: "list_all (\<lambda>c. \<not> is_space c) w \<Longrightarrow> w \<noteq> [] \<Longrightarrow> Fields w = [w]"
  using fields_aux_word [of w "[]" "[]"] by (simp add: Fields_def)

lemma Fields_space: "list_all (\<lambda>c. \<not> is_space c) w \<Longrightarrow> w \<noteq> [] \<Longrightarrow> Fields (w @ '' '' @ s) = w # Fields s"
  using fields_aux_word [of w "[]" "'' '' @ s"] by (simp add: Fields_def is_space_def)

lemma no_space_char: "list_all (\<lambda>c. \<not> is_space c) w \<Longrightarrow> CHR '' '' \<notin> set w"
  by (auto simp: list_all_iff is_space_def)

lemma TrimSpace_plain: "plain_value v \<Longrightarrow> TrimSpace v = v" "plain_value v \<Longrightarrow> TrimQuotes v = v" "plain_value v \<Longrightarrow> v \<noteq> []"
  by (simp_all add: plain_value_def TrimSpace_ends)

lemma Atoi_word: "Atoi (FormatNat (unat (w :: 16 word))) = Some (int (unat w))" "Atoi (FormatNat (unat (b :: 8 word))) = Some (int (unat b))"
proof -
  have "unat w < 2 ^ LENGTH(16)" by (rule unsigned_less)
  then have "unat w < 2 ^ 63" by simp
  then show "Atoi (FormatNat (unat w)) = Some (int (unat w))" by (rule Atoi_FormatNat)
  have "unat b < 2 ^ LENGTH(8)" by (rule unsigned_less)
  then have "unat b < 2 ^ 63" by simp
  then show "Atoi (FormatNat (unat b)) = Some (int (unat b))" by (rule Atoi_FormatNat)
qed

lemma SplitN_space:
  assumes "CHR '' '' \<notin> set a"
  shows "SplitN (a @ '' '' @ b) (CHR '' '') 2 = [a, b]" "CHR '' '' \<notin> set b \<Longrightarrow> SplitN (a @ '' '' @ b @ '' '' @ c) (CHR '' '') 3 = [a, b, c]"
proof -
  have n: "2 = Suc (Suc 0)" "3 = Suc (Suc (Suc 0))" by simp_all
  show "SplitN (a @ '' '' @ b) (CHR '' '') 2 = [a, b]" unfolding n using SplitN_sep [OF assms, of b 0] by simp
  show "SplitN (a @ '' '' @ b @ '' '' @ c) (CHR '' '') 3 = [a, b, c]" if "CHR '' '' \<notin> set b"
    unfolding n using SplitN_sep [OF assms, of "b @ '' '' @ c" "Suc 0"] SplitN_sep [OF that, of c 0] by simp
qed

lemma addr_char_plain: "addr_char c \<Longrightarrow> \<not> is_space c \<and> c \<noteq> CHR '','' \<and> c \<noteq> CHR 0x22 \<and> c \<noteq> CHR ''[''"
  by (auto simp: addr_char_def is_hex_def hex_val_def is_space_def Let_def split: if_splits)

lemma ParseIP_plain:
  assumes "ParseIP s \<noteq> []"
  shows "plain_value s"
proof -
  have ne: "s \<noteq> []" using assms by (auto simp: ParseIP_def)
  have *: "\<not> is_space c \<and> c \<noteq> CHR '','' \<and> c \<noteq> CHR 0x22 \<and> c \<noteq> CHR ''[''" if "c \<in> set s" for c
    by (rule addr_char_plain [OF ParseIP_chars [OF assms that]])
  show ?thesis unfolding plain_value_def
    using ne * [OF hd_in_set [OF ne]] * [OF last_in_set [OF ne]] * [of "CHR '',''"] * [of "CHR 0x22"] * [of "CHR ''[''"] by auto
qed

lemma plain_rr_text:
  assumes "plain_rr t rr"
  shows "\<exists>v. rr_text rr = Some v \<and> plain_value v \<and> toRR_value raw (rr_header rr) t v = Inr rr"
  using assms
proof (induction rr)
  case (RR_A h ip)
  then have l: "length ip = 4" "t = DNSTypeA" by simp_all
  have p: "ParseIP (IP_String ip) = v4_in_6 ip" by (rule ParseIP_String(1) [OF l(1)])
  then have "plain_value (IP_String ip)" by (intro ParseIP_plain) (simp add: v4_in_6_def)
  moreover have "ip \<noteq> []" using l(1) by auto
  ultimately show ?case using l p by (simp add: rr_text_def toRR_value_def)
next
  case (RR_AAAA h ip)
  then have l: "length ip = 16" "t = DNSTypeAAAA" by simp_all
  have p: "ParseIP (IP_String ip) = ip" by (rule ParseIP_String(2) [OF l(1)])
  moreover have "ip \<noteq> []" using l(1) by auto
  ultimately show ?case using l ParseIP_plain [of "IP_String ip"] by (simp add: rr_text_def toRR_value_def)
next
  case (RR_MX h pref mx)
  then have n: "plain_name mx" "t = DNSTypeMX" by simp_all
  show ?case
    using n(2) plain_append [OF digits_plain(1) plain_nameD(2) [OF n(1)]] SplitN_space(1) [OF digits_plain(3)] Atoi_word(1)
    by (simp add: rr_text_def toRR_value_def plain_nameD(1) [OF n(1)] TrimSpace_plain(1) [OF digits_plain(1)])
next
  case (RR_SRV h prio weight port target)
  then have n: "plain_name target" "t = DNSTypeSRV" by simp_all
  have "Fields (FormatNat a @ '' '' @ FormatNat b @ '' '' @ FormatNat c @ '' '' @ target) = [FormatNat a, FormatNat b, FormatNat c, target]" for a b c
    using plain_nameD [OF n(1)] by (simp add: Fields_space [simplified] Fields_word TrimSpace_plain(3))
  then show ?case
    using n(2) plain_append [OF digits_plain(1) plain_append [OF digits_plain(1) plain_append [OF digits_plain(1) plain_nameD(2) [OF n(1)]]]] Atoi_word(1)
    by (simp add: rr_text_def toRR_value_def plain_nameD(1) [OF n(1)])
next
  case (RR_CAA h flag tag val)
  then have n: "plain_value tag" "list_all (\<lambda>c. \<not> is_space c) tag" "plain_value val" "t = DNSTypeCAA" by simp_all
  have "SplitN (FormatNat (unat flag) @ '' '' @ tag @ '' '' @ val) (CHR '' '') 3 = [FormatNat (unat flag), tag, val]"
    by (rule SplitN_space(2) [OF digits_plain(3) no_space_char [OF n(2)]])
  then have "toRR_value raw h t (FormatNat (unat flag) @ '' '' @ tag @ '' '' @ val) = Inr (RR_CAA h flag tag val)"
    unfolding toRR_value_def n(4) using Atoi_word(2) [of flag]
    by (simp add: TrimSpace_plain [OF digits_plain(1)] TrimSpace_plain [OF n(1)] TrimSpace_plain [OF n(3)])
  then show ?case using plain_append [OF digits_plain(1) plain_append [OF n(1,3)]] by (simp add: rr_text_def)
qed (auto simp: rr_text_def toRR_value_def plain_nameD split: list.splits)

section \<open>Aliases among forwarded addresses\<close>

lemma octet_Nil: "octet [] = None"
  by (simp add: octet_def ParseUint_def)

lemma Split_snoc_sep: "Split (s @ [b]) b = Split s b @ [[]]"
proof (induction s)
  case (Cons c s)
  then show ?case by (cases "Split s b") (auto simp: Split_not_Nil)
qed simp

lemma parseIPv4_dot: "parseIPv4 (s @ ''.'') = None"
proof (rule ccontr)
  assume "parseIPv4 (s @ ''.'') \<noteq> None"
  then obtain v where "collect (map octet (Split (s @ ''.'') (CHR ''.''))) = Some v" by (auto simp: parseIPv4_def Let_def split: if_splits)
  moreover have "octet [] \<in> set (map octet (Split (s @ ''.'') (CHR ''.'')))"
    using Split_snoc_sep [of s "CHR ''.''"] by simp
  ultimately show False using collect_all octet_Nil by metis
qed

lemma parse6_dot: "parse6 e ip s = Some v \<Longrightarrow> s = [] \<or> last s \<noteq> CHR ''.''"
proof (induction e ip s rule: parse6.induct)
  case (1 e ip s)
  let ?d = "takeWhile is_hex s" and ?r = "dropWhile is_hex s"
  have s: "s = ?d @ ?r" by simp
  show ?case
  proof (cases "16 \<le> length ip \<or> (?r \<noteq> [] \<and> hd ?r = CHR ''.'')")
    case True
    have "parseIPv4 s = None" if "s \<noteq> []" "last s = CHR ''.''" using parseIPv4_dot [of "butlast s"] that by (metis append_butlast_last_id)
    then show ?thesis using "1.prems" True finish6_text [of e ip s v]
      by (subst (asm) parse6.simps) (auto simp: Let_def split: if_splits option.splits)
  next
    case False
    define ip' where "ip' = ip @ group_bytes (hex_value ?d)"
    have p: "(if ?d = [] \<or> 4 < length ?d then None else if ?r = [] then finish6 e ip' []
        else if hd ?r \<noteq> CHR '':'' \<or> tl ?r = [] then None
        else if hd (tl ?r) = CHR '':'' then (if e \<noteq> None then None else if tl (tl ?r) = [] then finish6 (Some (length ip')) ip' []
           else parse6 (Some (length ip')) ip' (tl (tl ?r)))
        else parse6 e ip' (tl ?r)) = Some v"
      using "1.prems" False unfolding ip'_def by (subst (asm) parse6.simps) (simp only: Let_def if_False de_Morgan_disj)
    note ih = "1.IH" [OF _ refl refl _ _ refl, folded ip'_def]
    have tl: "last r = last (tl r)" if "tl r \<noteq> []" for r :: string using that by (cases r) simp_all
    consider "?r = []" | "?r \<noteq> []" "tl ?r \<noteq> []" "tl (tl ?r) = []" "hd (tl ?r) = CHR '':''"
      | "tl ?r \<noteq> []" "last (tl ?r) \<noteq> CHR ''.''" | "tl (tl ?r) \<noteq> []" "last (tl (tl ?r)) \<noteq> CHR ''.''"
      using p ih False by (auto split: if_splits)
    then have "s = [] \<or> last ?r \<noteq> CHR ''.'' \<and> ?r \<noteq> [] \<or> ?r = []"
    proof cases
      case 2
      then have "last ?r = CHR '':''" using tl [of ?r] by (cases "tl ?r") simp_all
      then show ?thesis using 2 by simp
    next
      case 3
      then show ?thesis using tl [of ?r] by (metis list.sel(2))
    next
      case 4
      then have "tl ?r \<noteq> []" by (metis list.sel(2))
      then show ?thesis using 4 tl [of "tl ?r"] tl [of ?r] by (metis list.sel(2))
    qed (rule disjI2, rule disjI2)
    moreover have "last s \<noteq> CHR ''.''" if "?r = []" "s \<noteq> []"
    proof -
      have "is_hex (last s)" using that last_in_set [of s] by (simp add: dropWhile_eq_Nil_conv)
      then show ?thesis using separators_not_hex(2) by metis
    qed
    moreover have "last s = last ?r" if "?r \<noteq> []" using that s by (metis last_appendR)
    ultimately show ?thesis by metis
  qed
qed

text \<open>A name with its trailing dot is never an address.\<close>

lemma ParseIP_dot: "ParseIP (s @ ''.'') = []"
proof -
  have "parseIPv6 (s @ ''.'') = None"
  proof (rule ccontr)
    assume "parseIPv6 (s @ ''.'') \<noteq> None"
    then obtain v where v: "parseIPv6 (s @ ''.'') = Some v" by blast
    show False
    proof (cases "HasPrefix (s @ ''.'') ''::''")
      case True
      then obtain t where t: "s @ ''.'' = ''::'' @ t" by (auto simp: HasPrefix_conv)
      have "t \<noteq> []" "last t = CHR ''.''" using arg_cong [OF t, of last] by (cases t; simp)+
      then show False using v t parse6_dot [of "Some 0" "[]" t v] by (simp add: parseIPv6_def HasPrefix_def split: if_splits)
    next
      case False
      then show False using v parse6_dot [of None "[]" "s @ ''.''" v] by (simp add: parseIPv6_def)
    qed
  qed
  then show ?thesis by (simp add: ParseIP_def parseIPv4_dot split: list.split)
qed

lemma normalizeFQDN_dot: "normalizeFQDN t = [] \<or> (\<exists>w. normalizeFQDN t = w @ ''.'')"
  by (auto simp: normalizeFQDN_def Let_def)

lemma alias_record_fails:
  assumes "q_RecordType q = DNSTypeA \<or> q_RecordType q = DNSTypeAAAA" "normalizeRecordType (known m) (q_RecordType q) = q_RecordType q"
    "plain_value (normalizeFQDN target)" "rrToRecord q i (RR_CNAME h target) = Some r"
  shows "\<exists>e. toRR m r = Inl e"
proof -
  obtain w where w: "normalizeFQDN target = w @ ''.''" using normalizeFQDN_dot [of target] assms(3) by (auto simp: plain_value_def)
  have "dr_ValuesJSON r = w @ ''.''" "dr_RecordType r = q_RecordType q"
    using assms(4) w by (auto simp: rrToRecord_def rr_text_def Let_def)
  moreover have "splitValues (w @ ''.'') = [w @ ''.'']" using splitValues_single assms(3) w by simp
  moreover have "To4 [] = []" by (simp add: To4_def)
  ultimately show ?thesis using assms(1,2) ParseIP_dot [of w] by (auto simp: toRR_def toRR_value_def)
qed

section \<open>Geographic order\<close>

lemma SliceStable_mset: "mset (SliceStable lt xs) = mset xs"
proof -
  have i: "mset (insert_left lt x ys) = add_mset x (mset ys)" for x and ys :: "'a list" by (induction ys) auto
  have "mset (foldl (\<lambda>acc x. insert_left lt x acc) ys xs) = mset ys + mset xs" for ys by (induction xs arbitrary: ys) (simp_all add: i)
  then show ?thesis by (simp add: SliceStable_def)
qed

lemma insert_left_cong: "(\<forall>y \<in> set (x # ys). \<forall>z \<in> set (x # ys). lt y z = lt' y z) \<Longrightarrow> insert_left lt x ys = insert_left lt' x ys"
  by (induction ys) auto

lemma SliceStable_cong:
  assumes "\<forall>x \<in> set xs. \<forall>y \<in> set xs. lt x y = lt' x y"
  shows "SliceStable lt xs = SliceStable lt' xs"
proof -
  have s: "set (insert_left f x ys) = insert x (set ys)" for f :: "'a \<Rightarrow> 'a \<Rightarrow> bool" and x ys by (induction ys) auto
  have "foldl (\<lambda>acc x. insert_left lt x acc) ys xs' = foldl (\<lambda>acc x. insert_left lt' x acc) ys xs'"
    if "set ys \<union> set xs' \<subseteq> set xs" for ys xs'
    using that
  proof (induction xs' arbitrary: ys)
    case (Cons x xs')
    then have "insert_left lt x ys = insert_left lt' x ys" using assms by (intro insert_left_cong) auto
    then show ?case using Cons by (simp add: s)
  qed simp
  then show ?thesis by (simp add: SliceStable_def)
qed

lemma sort_by_distance:
  assumes "\<forall>v \<in> set vs. \<not> is_NaN (d v)"
  shows "map fst (SliceStable (\<lambda>a b. float_less (snd a) (snd b)) (map (\<lambda>v. (v, d v)) vs)) = sort_key (\<lambda>v. float_rank (d v)) vs"
proof -
  have "SliceStable (\<lambda>a b. float_less (snd a) (snd b)) (map (\<lambda>v. (v, d v)) vs) =
      SliceStable (\<lambda>a b. float_rank (snd a) < float_rank (snd b)) (map (\<lambda>v. (v, d v)) vs)"
    using assms by (intro SliceStable_cong) (auto simp: float_less_def)
  moreover have st: "filter (\<lambda>y. c = float_rank (d y)) (sort_key (\<lambda>v. float_rank (d v)) vs) = filter (\<lambda>y. c = float_rank (d y)) vs" for c
    using sort_key_stable [of "\<lambda>v. float_rank (d v)" c vs] by (simp add: eq_commute)
  have "SliceStable (\<lambda>a b. float_rank (snd a) < float_rank (snd b)) (map (\<lambda>v. (v, d v)) vs) = map (\<lambda>v. (v, d v)) (sort_key (\<lambda>v. float_rank (d v)) vs)"
    unfolding SliceStable_sort_key
    by (rule properties_for_sort_key) (auto simp: filter_map comp_def st)
  ultimately show ?thesis by (simp add: comp_def)
qed

lemma toRR_values_map:
  "toRR_values raw h t vs = Inr rrs \<longleftrightarrow> map (toRR_value raw h t) vs = map Inr rrs"
proof (induction vs arbitrary: rrs)
  case (Cons v vs)
  show ?case by (cases rrs) (auto simp: Cons.IH [symmetric] split: sum.splits)
qed auto

lemma address_values:
  assumes "toRR_values raw h t vs = Inr rrs" "t = DNSTypeA \<or> t = DNSTypeAAAA"
  shows "list_all plain_value vs"
proof -
  have "ParseIP v \<noteq> []" if v: "v \<in> set vs" for v
  proof
    assume "ParseIP v = []"
    then have "\<exists>e. toRR_value raw h t v = Inl e" using assms(2) by (auto simp: toRR_value_def To4_def)
    moreover have "toRR_value raw h t v \<in> Inr ` set rrs"
      using assms(1) v unfolding toRR_values_map by (metis image_eqI image_set)
    ultimately show False by auto
  qed
  then show ?thesis using ParseIP_plain by (auto simp: list_all_iff)
qed

lemma address_types:
  "normalizeRecordType kt ''A'' = ''A'' \<or> normalizeRecordType kt ''A'' = []"
  "normalizeRecordType kt ''AAAA'' = ''AAAA'' \<or> normalizeRecordType kt ''AAAA'' = []"
proof -
  have "ToUpper (TrimSpace ''A'') = ''A''" "ToUpper (TrimSpace ''AAAA'') = ''AAAA''" by code_simp+
  then show "normalizeRecordType kt ''A'' = ''A'' \<or> normalizeRecordType kt ''A'' = []"
    "normalizeRecordType kt ''AAAA'' = ''AAAA'' \<or> normalizeRecordType kt ''AAAA'' = []"
    by (simp_all add: normalizeRecordType_def Let_def)
qed

lemma sorted_record:
  fixes g :: geo_reader and c :: Coordinates
  assumes "toRR m r = Inr rrs"
  defines "vs \<equiv> splitValues (dr_ValuesJSON r)" and "ws \<equiv> splitValues (dr_ValuesJSON (sortRecordValuesByDistance g c r))"
  shows "mset ws = mset vs"
    "dr_RecordType r = ''A'' \<or> dr_RecordType r = ''AAAA'' \<Longrightarrow> \<forall>v \<in> set vs. \<not> is_NaN (value_distance g c v) \<Longrightarrow>
      ws = sort_key (\<lambda>v. float_rank (value_distance g c v)) vs"
proof -
  let ?t = "normalizeRecordType (known m) (dr_RecordType r)"
  let ?sorted = "map fst (SliceStable (\<lambda>a b. float_less (snd a) (snd b)) (map (\<lambda>v. (v, value_distance g c v)) vs))"
  have e: "map fst (map (\<lambda>v. (v, value_distance g c v)) vs) = vs" by (simp add: comp_def)
  have "mset ?sorted = mset (map fst (map (\<lambda>v. (v, value_distance g c v)) vs))" by (simp only: mset_map SliceStable_mset)
  then have ms: "mset ?sorted = mset vs" by (simp only: e)
  have short: "ws = vs" if "length vs \<le> 1" using that by (simp add: ws_def vs_def sortRecordValuesByDistance_def)
  have long: "ws = ?sorted" if a: "dr_RecordType r = ''A'' \<or> dr_RecordType r = ''AAAA''" "\<not> length vs \<le> 1"
  proof -
    have ne: "vs \<noteq> []" using a(2) by auto
    have "toRR_value (dr_RecordType r) (rr_header_of m r) ?t (hd vs) \<in> Inr ` set rrs"
      using assms(1) hd_in_set [OF ne] unfolding toRR_def vs_def [symmetric] toRR_values_map by (metis image_eqI image_set)
    moreover have "?t = dr_RecordType r \<or> ?t = []" using a(1) address_types [of "known m"] by auto
    ultimately have "?t = DNSTypeA \<or> ?t = DNSTypeAAAA" using a(1) by (auto simp: toRR_value_def)
    then have "list_all plain_value vs" by (rule address_values [OF assms(1) [unfolded toRR_def, folded vs_def]])
    then have "list_all plain_value ?sorted" using mset_eq_setD [OF ms] by (simp only: list_all_iff)
    moreover have "?sorted \<noteq> []" using ms ne by (metis mset_zero_iff)
    ultimately have "splitValues (Join ?sorted '','') = ?sorted" by (intro splitValues_Join)
    moreover have t: "\<not> (dr_RecordType r \<noteq> ''A'' \<and> dr_RecordType r \<noteq> ''AAAA'')" using a(1) by blast
    have "sortRecordValuesByDistance g c r = r\<lparr>dr_ValuesJSON := Join ?sorted '',''\<rparr>"
      unfolding sortRecordValuesByDistance_def vs_def [symmetric] Let_def if_not_P [OF t] if_not_P [OF a(2)] ..
    then have "dr_ValuesJSON (sortRecordValuesByDistance g c r) = Join ?sorted '',''" by simp
    ultimately show ?thesis unfolding ws_def by (simp only:)
  qed
  show "mset ws = mset vs"
  proof (cases "(dr_RecordType r = ''A'' \<or> dr_RecordType r = ''AAAA'') \<and> \<not> length vs \<le> 1")
    case True
    then show ?thesis unfolding long [OF conjunct1 [OF True] conjunct2 [OF True]] by (intro ms)
  next
    case False
    then show ?thesis using short by (cases "length vs \<le> 1") (simp_all add: ws_def vs_def sortRecordValuesByDistance_def)
  qed
  show "ws = sort_key (\<lambda>v. float_rank (value_distance g c v)) vs"
    if "dr_RecordType r = ''A'' \<or> dr_RecordType r = ''AAAA''" "\<forall>v \<in> set vs. \<not> is_NaN (value_distance g c v)"
  proof (cases "length vs \<le> 1")
    case True
    then have "vs = [] \<or> (\<exists>v. vs = [v])" by (cases vs) auto
    then show ?thesis using short [OF True] by auto
  next
    case False
    show ?thesis unfolding long [OF that(1) False] by (rule sort_by_distance [OF that(2)])
  qed
qed

lemma toRR_values_mset:
  assumes "toRR_values raw h t vs = Inr rrs" "mset ws = mset vs"
  shows "\<exists>rrs'. toRR_values raw h t ws = Inr rrs' \<and> mset rrs' = mset rrs"
proof -
  let ?f = "toRR_value raw h t"
  have m: "map ?f vs = map Inr rrs" using assms(1) by (simp add: toRR_values_map)
  have "\<exists>rr. ?f w = Inr rr" if "w \<in> set ws" for w
  proof -
    have "?f w \<in> set (map ?f vs)" using that mset_eq_setD [OF assms(2)] by simp
    then show ?thesis unfolding m by auto
  qed
  then have "map ?f ws = map Inr (map (projr \<circ> ?f) ws)" by (auto simp: map_eq_conv) (metis sum.sel(2))
  moreover have "mset (map (projr \<circ> ?f) ws) = mset rrs"
  proof -
    have "mset (map (projr \<circ> ?f) ws) = mset (map projr (map ?f vs))" using assms(2) by simp
    then show ?thesis unfolding m by (simp add: comp_def)
  qed
  ultimately show ?thesis using toRR_values_map by metis
qed

lemma std_known:
  "known std_mdns = (\<lambda>t. t \<in> {''A'', ''NS'', ''CNAME'', ''MX'', ''TXT'', ''AAAA'', ''SRV'', ''CAA''})"
  by (auto simp: known_def std_mdns_def std_types_def fun_eq_iff split: if_splits)

lemma std_normal:
  "normalizeRecordType (known std_mdns) ''A'' = ''A''" "normalizeRecordType (known std_mdns) ''MX'' = ''MX''"
  "normalizeRecordType (known std_mdns) ''TXT'' = ''TXT''"
proof -
  have "ToUpper (TrimSpace ''A'') = ''A''" "ToUpper (TrimSpace ''MX'') = ''MX''" "ToUpper (TrimSpace ''TXT'') = ''TXT''" by code_simp+
  then show "normalizeRecordType (known std_mdns) ''A'' = ''A''" "normalizeRecordType (known std_mdns) ''MX'' = ''MX''"
    "normalizeRecordType (known std_mdns) ''TXT'' = ''TXT''"
    by (simp_all add: normalizeRecordType_def std_known Let_def)
qed

section \<open>Properties\<close>

text \<open>C21. An answer taken from an upstream server is passed on unchanged. A resource record of the type
  asked for, with a normalised name and with values free of the separators the store format uses, is
  converted to a stored record and rendered back to exactly the same resource record, whatever its address,
  preference, weight, port, flag and time to live.\<close>

theorem forward_roundtrip:
  assumes "plain_rr (q_RecordType q) rr" "normalizeRecordType (known m) (q_RecordType q) = q_RecordType q"
    "StringToType m (q_RecordType q) = Some (rh_Rrtype (rr_header rr))" "normalizeFQDN (rh_Name (rr_header rr)) = rh_Name (rr_header rr)"
    "rh_Class (rr_header rr) = ClassINET"
  shows "\<exists>r. rrToRecord q i rr = Some r \<and> toRR m r = Inr [rr]"
proof -
  obtain v where v: "rr_text rr = Some v" "plain_value v" "toRR_value (q_RecordType q) (rr_header rr) (q_RecordType q) v = Inr rr"
    using plain_rr_text [OF assms(1)] by blast
  obtain r where r: "rrToRecord q i rr = Some r" "dr_ValuesJSON r = v" "dr_RecordType r = q_RecordType q"
    "dr_FQDN r = rh_Name (rr_header rr)" "dr_TTLSeconds r = rh_Ttl (rr_header rr)"
    using v(1) assms(4) by (simp add: rrToRecord_def)
  have "rr_header_of m r = rr_header rr" using r assms(2-5) by (simp add: rr_header_of_def)
  then have "toRR m r = Inr [rr]" using r v assms(2) splitValues_single by (simp add: toRR_def)
  then show ?thesis using r(1) by blast
qed

theorem forward_roundtrip_witness:
  defines "rr \<equiv> RR_MX \<lparr>rh_Name = ''a.b.'', rh_Rrtype = 15, rh_Class = 1, rh_Ttl = 300\<rparr> 10 ''mx.a.b.''"
  shows "\<exists>r. rrToRecord \<lparr>q_FQDN = ''a.b.'', q_RecordType = ''MX''\<rparr> 0 rr = Some r \<and> toRR std_mdns r = Inr [rr]"
proof -
  have "normalizeFQDN ''mx.a.b.'' = ''mx.a.b.''" by code_simp
  moreover have "plain_value ''mx.a.b.''" "list_all (\<lambda>c. \<not> is_space c) ''mx.a.b.''" by (simp_all add: plain_value_def is_space_def)
  ultimately have p: "plain_rr ''MX'' rr" by (simp add: rr_def plain_name_def)
  have n: "normalizeFQDN ''a.b.'' = ''a.b.''" by code_simp
  have t: "StringToType std_mdns ''MX'' = Some 15" by (simp add: std_mdns_def std_types_def)
  show ?thesis
    using forward_roundtrip [of "\<lparr>q_FQDN = ''a.b.'', q_RecordType = ''MX''\<rparr>" rr std_mdns 0] p n t std_normal(2) by (simp add: rr_def)
qed

text \<open>C22. Ordering answers by distance changes nothing but their order. If a record renders at all, then for
  every client position its sorted version renders to the same resource records, each as often as before;
  and for address records whose distances are numbers the values come nearest first, with values at equal
  distance in their stored order.\<close>

theorem geo_sort_permutes:
  assumes "toRR m r = Inr rrs"
  shows "(\<exists>rrs'. toRR m (sortRecordValuesByDistance g c r) = Inr rrs' \<and> mset rrs' = mset rrs) \<and>
    ((dr_RecordType r = ''A'' \<or> dr_RecordType r = ''AAAA'') \<and> (\<forall>v \<in> set (splitValues (dr_ValuesJSON r)). \<not> is_NaN (value_distance g c v)) \<longrightarrow>
      splitValues (dr_ValuesJSON (sortRecordValuesByDistance g c r)) =
        sort_key (\<lambda>v. float_rank (value_distance g c v)) (splitValues (dr_ValuesJSON r)))"
proof -
  let ?r = "sortRecordValuesByDistance g c r"
  have "dr_RecordType ?r = dr_RecordType r" "rr_header_of m ?r = rr_header_of m r"
    by (simp_all add: sortRecordValuesByDistance_def rr_header_of_def Let_def)
  then show ?thesis using toRR_values_mset [OF assms [unfolded toRR_def] sorted_record(1) [OF assms, of g c]] sorted_record(2) [OF assms, of g c]
    by (simp add: toRR_def)
qed

theorem geo_sort_permutes_witness:
  defines "g \<equiv> \<lparr>geo_lookup = \<lambda>ip. Some \<lparr>Latitude = of_nat (unat (last ip)), Longitude = 0\<rparr>, Haversine = \<lambda>a b. Latitude b\<rparr>"
    and "r \<equiv> zero_DNSRecord\<lparr>dr_FQDN := ''a.'', dr_RecordType := ''A'', dr_ValuesJSON := ''10.0.0.9,10.0.0.3''\<rparr>"
  shows "splitValues (dr_ValuesJSON (sortRecordValuesByDistance g \<lparr>Latitude = 0, Longitude = 0\<rparr> r)) = [''10.0.0.3'', ''10.0.0.9'']"
proof -
  have v: "splitValues (dr_ValuesJSON r) = [''10.0.0.9'', ''10.0.0.3'']" unfolding r_def by code_simp
  have "FormatNat 10 = ''10''" "FormatNat 0 = ''0''" "FormatNat 9 = ''9''" "FormatNat 3 = ''3''" by code_simp+
  then have ip: "ParseIP ''10.0.0.9'' = v4_in_6 [10, 0, 0, 9]" "ParseIP ''10.0.0.3'' = v4_in_6 [10, 0, 0, 3]"
    using ParseIP_dotted [of "[10, 0, 0, 9]"] ParseIP_dotted [of "[10, 0, 0, 3]"] by simp_all
  have "normalizeRecordType (known std_mdns) (dr_RecordType r) = ''A''" by (simp add: r_def std_normal)
  then have "\<exists>rrs. toRR std_mdns r = Inr rrs" using v ip by (simp add: toRR_def toRR_value_def)
  then obtain rrs where rrs: "toRR std_mdns r = Inr rrs" by blast
  have d: "value_distance g \<lparr>Latitude = 0, Longitude = 0\<rparr> ''10.0.0.9'' = 9" "value_distance g \<lparr>Latitude = 0, Longitude = 0\<rparr> ''10.0.0.3'' = 3"
    by (simp_all add: value_distance_def ip v4_in_6_def g_def)
  have "\<not> is_NaN 9" "\<not> is_NaN 3" "float_rank 9 = 9" "float_rank 3 = 3" by (simp_all add: is_NaN_def float_rank_def)
  then show ?thesis
    using geo_sort_permutes [OF rrs, of g "\<lparr>Latitude = 0, Longitude = 0\<rparr>"] v d by (simp add: r_def)
qed

end
