(* ===== verification/Dns_Engine.thy ===== *)
theory Dns_Engine
  imports Dns_Render
begin

text \<open>
  The DNS engine of \<^verbatim>\<open>dns/engine.go\<close> with the lookup of \<^verbatim>\<open>resolve.go\<close>, the record operations of \<^verbatim>\<open>dns-add.go\<close>,
  \<^verbatim>\<open>dns-mod.go\<close> and \<^verbatim>\<open>dns-del.go\<close> and the Kubernetes bridge of \<^verbatim>\<open>k8s_bridge.go\<close>.

  Objects of the Kubernetes API appear as the values their accessors return.  Engines come from
  \<^verbatim>\<open>NewEngine\<close>, which always sets the store, so the guards for a nil engine or store never apply.  Servers and
  informers are not represented; what they call is.  Installing new records has two halves, the merge under
  \<^verbatim>\<open>recordsMu\<close> and the update of the store after it, so that their interleavings can be stated.

  The lemmas show which records answer a question after any history, how a query is answered on every
  branch, and how the engine reacts to aliases in forwarded answers and to interleaved updates.
\<close>

section \<open>The Kubernetes bridge\<close>

text \<open>One element of \<^verbatim>\<open>spec.records\<close>; an element that is not an object is \<^const>\<open>None\<close> in the list.\<close>

record record_item =
  ri_type :: string
  ri_values :: "string list"
  ri_name :: string
  ri_ttl :: "int option"

record unstructured =
  u_Namespace :: string
  u_Name :: string
  u_domain :: string
  u_records :: "record_item option list"

datatype k8s_object =
    Unstructured unstructured
  | MetaObject string string            \<comment> \<open>another object with a namespace and a name\<close>
  | OpaqueObject
  | DeletedFinalStateUnknown k8s_object

record k8sDNSDomainRecordState =
  ks_key :: string
  ks_records :: "DNSRecord list"

type_synonym k8s_records = "(string \<times> DNSRecord list) list"

definition buildRecordFQDN :: "string \<Rightarrow> string \<Rightarrow> string" where
  "buildRecordFQDN domain0 label0 = (
     let domain = TrimSuffix (TrimSpace domain0) ''.''; label = TrimSpace label0 in
     if label = [] \<or> label = ''@'' then domain else TrimSuffix label ''.'' @ ''.'' @ domain)"

definition compactStrings :: "string list \<Rightarrow> string list" where
  "compactStrings values = filter (\<lambda>v. v \<noteq> []) (map TrimSpace values)"

definition item_record :: "mdns \<Rightarrow> string \<Rightarrow> string \<Rightarrow> nat \<Rightarrow> record_item option \<Rightarrow> DNSRecord option" where
  "item_record m domain domainID idx raw = (case raw of
      None \<Rightarrow> None
    | Some item \<Rightarrow>
        (let recordType = normalizeRecordType (known m) (ri_type item); values = compactStrings (ri_values item);
             ttl = (case ri_ttl item of Some ttl64 \<Rightarrow> if 0 \<le> ttl64 then of_int ttl64 else 60 | None \<Rightarrow> 60) in
         if recordType = [] \<or> values = [] then None
         else Some (zero_DNSRecord\<lparr>dr_ID := domainID @ '':'' @ FormatNat idx, dr_FQDN := buildRecordFQDN domain (ri_name item),
           dr_RecordType := recordType, dr_RoutingClass := ''simple'', dr_TTLSeconds := ttl, dr_ValuesJSON := json_strings values,
           dr_Enabled := True\<rparr>)))"

definition parseDNSDomainRecordState :: "mdns \<Rightarrow> unstructured option \<Rightarrow> k8sDNSDomainRecordState option" where
  "parseDNSDomainRecordState m obj = (case obj of
      None \<Rightarrow> None
    | Some u \<Rightarrow>
        (let domain = TrimSpace (u_domain u) in
         if u_Namespace u = [] \<or> u_Name u = [] \<or> domain = [] then None
         else Some \<lparr>ks_key = u_Namespace u @ ''/'' @ u_Name u,
           ks_records = List.map_filter (\<lambda>(idx, raw). item_record m domain (''k8s:'' @ u_Namespace u @ '':'' @ u_Name u) idx raw)
             (List.enumerate 0 (u_records u))\<rparr>))"

definition asUnstructured :: "k8s_object \<Rightarrow> unstructured option" where
  "asUnstructured obj = (case obj of Unstructured u \<Rightarrow> Some u | _ \<Rightarrow> None)"

definition flattenRecordsLocked :: "k8s_records \<Rightarrow> DNSRecord list" where
  "flattenRecordsLocked b = concat (map (\<lambda>key. cloneDNSRecords (the (map_of b key))) (sort_Strings (map fst b)))"

definition bridge_Lookup :: "mdns \<Rightarrow> DNSQuestion \<Rightarrow> k8s_records \<Rightarrow> DNSAnswerSet \<times> bool" where
  "bridge_Lookup m q0 b = (
     let question = normalizeQuestion (known m) q0;
         records = filter (\<lambda>r. normalizeFQDN (dr_FQDN r) = q_FQDN question \<and> normalizeRecordType (known m) (dr_RecordType r) = q_RecordType question \<and>
           dr_Enabled r) (concat (map snd b)) in
     if records = [] then (\<lparr>as_Question = question, as_Found = False, as_Records = []\<rparr>, False)
     else (\<lparr>as_Question = question, as_Found = True, as_Records = cloneDNSRecords records\<rparr>, True))"

section \<open>The engine\<close>

record Engine =
  e_store :: dnsMemoryStore
  e_forwarder :: ForwarderConfig
  e_geo :: "geo_reader option"
  e_bridge :: "k8s_records option"
  baseDNS :: "DNSRecord list"
  k8sDNS :: "DNSRecord list"
  k8sLoaded :: bool

record EngineOptions =
  eo_Forwarder :: ForwarderConfig
  eo_GeoIPEnabled :: bool
  eo_GeoIPMMDBPath :: string
  eo_K8sEnabled :: bool

text \<open>The environment of \<^verbatim>\<open>NewEngine\<close>: opening the geographic database and reaching the cluster may fail.\<close>

definition initGeoIP :: "(string \<Rightarrow> geo_reader result) \<Rightarrow> EngineOptions \<Rightarrow> Engine \<Rightarrow> Engine" where
  "initGeoIP openReader opts e = (
     if \<not> eo_GeoIPEnabled opts \<or> TrimSpace (eo_GeoIPMMDBPath opts) = [] then e
     else case openReader (eo_GeoIPMMDBPath opts) of Inl _ \<Rightarrow> e | Inr reader \<Rightarrow> e\<lparr>e_geo := Some reader\<rparr>)"

text \<open>\<^verbatim>\<open>RestoreRecords\<close> and \<^verbatim>\<open>replaceK8sRecords\<close>, each as the part under the mutex, which returns the merged records,
  and the installation of those.\<close>

definition restore_merge :: "DNSRecord list \<Rightarrow> Engine \<Rightarrow> DNSRecord list \<times> Engine" where
  "restore_merge records e = (
     let e' = e\<lparr>baseDNS := cloneDNSRecords records\<rparr> in (cloneDNSRecords (baseDNS e') @ cloneDNSRecords (k8sDNS e'), e'))"

definition replace_merge :: "DNSRecord list \<Rightarrow> Engine \<Rightarrow> DNSRecord list \<times> Engine" where
  "replace_merge records e = (
     let e' = e\<lparr>k8sDNS := cloneDNSRecords records\<rparr> in (cloneDNSRecords (baseDNS e') @ cloneDNSRecords (k8sDNS e'), e'))"

definition install :: "mdns \<Rightarrow> DNSRecord list \<Rightarrow> Engine \<Rightarrow> Engine" where
  "install m merged e = e\<lparr>e_store := store_Restore (known m) merged (e_store e)\<rparr>"

definition RestoreRecords :: "mdns \<Rightarrow> DNSRecord list \<Rightarrow> Engine \<Rightarrow> Engine" where
  "RestoreRecords m records e = (case restore_merge records e of (merged, e') \<Rightarrow> install m merged e')"

definition replaceK8sRecords :: "mdns \<Rightarrow> DNSRecord list \<Rightarrow> Engine \<Rightarrow> Engine" where
  "replaceK8sRecords m records e = (case replace_merge records e of (merged, e') \<Rightarrow> install m merged e')"

definition RefreshQuestion :: "mdns \<Rightarrow> string \<Rightarrow> DNSRecordType \<Rightarrow> Engine \<Rightarrow> Engine" where
  "RefreshQuestion m fqdn recordType e =
     e\<lparr>e_store := store_RefreshQuestion (known m) \<lparr>q_FQDN = fqdn, q_RecordType = recordType\<rparr> (e_store e)\<rparr>"

definition RefreshAll :: "Engine \<Rightarrow> Engine" where
  "RefreshAll e = e\<lparr>e_store := store_Clear (e_store e)\<rparr>"

text \<open>The bridge tells the engine the flattened records after every change.\<close>

definition SetOnChange :: "mdns \<Rightarrow> Engine \<Rightarrow> Engine" where
  "SetOnChange m e = (case e_bridge e of None \<Rightarrow> e | Some b \<Rightarrow> replaceK8sRecords m (flattenRecordsLocked b) e)"

definition bridge_changed :: "mdns \<Rightarrow> k8s_records \<Rightarrow> Engine \<Rightarrow> Engine" where
  "bridge_changed m b e = replaceK8sRecords m (flattenRecordsLocked b) (e\<lparr>e_bridge := Some b\<rparr>)"

definition initK8sBridge :: "mdns \<Rightarrow> bool \<Rightarrow> EngineOptions \<Rightarrow> Engine \<Rightarrow> Engine" where
  "initK8sBridge m reachable opts e = (
     if \<not> eo_K8sEnabled opts \<or> \<not> reachable then e else SetOnChange m (e\<lparr>e_bridge := Some []\<rparr>))"

definition NewEngine :: "mdns \<Rightarrow> (string \<Rightarrow> geo_reader result) \<Rightarrow> bool \<Rightarrow> EngineOptions \<Rightarrow> Engine" where
  "NewEngine m openReader reachable opts = (
     let forwarderCfg0 = eo_Forwarder opts;
         forwarderCfg = (if fc_Servers forwarderCfg0 = [] \<and> fc_Timeout forwarderCfg0 = 0 \<and> \<not> fc_Enabled forwarderCfg0
           then DefaultForwarderConfig else forwarderCfg0);
         engine = \<lparr>e_store = newDNSMemoryStore, e_forwarder = NewForwarder forwarderCfg, e_geo = None, e_bridge = None, baseDNS = [], k8sDNS = [],
           k8sLoaded = False\<rparr> in
     initK8sBridge m reachable opts (initGeoIP openReader opts engine))"

definition storeObject :: "mdns \<Rightarrow> k8s_object \<Rightarrow> Engine \<Rightarrow> Engine" where
  "storeObject m obj e = (case (e_bridge e, parseDNSDomainRecordState m (asUnstructured obj)) of
      (Some b, Some state) \<Rightarrow> bridge_changed m (AList.update (ks_key state) (ks_records state) b) e
    | _ \<Rightarrow> e)"

definition updateObject :: "mdns \<Rightarrow> k8s_object \<Rightarrow> k8s_object \<Rightarrow> Engine \<Rightarrow> Engine" where
  "updateObject m old obj e = storeObject m obj e"

definition deleteByNamespaceName :: "k8s_object \<Rightarrow> (string \<times> string) option" where
  "deleteByNamespaceName obj0 = (
     let obj = (case obj0 of DeletedFinalStateUnknown inner \<Rightarrow> inner | _ \<Rightarrow> obj0) in
     case obj of Unstructured u \<Rightarrow> Some (u_Namespace u, u_Name u) | MetaObject ns name \<Rightarrow> Some (ns, name) | _ \<Rightarrow> None)"

definition deleteObject :: "mdns \<Rightarrow> k8s_object \<Rightarrow> Engine \<Rightarrow> Engine" where
  "deleteObject m obj e = (case (e_bridge e, deleteByNamespaceName obj) of
      (Some b, Some (namespace, name)) \<Rightarrow> bridge_changed m (AList.delete (namespace @ ''/'' @ name) b) e
    | _ \<Rightarrow> e)"

fun load_items :: "mdns \<Rightarrow> unstructured list \<Rightarrow> k8s_records \<Rightarrow> k8s_records" where
  "load_items m [] b = b"
| "load_items m (u # us) b = load_items m us (case parseDNSDomainRecordState m (Some u) of
      None \<Rightarrow> b | Some state \<Rightarrow> AList.update (ks_key state) (ks_records state) b)"

definition LoadInitial :: "mdns \<Rightarrow> unstructured list result \<Rightarrow> Engine \<Rightarrow> unit result \<times> Engine" where
  "LoadInitial m listed e = (case e_bridge e of
      None \<Rightarrow> (Inr (), e)
    | Some b \<Rightarrow> (case listed of
        Inl err \<Rightarrow> (Inl (ErrWrap ''list dnsdomainrecords'' err), e)
      | Inr items \<Rightarrow> (Inr (), bridge_changed m (load_items m items b) e)))"

definition BindContext :: "mdns \<Rightarrow> unstructured list result \<Rightarrow> Engine \<Rightarrow> unit result \<times> Engine" where
  "BindContext m listed e = (
     if e_bridge e = None \<or> k8sLoaded e then (Inr (), e)
     else case LoadInitial m listed e of
       (Inl err, e') \<Rightarrow> (Inl err, e')
     | (Inr _, e') \<Rightarrow> (Inr (), e'\<lparr>k8sLoaded := True\<rparr>))"

section \<open>Record operations\<close>

record ChangeEffect =
  ce_FQDN :: string
  ce_RecordType :: DNSRecordType
  ce_Action :: string
  ce_RecordsAffected :: int

record ModifyRecordInput =
  mi_DomainID :: string
  mi_RecordID :: string
  mi_FQDN :: string
  mi_RecordType :: DNSRecordType
  mi_TTLSeconds :: "32 word"
  mi_ValuesJSON :: string
  mi_Enabled :: bool

definition Add_Validate :: "mdns \<Rightarrow> DNSRecord \<Rightarrow> error option" where
  "Add_Validate m r = (
     if dr_ID r = [] then Some (Err ''record id is required'')
     else if normalizeFQDN (dr_FQDN r) = [] then Some (Err ''fqdn is required'')
     else if normalizeRecordType (known m) (dr_RecordType r) = [] then Some (Err ''record type is required'')
     else None)"

definition Modify_Validate :: "mdns \<Rightarrow> ModifyRecordInput \<Rightarrow> error option" where
  "Modify_Validate m i = (
     if mi_DomainID i = [] then Some (Err ''domain id is required'')
     else if mi_RecordID i = [] then Some (Err ''record id is required'')
     else if normalizeFQDN (mi_FQDN i) = [] then Some (Err ''fqdn is required'')
     else if normalizeRecordType (known m) (mi_RecordType i) = [] then Some (Err ''record type is required'')
     else None)"

definition Delete_Validate :: "string \<Rightarrow> string \<Rightarrow> error option" where
  "Delete_Validate domainID recordID = (
     if domainID = [] then Some (Err ''domain id is required'')
     else if recordID = [] then Some (Err ''record id is required'')
     else None)"

definition effect :: "string \<Rightarrow> DNSAnswerSet \<Rightarrow> ChangeEffect" where
  "effect action s = \<lparr>ce_FQDN = q_FQDN (as_Question s), ce_RecordType = q_RecordType (as_Question s), ce_Action = action, ce_RecordsAffected = 1\<rparr>"

definition AddRecord :: "mdns \<Rightarrow> DNSRecord \<Rightarrow> Engine \<Rightarrow> ChangeEffect result \<times> Engine" where
  "AddRecord m r e = (case Add_Validate m r of
      Some err \<Rightarrow> (Inl err, e)
    | None \<Rightarrow>
        (let record = r\<lparr>dr_FQDN := normalizeFQDN (dr_FQDN r), dr_RecordType := normalizeRecordType (known m) (dr_RecordType r)\<rparr> in
         case store_Add (known m) record (e_store e) of
           (answerSet, s') \<Rightarrow> (Inr (effect ''add'' answerSet), e\<lparr>e_store := s'\<rparr>)))"

definition modify_apply :: "mdns \<Rightarrow> ModifyRecordInput \<Rightarrow> DNSRecord \<Rightarrow> DNSRecord result" where
  "modify_apply m i r = Inr (r\<lparr>dr_FQDN := normalizeFQDN (mi_FQDN i), dr_RecordType := normalizeRecordType (known m) (mi_RecordType i),
     dr_TTLSeconds := mi_TTLSeconds i, dr_ValuesJSON := mi_ValuesJSON i, dr_Enabled := mi_Enabled i\<rparr>)"

definition ModifyRecord :: "mdns \<Rightarrow> ModifyRecordInput \<Rightarrow> Engine \<Rightarrow> ChangeEffect result \<times> Engine" where
  "ModifyRecord m i e = (case Modify_Validate m i of
      Some err \<Rightarrow> (Inl err, e)
    | None \<Rightarrow> (case store_Modify (known m) (mi_DomainID i) (mi_RecordID i) (modify_apply m i) (e_store e) of
        (Inl err, s') \<Rightarrow> (Inl err, e\<lparr>e_store := s'\<rparr>)
      | (Inr (_, answerSet), s') \<Rightarrow> (Inr (effect ''mod'' answerSet), e\<lparr>e_store := s'\<rparr>)))"

definition DeleteRecord :: "mdns \<Rightarrow> string \<Rightarrow> string \<Rightarrow> Engine \<Rightarrow> ChangeEffect result \<times> Engine" where
  "DeleteRecord m domainID recordID e = (case Delete_Validate domainID recordID of
      Some err \<Rightarrow> (Inl err, e)
    | None \<Rightarrow> (case store_Delete (known m) domainID recordID (e_store e) of
        (Inl err, s') \<Rightarrow> (Inl err, e\<lparr>e_store := s'\<rparr>)
      | (Inr (_, answerSet), s') \<Rightarrow> (Inr (effect ''del'' answerSet), e\<lparr>e_store := s'\<rparr>)))"

section \<open>Queries\<close>

definition lookup_rest :: "mdns \<Rightarrow> exchange \<Rightarrow> DNSQuestion \<Rightarrow> Engine \<Rightarrow> DNSAnswerSet result" where
  "lookup_rest m ex question e = (case store_Lookup (known m) question (e_store e) of (answerSet, ok) \<Rightarrow>
     if ok then Inr answerSet
     else case Forwarder_Lookup m ex question (e_forwarder e) of
       Inr forwarded \<Rightarrow> if as_Found forwarded then Inr forwarded else Inr \<lparr>as_Question = question, as_Found = False, as_Records = []\<rparr>
     | Inl _ \<Rightarrow> Inr \<lparr>as_Question = question, as_Found = False, as_Records = []\<rparr>)"

definition Lookup :: "mdns \<Rightarrow> exchange \<Rightarrow> DNSQuestion \<Rightarrow> Engine \<Rightarrow> DNSAnswerSet result" where
  "Lookup m ex q0 e = (
     let question = normalizeQuestion (known m) q0 in
     if q_FQDN question = [] then Inl (Err ''fqdn is required'')
     else if q_RecordType question = [] then Inl (Err ''record type is required'')
     else case e_bridge e of
       None \<Rightarrow> lookup_rest m ex question e
     | Some b \<Rightarrow> (case bridge_Lookup m question b of (answerSet, ok) \<Rightarrow> if ok then Inr answerSet else lookup_rest m ex question e))"

text \<open>The loops of \<^verbatim>\<open>serveDNS\<close>: \<^const>\<open>Inl\<close> is the response with which it returns early.\<close>

fun serve_records :: "mdns \<Rightarrow> DNSRecord list \<Rightarrow> Msg \<Rightarrow> Msg + Msg" where
  "serve_records m [] resp = Inr resp"
| "serve_records m (r # rs) resp = (case toRR m r of
      Inl _ \<Rightarrow> Inl (resp\<lparr>msg_Rcode := RcodeServerFailure\<rparr>)
    | Inr rrs \<Rightarrow> serve_records m rs (resp\<lparr>msg_Answer := msg_Answer resp @ rrs\<rparr>))"

text \<open>The upstream may answer each question of a message differently, so the exchange is numbered.\<close>

fun serve_questions :: "mdns \<Rightarrow> (nat \<Rightarrow> exchange) \<Rightarrow> net_addr option \<Rightarrow> Engine \<Rightarrow> nat \<Rightarrow> (string \<times> 16 word) list \<Rightarrow> Msg \<Rightarrow> Msg + Msg" where
  "serve_questions m ex remote e i [] resp = Inr resp"
| "serve_questions m ex remote e i ((name, qtype) # qs) resp = (
     case Lookup m (ex i) \<lparr>q_FQDN = name, q_RecordType = TypeToString m qtype\<rparr> e of
       Inl _ \<Rightarrow> Inl (resp\<lparr>msg_Rcode := RcodeServerFailure\<rparr>)
     | Inr answer \<Rightarrow>
         if \<not> as_Found answer then serve_questions m ex remote e (Suc i) qs resp
         else case serve_records m (case e_geo e of None \<Rightarrow> as_Records answer | Some g \<Rightarrow> ApplyGeoSort g remote (as_Records answer)) resp of
           Inl early \<Rightarrow> Inl early
         | Inr resp' \<Rightarrow> serve_questions m ex remote e (Suc i) qs resp')"

definition serveDNS :: "mdns \<Rightarrow> (nat \<Rightarrow> exchange) \<Rightarrow> net_addr option \<Rightarrow> Engine \<Rightarrow> Msg \<Rightarrow> Msg" where
  "serveDNS m ex remote e req = (
     let resp = SetReply m req in
     if msg_Question req = [] then resp
     else case serve_questions m ex remote e 0 (msg_Question req) resp of
       Inl early \<Rightarrow> early
     | Inr resp' \<Rightarrow> if msg_Answer resp' = [] then resp'\<lparr>msg_Rcode := RcodeNameError\<rparr> else resp')"

section \<open>Histories\<close>

datatype engine_op =
    DoRestore "DNSRecord list"
  | DoStore k8s_object
  | DoUpdate k8s_object k8s_object
  | DoDelete k8s_object
  | DoBind "unstructured list result"
  | DoAdd DNSRecord
  | DoModify ModifyRecordInput
  | DoRemove string string
  | DoRefresh string DNSRecordType
  | DoRefreshAll

fun engine_step :: "mdns \<Rightarrow> engine_op \<Rightarrow> Engine \<Rightarrow> Engine" where
  "engine_step m (DoRestore rs) e = RestoreRecords m rs e"
| "engine_step m (DoStore obj) e = storeObject m obj e"
| "engine_step m (DoUpdate old obj) e = updateObject m old obj e"
| "engine_step m (DoDelete obj) e = deleteObject m obj e"
| "engine_step m (DoBind listed) e = snd (BindContext m listed e)"
| "engine_step m (DoAdd r) e = snd (AddRecord m r e)"
| "engine_step m (DoModify i) e = snd (ModifyRecord m i e)"
| "engine_step m (DoRemove d i) e = snd (DeleteRecord m d i e)"
| "engine_step m (DoRefresh f t) e = RefreshQuestion m f t e"
| "engine_step m DoRefreshAll e = RefreshAll e"

text \<open>What the histories mean: the objects the cluster has, the records the replica gave last and the records the
  store holds, each a plain map or list.\<close>

record spec_engine =
  sp_bridge :: "(string \<rightharpoonup> DNSRecord list) option"
  sp_base :: "DNSRecord list"
  sp_loaded :: bool
  sp_map :: record_map

definition sp_flat :: "(string \<rightharpoonup> DNSRecord list) option \<Rightarrow> DNSRecord list" where
  "sp_flat b = (case b of None \<Rightarrow> [] | Some f \<Rightarrow> concat (map (\<lambda>k. the (f k)) (sorted_list_of_set (dom f))))"

definition sp_install :: "spec_engine \<Rightarrow> spec_engine" where
  "sp_install sp = sp\<lparr>sp_map := fold spec_put (sp_base sp @ sp_flat (sp_bridge sp)) Map.empty\<rparr>"

definition sp_put :: "mdns \<Rightarrow> unstructured \<Rightarrow> (string \<rightharpoonup> DNSRecord list) \<Rightarrow> (string \<rightharpoonup> DNSRecord list)" where
  "sp_put m u f = (case parseDNSDomainRecordState m (Some u) of None \<Rightarrow> f | Some st \<Rightarrow> f(ks_key st \<mapsto> ks_records st))"

definition sp_object :: "mdns \<Rightarrow> k8s_object \<Rightarrow> spec_engine \<Rightarrow> spec_engine" where
  "sp_object m obj sp = (case (sp_bridge sp, parseDNSDomainRecordState m (asUnstructured obj)) of
      (Some f, Some st) \<Rightarrow> sp_install (sp\<lparr>sp_bridge := Some (f(ks_key st \<mapsto> ks_records st))\<rparr>)
    | _ \<Rightarrow> sp)"

fun sp_step :: "mdns \<Rightarrow> engine_op \<Rightarrow> spec_engine \<Rightarrow> spec_engine" where
  "sp_step m (DoRestore rs) sp = sp_install (sp\<lparr>sp_base := rs\<rparr>)"
| "sp_step m (DoStore obj) sp = sp_object m obj sp"
| "sp_step m (DoUpdate old obj) sp = sp_object m obj sp"
| "sp_step m (DoDelete obj) sp = (case (sp_bridge sp, deleteByNamespaceName obj) of
      (Some f, Some (ns, name)) \<Rightarrow> sp_install (sp\<lparr>sp_bridge := Some (f(ns @ ''/'' @ name := None))\<rparr>)
    | _ \<Rightarrow> sp)"
| "sp_step m (DoBind listed) sp = (case (sp_bridge sp, listed) of
      (Some f, Inr us) \<Rightarrow> if sp_loaded sp then sp else sp_install (sp\<lparr>sp_bridge := Some (fold (sp_put m) us f), sp_loaded := True\<rparr>)
    | _ \<Rightarrow> sp)"
| "sp_step m (DoAdd r) sp = (if Add_Validate m r = None
      then sp\<lparr>sp_map := spec_put (r\<lparr>dr_RecordType := normalizeRecordType (known m) (dr_RecordType r)\<rparr>) (sp_map sp)\<rparr> else sp)"
| "sp_step m (DoModify i) sp = (if Modify_Validate m i = None
      then sp\<lparr>sp_map := spec_step (OpModify (mi_DomainID i) (mi_RecordID i) (modify_apply m i)) (sp_map sp)\<rparr> else sp)"
| "sp_step m (DoRemove d i) sp = (if Delete_Validate d i = None then sp\<lparr>sp_map := (sp_map sp)((d, i) := None)\<rparr> else sp)"
| "sp_step m (DoRefresh f t) sp = sp"
| "sp_step m DoRefreshAll sp = sp\<lparr>sp_map := Map.empty\<rparr>"

definition sp_new :: "bool \<Rightarrow> spec_engine" where
  "sp_new bridged = \<lparr>sp_bridge = (if bridged then Some Map.empty else None), sp_base = [], sp_loaded = False, sp_map = Map.empty\<rparr>"

text \<open>The simulation relation.\<close>

definition bridge_rel :: "k8s_records option \<Rightarrow> (string \<rightharpoonup> DNSRecord list) option \<Rightarrow> bool" where
  "bridge_rel b f = (case (b, f) of (None, None) \<Rightarrow> True | (Some l, Some g) \<Rightarrow> distinct (map fst l) \<and> map_of l = g | _ \<Rightarrow> False)"

definition engine_rel :: "mdns \<Rightarrow> Engine \<Rightarrow> spec_engine \<Rightarrow> bool" where
  "engine_rel m e sp = (store_inv (known m) (e_store e) \<and> abs_store (e_store e) = sp_map sp \<and> bridge_rel (e_bridge e) (sp_bridge sp) \<and>
     baseDNS e = sp_base sp \<and> k8sDNS e = sp_flat (sp_bridge sp) \<and> k8sLoaded e = sp_loaded sp)"

text \<open>The records of the cluster that answer a question.\<close>

definition bridge_answers :: "mdns \<Rightarrow> (string \<rightharpoonup> DNSRecord list) option \<Rightarrow> DNSQuestion \<Rightarrow> DNSRecord set" where
  "bridge_answers m b q = (case b of None \<Rightarrow> {} | Some f \<Rightarrow> {r \<in> (\<Union>rs \<in> ran f. set rs). normalizeFQDN (dr_FQDN r) = normalizeFQDN (q_FQDN q) \<and>
     normalizeRecordType (known m) (dr_RecordType r) = normalizeRecordType (known m) (q_RecordType q) \<and> dr_Enabled r})"

text \<open>What one question contributes to a response.\<close>

fun render_records :: "mdns \<Rightarrow> DNSRecord list \<Rightarrow> RR list result" where
  "render_records m [] = Inr []"
| "render_records m (r # rs) = (case toRR m r of
      Inl e \<Rightarrow> Inl e
    | Inr rrs \<Rightarrow> (case render_records m rs of Inl e \<Rightarrow> Inl e | Inr rest \<Rightarrow> Inr (rrs @ rest)))"

definition question_answers :: "mdns \<Rightarrow> exchange \<Rightarrow> net_addr option \<Rightarrow> Engine \<Rightarrow> string \<times> 16 word \<Rightarrow> RR list result" where
  "question_answers m ex remote e q = (case Lookup m ex \<lparr>q_FQDN = fst q, q_RecordType = TypeToString m (snd q)\<rparr> e of
      Inl err \<Rightarrow> Inl err
    | Inr a \<Rightarrow> if as_Found a then render_records m (case e_geo e of None \<Rightarrow> as_Records a | Some g \<Rightarrow> ApplyGeoSort g remote (as_Records a)) else Inr [])"

fun answer_all :: "mdns \<Rightarrow> (nat \<Rightarrow> exchange) \<Rightarrow> net_addr option \<Rightarrow> Engine \<Rightarrow> nat \<Rightarrow> (string \<times> 16 word) list \<Rightarrow> RR list result" where
  "answer_all m ex remote e i [] = Inr []"
| "answer_all m ex remote e i (q # qs) = (case question_answers m (ex i) remote e q of
      Inl err \<Rightarrow> Inl err
    | Inr rrs \<Rightarrow> (case answer_all m ex remote e (Suc i) qs of Inl err \<Rightarrow> Inl err | Inr rest \<Rightarrow> Inr (rrs @ rest)))"

definition reply_ok :: "mdns \<Rightarrow> bool" where
  "reply_ok m = (\<forall>req. msg_Rcode (SetReply m req) = RcodeSuccess \<and> msg_Answer (SetReply m req) = [])"

section \<open>Refinement\<close>

lemma flatten_map:
  assumes "distinct (map fst l)" "map_of l = f"
  shows "flattenRecordsLocked l = sp_flat (Some f)"
proof -
  have "sort (map fst l) = sorted_list_of_set (set (map fst l))"
    unfolding sorted_list_of_set_sort_remdups distinct_remdups_id [OF assms(1)] ..
  moreover have "set (map fst l) = dom f" using assms(2) dom_map_of_conv_image_fst [of l] by simp
  ultimately show ?thesis using assms(2) by (simp add: flattenRecordsLocked_def sort_Strings_def sp_flat_def cloneDNSRecords_def)
qed

lemma install_rel:
  assumes "no_bar (known m)" "bridge_rel (e_bridge e) (sp_bridge sp)" "baseDNS e = sp_base sp" "k8sDNS e = sp_flat (sp_bridge sp)" "k8sLoaded e = sp_loaded sp"
  shows "engine_rel m (install m (baseDNS e @ k8sDNS e) e) (sp_install sp)"
  using assms store_Restore_refines [OF assms(1), of "baseDNS e @ k8sDNS e" "e_store e"]
  by (simp add: engine_rel_def install_def sp_install_def)

lemma bridge_changed_rel:
  assumes "no_bar (known m)" "engine_rel m e sp" "distinct (map fst b)" "map_of b = f"
  shows "engine_rel m (bridge_changed m b e) (sp_install (sp\<lparr>sp_bridge := Some f\<rparr>))"
proof -
  have "engine_rel m (install m (baseDNS e @ flattenRecordsLocked b) (e\<lparr>e_bridge := Some b, k8sDNS := flattenRecordsLocked b\<rparr>)) (sp_install (sp\<lparr>sp_bridge := Some f\<rparr>))"
    using install_rel [OF assms(1), of "e\<lparr>e_bridge := Some b, k8sDNS := flattenRecordsLocked b\<rparr>" "sp\<lparr>sp_bridge := Some f\<rparr>"] assms(2-4) flatten_map
    by (simp add: engine_rel_def bridge_rel_def)
  then show ?thesis by (simp add: bridge_changed_def replaceK8sRecords_def replace_merge_def cloneDNSRecords_def Let_def)
qed

lemma bridge_cases:
  assumes "engine_rel m e sp"
  obtains "e_bridge e = None" "sp_bridge sp = None"
  | b f where "e_bridge e = Some b" "sp_bridge sp = Some f" "distinct (map fst b)" "map_of b = f"
  using assms by (cases "e_bridge e"; cases "sp_bridge sp") (auto simp: engine_rel_def bridge_rel_def)

lemma storeObject_rel:
  assumes "no_bar (known m)" "engine_rel m e sp"
  shows "engine_rel m (storeObject m obj e) (sp_object m obj sp)"
  using assms(2)
proof (cases rule: bridge_cases)
  case 1
  then show ?thesis using assms(2) by (simp add: storeObject_def sp_object_def)
next
  case (2 b f)
  then show ?thesis
    using assms bridge_changed_rel [OF assms]
    by (cases "parseDNSDomainRecordState m (asUnstructured obj)") (simp_all add: storeObject_def sp_object_def update_conv')
qed

lemma load_items_rel:
  assumes "distinct (map fst b)" "map_of b = f"
  shows "distinct (map fst (load_items m us b)) \<and> map_of (load_items m us b) = fold (sp_put m) us f"
  using assms
proof (induction us arbitrary: b f)
  case (Cons u us)
  show ?case
  proof (cases "parseDNSDomainRecordState m (Some u)")
    case None
    then show ?thesis using Cons.IH [OF Cons.prems] by (simp add: sp_put_def)
  next
    case (Some st)
    have "distinct (map fst (AList.update (ks_key st) (ks_records st) b))" "map_of (AList.update (ks_key st) (ks_records st) b) = sp_put m u f"
      using Cons.prems Some by (simp_all add: sp_put_def update_conv')
    from Cons.IH [OF this] show ?thesis using Some by simp
  qed
qed simp

lemma delete_rel:
  assumes "no_bar (known m)" "engine_rel m e sp"
  shows "engine_rel m (deleteObject m obj e) (sp_step m (DoDelete obj) sp)"
  using assms(2)
proof (cases rule: bridge_cases)
  case 1
  then show ?thesis using assms(2) by (simp add: deleteObject_def)
next
  case (2 b f)
  show ?thesis
  proof (cases "deleteByNamespaceName obj")
    case None
    then show ?thesis using 2 assms(2) by (simp add: deleteObject_def)
  next
    case (Some nn)
    obtain ns name where nn: "nn = (ns, name)" by (cases nn)
    have "map_of (AList.delete (ns @ ''/'' @ name) b) = f(ns @ ''/'' @ name := None)" using 2 by (simp add: delete_conv')
    then show ?thesis
      using 2 Some nn bridge_changed_rel [OF assms, of "AList.delete (ns @ ''/'' @ name) b"] by (simp add: deleteObject_def)
  qed
qed

lemma bind_rel:
  assumes "no_bar (known m)" "engine_rel m e sp"
  shows "engine_rel m (snd (BindContext m listed e)) (sp_step m (DoBind listed) sp)"
  using assms(2)
proof (cases rule: bridge_cases)
  case 1
  then show ?thesis using assms(2) by (simp add: BindContext_def)
next
  case (2 b f)
  have l: "k8sLoaded e = sp_loaded sp" using assms(2) by (simp add: engine_rel_def)
  show ?thesis
  proof (cases listed)
    case (Inl err)
    then show ?thesis using 2 assms(2) by (simp add: BindContext_def LoadInitial_def)
  next
    case (Inr us)
    have "engine_rel m (bridge_changed m (load_items m us b) e) (sp_install (sp\<lparr>sp_bridge := Some (fold (sp_put m) us f)\<rparr>))"
      using bridge_changed_rel [OF assms] load_items_rel [OF 2(3,4), of m us] by blast
    then show ?thesis using 2 Inr l assms(2) by (simp add: BindContext_def LoadInitial_def engine_rel_def sp_install_def)
  qed
qed

lemma store_rel:
  assumes "no_bar (known m)" "engine_rel m e sp" "s' = store_step (known m) op (e_store e)"
  shows "engine_rel m (e\<lparr>e_store := s'\<rparr>) (sp\<lparr>sp_map := spec_step op (sp_map sp)\<rparr>)"
  using assms store_step_refines [OF assms(1), of "e_store e" op] by (simp add: engine_rel_def)

lemma spec_put_normal:
  "spec_put (r\<lparr>dr_FQDN := normalizeFQDN (dr_FQDN r), dr_RecordType := t\<rparr>) = spec_put (r\<lparr>dr_RecordType := t\<rparr>)"
  by (simp add: spec_put_def fun_eq_iff)

lemma engine_step_rel:
  assumes "no_bar (known m)" "engine_rel m e sp"
  shows "engine_rel m (engine_step m op e) (sp_step m op sp)"
proof (cases op)
  case (DoRestore rs)
  have "engine_rel m (install m (rs @ k8sDNS e) (e\<lparr>baseDNS := rs\<rparr>)) (sp_install (sp\<lparr>sp_base := rs\<rparr>))"
    using install_rel [OF assms(1), of "e\<lparr>baseDNS := rs\<rparr>" "sp\<lparr>sp_base := rs\<rparr>"] assms(2) by (simp add: engine_rel_def)
  then show ?thesis using DoRestore by (simp add: RestoreRecords_def restore_merge_def cloneDNSRecords_def Let_def)
next
  case (DoAdd r)
  show ?thesis
  proof (cases "Add_Validate m r")
    case None
    let ?r = "r\<lparr>dr_FQDN := normalizeFQDN (dr_FQDN r), dr_RecordType := normalizeRecordType (known m) (dr_RecordType r)\<rparr>"
    have "engine_rel m (e\<lparr>e_store := snd (store_Add (known m) ?r (e_store e))\<rparr>) (sp\<lparr>sp_map := spec_step (OpAdd ?r) (sp_map sp)\<rparr>)"
      by (rule store_rel [OF assms]) simp
    then show ?thesis using DoAdd None by (simp add: AddRecord_def spec_put_normal case_prod_beta Let_def)
  qed (use DoAdd assms(2) in \<open>simp add: AddRecord_def\<close>)
next
  case (DoModify i)
  show ?thesis
  proof (cases "Modify_Validate m i")
    case None
    let ?s = "store_Modify (known m) (mi_DomainID i) (mi_RecordID i) (modify_apply m i) (e_store e)"
    have "engine_rel m (e\<lparr>e_store := snd ?s\<rparr>) (sp\<lparr>sp_map := spec_step (OpModify (mi_DomainID i) (mi_RecordID i) (modify_apply m i)) (sp_map sp)\<rparr>)"
      by (rule store_rel [OF assms]) simp
    moreover have "snd (ModifyRecord m i e) = e\<lparr>e_store := snd ?s\<rparr>" using None by (simp add: ModifyRecord_def case_prod_beta split: sum.split prod.split)
    ultimately show ?thesis using DoModify None by simp
  qed (use DoModify assms(2) in \<open>simp add: ModifyRecord_def\<close>)
next
  case (DoRemove d i)
  show ?thesis
  proof (cases "Delete_Validate d i")
    case None
    let ?s = "store_Delete (known m) d i (e_store e)"
    have "engine_rel m (e\<lparr>e_store := snd ?s\<rparr>) (sp\<lparr>sp_map := spec_step (OpDelete d i) (sp_map sp)\<rparr>)"
      by (rule store_rel [OF assms]) simp
    moreover have "snd (DeleteRecord m d i e) = e\<lparr>e_store := snd ?s\<rparr>" using None by (simp add: DeleteRecord_def case_prod_beta split: sum.split prod.split)
    ultimately show ?thesis using DoRemove None by simp
  qed (use DoRemove assms(2) in \<open>simp add: DeleteRecord_def\<close>)
next
  case (DoRefresh f t)
  have "engine_rel m (RefreshQuestion m f t e) (sp\<lparr>sp_map := spec_step (OpRefresh \<lparr>q_FQDN = f, q_RecordType = t\<rparr>) (sp_map sp)\<rparr>)"
    unfolding RefreshQuestion_def by (rule store_rel [OF assms]) simp
  then show ?thesis using DoRefresh by simp
next
  case DoRefreshAll
  have "engine_rel m (RefreshAll e) (sp\<lparr>sp_map := spec_step OpClear (sp_map sp)\<rparr>)"
    unfolding RefreshAll_def by (rule store_rel [OF assms]) simp
  then show ?thesis using DoRefreshAll by simp
qed (simp_all add: updateObject_def storeObject_rel [OF assms] delete_rel [OF assms] bind_rel [OF assms] del: sp_step.simps(4,5))

lemma engine_steps_rel:
  assumes "no_bar (known m)" "engine_rel m e sp"
  shows "engine_rel m (fold (engine_step m) ops e) (fold (sp_step m) ops sp)"
  using assms(2) by (induction ops arbitrary: e sp) (simp_all add: engine_step_rel [OF assms(1)])

lemma NewEngine_rel:
  assumes "no_bar (known m)"
  shows "engine_rel m (NewEngine m openReader reachable opts) (sp_new (eo_K8sEnabled opts \<and> reachable))"
proof -
  define e0 where "e0 = initGeoIP openReader opts \<lparr>e_store = newDNSMemoryStore, e_forwarder = NewForwarder (if fc_Servers (eo_Forwarder opts) = [] \<and>
      fc_Timeout (eo_Forwarder opts) = 0 \<and> \<not> fc_Enabled (eo_Forwarder opts) then DefaultForwarderConfig else eo_Forwarder opts),
      e_geo = None, e_bridge = None, baseDNS = [], k8sDNS = [], k8sLoaded = False\<rparr>"
  have e0: "e_store e0 = newDNSMemoryStore" "e_bridge e0 = None" "baseDNS e0 = []" "k8sDNS e0 = []" "k8sLoaded e0 = False"
    unfolding e0_def initGeoIP_def by (auto split: sum.split)
  then have r: "engine_rel m e0 (sp_new False)" by (simp add: engine_rel_def sp_new_def bridge_rel_def sp_flat_def)
  have n: "NewEngine m openReader reachable opts = initK8sBridge m reachable opts e0" by (simp add: NewEngine_def e0_def Let_def)
  show ?thesis
  proof (cases "eo_K8sEnabled opts \<and> reachable")
    case True
    then have "NewEngine m openReader reachable opts = bridge_changed m [] e0"
      unfolding n initK8sBridge_def SetOnChange_def bridge_changed_def by simp
    moreover have "sp_new True = sp_install (sp_new False\<lparr>sp_bridge := Some Map.empty\<rparr>)"
      by (simp add: sp_new_def sp_install_def sp_flat_def)
    ultimately show ?thesis using bridge_changed_rel [OF assms r, of "[]" Map.empty] True by simp
  next
    case False
    then have "NewEngine m openReader reachable opts = e0" unfolding n initK8sBridge_def by auto
    then show ?thesis using r by (simp only: False)
  qed
qed

section \<open>Lookups\<close>

lemma bridge_Lookup_answers:
  fixes m :: mdns and q :: DNSQuestion
  assumes "distinct (map fst b)" "map_of b = f"
  defines "B \<equiv> bridge_answers m (Some f) q"
  shows "snd (bridge_Lookup m q b) \<longleftrightarrow> B \<noteq> {}" "set (as_Records (fst (bridge_Lookup m q b))) = B" "as_Found (fst (bridge_Lookup m q b)) \<longleftrightarrow> B \<noteq> {}"
proof -
  let ?P = "\<lambda>r. normalizeFQDN (dr_FQDN r) = normalizeFQDN (q_FQDN q) \<and>
    normalizeRecordType (known m) (dr_RecordType r) = normalizeRecordType (known m) (q_RecordType q) \<and> dr_Enabled r"
  have r: "ran f = snd ` set b" using ran_distinct [OF assms(1)] assms(2) by simp
  have c: "set (concat (map snd b)) = (\<Union>rs \<in> ran f. set rs)" unfolding r by simp
  have s: "set (filter ?P (concat (map snd b))) = B" unfolding set_filter c B_def bridge_answers_def option.case ..
  have e: "filter ?P (concat (map snd b)) = [] \<longleftrightarrow> B = {}" unfolding s [symmetric] by (simp only: set_empty)
  have L: "bridge_Lookup m q b = (if filter ?P (concat (map snd b)) = [] then (\<lparr>as_Question = normalizeQuestion (known m) q, as_Found = False, as_Records = []\<rparr>, False)
     else (\<lparr>as_Question = normalizeQuestion (known m) q, as_Found = True, as_Records = filter ?P (concat (map snd b))\<rparr>, True))"
    by (simp only: bridge_Lookup_def Let_def normalizeQuestion_sel cloneDNSRecords_def)
  show "snd (bridge_Lookup m q b) \<longleftrightarrow> B \<noteq> {}" "set (as_Records (fst (bridge_Lookup m q b))) = B" "as_Found (fst (bridge_Lookup m q b)) \<longleftrightarrow> B \<noteq> {}"
    unfolding L using s e by (cases "B = {}"; simp only: simp_thms if_True if_False fst_conv snd_conv DNSAnswerSet.select_convs list.set)+
qed

lemma Lookup_answers:
  fixes q :: DNSQuestion
  assumes "engine_rel m e sp" "normalizeFQDN (q_FQDN q) \<noteq> []" "normalizeRecordType (known m) (q_RecordType q) \<noteq> []"
  defines "B \<equiv> bridge_answers m (sp_bridge sp) q" and "S \<equiv> spec_answers (known m) (sp_map sp) q"
  shows "\<exists>a. Lookup m ex q e = Inr a \<and>
    (if B \<noteq> {} then as_Found a \<and> set (as_Records a) = B
     else if S \<noteq> {} then as_Found a \<and> set (as_Records a) = S
     else (\<forall>f. Forwarder_Lookup m ex q (e_forwarder e) = Inr f \<and> as_Found f \<longrightarrow> a = f) \<and>
       ((\<nexists>f. Forwarder_Lookup m ex q (e_forwarder e) = Inr f \<and> as_Found f) \<longrightarrow> \<not> as_Found a \<and> as_Records a = []))"
proof -
  let ?q = "normalizeQuestion (known m) q"
  define rest where "rest = lookup_rest m ex ?q e"
  have L: "Lookup m ex q e = (case e_bridge e of None \<Rightarrow> rest | Some b \<Rightarrow> (case bridge_Lookup m ?q b of (answerSet, ok) \<Rightarrow> if ok then Inr answerSet else rest))"
    unfolding rest_def using assms(2,3) by (simp add: Lookup_def Let_def)
  have inv: "store_inv (known m) (e_store e)" "abs_store (e_store e) = sp_map sp" using assms(1) by (simp_all add: engine_rel_def)
  have s: "spec_answers (known m) (sp_map sp) ?q = S" "bridge_answers m c ?q = bridge_answers m c q" for c
    by (simp add: S_def spec_answers_def) (cases c, simp_all add: bridge_answers_def)
  have f: "Forwarder_Lookup m ex ?q (e_forwarder e) = Forwarder_Lookup m ex q (e_forwarder e)" by (simp add: Forwarder_Lookup_def)
  have st: "set (as_Records (fst (store_Lookup (known m) ?q (e_store e)))) = S" "snd (store_Lookup (known m) ?q (e_store e)) \<longleftrightarrow> S \<noteq> {}"
    "as_Found (fst (store_Lookup (known m) ?q (e_store e))) \<longleftrightarrow> S \<noteq> {}"
    using store_Lookup_answers [OF inv(1), of ?q] inv(2) s(1) by simp_all
  have r: "\<exists>a. rest = Inr a \<and> (if S \<noteq> {} then as_Found a \<and> set (as_Records a) = S
     else (\<forall>f. Forwarder_Lookup m ex q (e_forwarder e) = Inr f \<and> as_Found f \<longrightarrow> a = f) \<and>
       ((\<nexists>f. Forwarder_Lookup m ex q (e_forwarder e) = Inr f \<and> as_Found f) \<longrightarrow> \<not> as_Found a \<and> as_Records a = []))"
  proof (cases "S = {}")
    case True
    then have "rest = (case Forwarder_Lookup m ex q (e_forwarder e) of
             Inr forwarded \<Rightarrow> if as_Found forwarded then Inr forwarded else Inr \<lparr>as_Question = ?q, as_Found = False, as_Records = []\<rparr>
           | Inl _ \<Rightarrow> Inr \<lparr>as_Question = ?q, as_Found = False, as_Records = []\<rparr>)"
      unfolding rest_def lookup_rest_def f case_prod_beta using st(2) by (simp only: simp_thms if_False)
    then show ?thesis using True by (cases "Forwarder_Lookup m ex q (e_forwarder e)") auto
  next
    case False
    then have "rest = Inr (fst (store_Lookup (known m) ?q (e_store e)))" unfolding rest_def lookup_rest_def case_prod_beta using st(2) by simp
    then show ?thesis using False st by simp
  qed
  show ?thesis
    using assms(1)
  proof (cases rule: bridge_cases)
    case 1
    then have "B = {}" by (simp add: B_def bridge_answers_def)
    then show ?thesis using r L 1 by simp
  next
    case (2 b g)
    note bl = bridge_Lookup_answers [OF 2(3,4), of m ?q, unfolded s(2), folded 2(2), folded B_def]
    show ?thesis
    proof (cases "B = {}")
      case True
      then have "Lookup m ex q e = rest" unfolding L 2(1) case_prod_beta using bl(1) by simp
      then show ?thesis using r True by simp
    next
      case False
      then have "Lookup m ex q e = Inr (fst (bridge_Lookup m ?q b))" unfolding L 2(1) case_prod_beta using bl(1) by simp
      then show ?thesis using False bl by simp
    qed
  qed
qed

section \<open>Responses\<close>

lemma serve_records_render:
  "serve_records m rs resp = (case render_records m rs of
     Inr rrs \<Rightarrow> Inr (resp\<lparr>msg_Answer := msg_Answer resp @ rrs\<rparr>)
   | Inl e \<Rightarrow> serve_records m rs resp)"
  "render_records m rs = Inl e \<Longrightarrow> \<exists>early. serve_records m rs resp = Inl early \<and> msg_Rcode early = RcodeServerFailure"
proof -
  show "serve_records m rs resp = (case render_records m rs of
       Inr rrs \<Rightarrow> Inr (resp\<lparr>msg_Answer := msg_Answer resp @ rrs\<rparr>) | Inl e \<Rightarrow> serve_records m rs resp)"
  proof (induction rs arbitrary: resp)
    case (Cons r rs)
    show ?case
    proof (cases "toRR m r")
      case (Inr rrs)
      then show ?thesis using Cons.IH [of "resp\<lparr>msg_Answer := msg_Answer resp @ rrs\<rparr>"] by (cases "render_records m rs") simp_all
    qed simp
  qed simp
  show "\<exists>early. serve_records m rs resp = Inl early \<and> msg_Rcode early = RcodeServerFailure" if "render_records m rs = Inl e"
    using that
  proof (induction rs arbitrary: resp)
    case (Cons r rs)
    then show ?case by (cases "toRR m r"; cases "render_records m rs") auto
  qed simp
qed

lemma serve_questions_outcome:
  "answer_all m ex remote e i qs = Inr rrs \<Longrightarrow> serve_questions m ex remote e i qs resp = Inr (resp\<lparr>msg_Answer := msg_Answer resp @ rrs\<rparr>)"
  "answer_all m ex remote e i qs = Inl err \<Longrightarrow> \<exists>early. serve_questions m ex remote e i qs resp = Inl early \<and> msg_Rcode early = RcodeServerFailure"
proof (induction qs arbitrary: i resp rrs err)
  case (Cons q qs)
  let ?rs = "\<lambda>a. case e_geo e of None \<Rightarrow> as_Records a | Some g \<Rightarrow> ApplyGeoSort g remote (as_Records a)"
  obtain name qtype where q: "q = (name, qtype)" by (cases q)
  let ?L = "\<lambda>i. Lookup m (ex i) \<lparr>q_FQDN = name, q_RecordType = TypeToString m qtype\<rparr> e"
  have step: "serve_questions m ex remote e i (q # qs) resp = (case question_answers m (ex i) remote e q of
      Inl err \<Rightarrow> serve_questions m ex remote e i (q # qs) resp
    | Inr rrs \<Rightarrow> serve_questions m ex remote e (Suc i) qs (resp\<lparr>msg_Answer := msg_Answer resp @ rrs\<rparr>))" for i resp
  proof (cases "?L i")
    case (Inr a)
    then show ?thesis using serve_records_render(1) [of m "?rs a" resp]
      by (cases "as_Found a"; cases "render_records m (?rs a)") (simp_all add: question_answers_def q)
  qed (simp add: question_answers_def q)
  have fail: "\<exists>early. serve_questions m ex remote e i (q # qs) resp = Inl early \<and> msg_Rcode early = RcodeServerFailure"
    if f: "question_answers m (ex i) remote e q = Inl err'" for err' i resp
  proof (cases "?L i")
    case (Inl e')
    then show ?thesis by (simp add: q)
  next
    case (Inr a)
    then have a: "as_Found a" "render_records m (?rs a) = Inl err'" using f by (simp_all add: question_answers_def q split: if_splits)
    then show ?thesis using serve_records_render(2) [OF a(2), of resp] Inr by (auto simp: q)
  qed
  {
    case 1
    then obtain rrs1 rrs2 where a: "question_answers m (ex i) remote e q = Inr rrs1" "answer_all m ex remote e (Suc i) qs = Inr rrs2" "rrs = rrs1 @ rrs2"
      by (auto split: sum.splits)
    show ?case by (subst step) (simp add: a Cons.IH(1) [OF a(2)])
  next
    case 2
    then show ?case
    proof (cases "question_answers m (ex i) remote e q")
      case (Inl e')
      then show ?thesis using fail by blast
    next
      case (Inr rrs')
      then have "\<exists>err'. answer_all m ex remote e (Suc i) qs = Inl err'" using 2 by (simp split: sum.splits)
      then obtain err' where "answer_all m ex remote e (Suc i) qs = Inl err'" by blast
      from Cons.IH(2) [OF this] show ?thesis by (subst step) (simp only: Inr sum.case)
    qed
  }
qed simp_all

lemma serveDNS_outcome:
  assumes "reply_ok m" "msg_Question req \<noteq> []"
  shows "answer_all m ex remote e 0 (msg_Question req) = Inr rrs \<Longrightarrow>
      msg_Answer (serveDNS m ex remote e req) = rrs \<and> msg_Rcode (serveDNS m ex remote e req) = (if rrs = [] then RcodeNameError else RcodeSuccess)"
    "answer_all m ex remote e 0 (msg_Question req) = Inl err \<Longrightarrow> msg_Rcode (serveDNS m ex remote e req) = RcodeServerFailure"
proof -
  have r: "msg_Rcode (SetReply m req) = RcodeSuccess" "msg_Answer (SetReply m req) = []" using assms(1) by (simp_all add: reply_ok_def)
  show "msg_Answer (serveDNS m ex remote e req) = rrs \<and> msg_Rcode (serveDNS m ex remote e req) = (if rrs = [] then RcodeNameError else RcodeSuccess)"
    if "answer_all m ex remote e 0 (msg_Question req) = Inr rrs"
    using serve_questions_outcome(1) [OF that, of "SetReply m req"] assms(2) r by (simp add: serveDNS_def)
  show "msg_Rcode (serveDNS m ex remote e req) = RcodeServerFailure" if "answer_all m ex remote e 0 (msg_Question req) = Inl err"
    using serve_questions_outcome(2) [OF that, of "SetReply m req"] assms(2) by (auto simp: serveDNS_def)
qed

lemma answer_all_conv:
  "answer_all m ex remote e i qs = (if \<forall>k < length qs. is_ok (question_answers m (ex (i + k)) remote e (qs ! k))
     then Inr (concat (map (\<lambda>k. projr (question_answers m (ex (i + k)) remote e (qs ! k))) [0..<length qs]))
     else answer_all m ex remote e i qs) \<and>
   ((\<exists>err. answer_all m ex remote e i qs = Inl err) \<longleftrightarrow> (\<exists>k < length qs. \<not> is_ok (question_answers m (ex (i + k)) remote e (qs ! k))))"
proof (induction qs arbitrary: i)
  case (Cons q qs)
  let ?a = "\<lambda>k. question_answers m (ex (i + k)) remote e ((q # qs) ! k)"
  have all: "(\<forall>k < length (q # qs). is_ok (?a k)) \<longleftrightarrow> is_ok (?a 0) \<and> (\<forall>k < length qs. is_ok (question_answers m (ex (Suc i + k)) remote e (qs ! k)))"
    unfolding length_Cons All_less_Suc2 by simp
  have map: "map (\<lambda>k. projr (?a k)) [0..<length (q # qs)] = projr (?a 0) # map (\<lambda>k. projr (question_answers m (ex (Suc i + k)) remote e (qs ! k))) [0..<length qs]"
    unfolding length_Cons upt_conv_Cons [OF zero_less_Suc] map_Suc_upt [symmetric] by simp
  show ?case
  proof (cases "?a 0")
    case (Inl err)
    then have "\<not> is_ok (?a 0)" by simp
    then show ?thesis using Inl by auto
  next
    case (Inr rrs)
    show ?thesis
    proof (cases "answer_all m ex remote e (Suc i) qs")
      case (Inl err)
      then have "\<not> (\<forall>k < length qs. is_ok (question_answers m (ex (Suc i + k)) remote e (qs ! k)))" using Cons.IH [of "Suc i"] by blast
      then have "\<not> (\<forall>k < length (q # qs). is_ok (?a k))" using all by blast
      moreover have "answer_all m ex remote e i (q # qs) = Inl err" using Inr Inl by simp
      ultimately show ?thesis by auto
    next
      case (Inr rest)
      then have ok: "\<forall>k < length qs. is_ok (question_answers m (ex (Suc i + k)) remote e (qs ! k))" using Cons.IH [of "Suc i"] by (metis Inl_Inr_False)
      then have rest: "rest = concat (map (\<lambda>k. projr (question_answers m (ex (Suc i + k)) remote e (qs ! k))) [0..<length qs])"
        using Cons.IH [of "Suc i"] Inr by simp
      have "answer_all m ex remote e i (q # qs) = Inr (rrs @ rest)" using Inr \<open>?a 0 = Inr rrs\<close> by simp
      moreover have "\<forall>k < length (q # qs). is_ok (?a k)" using all ok \<open>?a 0 = Inr rrs\<close> by simp
      ultimately show ?thesis unfolding map using \<open>?a 0 = Inr rrs\<close> rest by auto
    qed
  qed
qed simp

lemma render_fails:
  "\<lbrakk>r \<in> set rs; \<exists>e. toRR m r = Inl e\<rbrakk> \<Longrightarrow> \<exists>e. render_records m rs = Inl e"
  by (induction rs) (auto split: sum.splits)

section \<open>Properties\<close>

text \<open>C23. After any history of restored records, Kubernetes events, loads, record operations and refreshes the
  engine answers a question from exactly the records the history leaves: with the records the cluster
  currently declares for it, each of them and nothing else, if there are any; otherwise with the enabled
  records of the store; otherwise with the answer of the upstream server; and otherwise it reports that
  nothing was found.  The history is evaluated on plain maps from objects to records.\<close>

theorem engine_Lookup_exact:
  fixes m :: mdns and q :: DNSQuestion and ops :: "engine_op list" and openReader :: "string \<Rightarrow> geo_reader result" and reachable :: bool and opts :: EngineOptions
  assumes "no_bar (known m)" "normalizeFQDN (q_FQDN q) \<noteq> []" "normalizeRecordType (known m) (q_RecordType q) \<noteq> []"
  defines "e \<equiv> fold (engine_step m) ops (NewEngine m openReader reachable opts)"
    and "sp \<equiv> fold (sp_step m) ops (sp_new (eo_K8sEnabled opts \<and> reachable))"
  shows "\<exists>a. Lookup m ex q e = Inr a \<and>
    (if bridge_answers m (sp_bridge sp) q \<noteq> {} then as_Found a \<and> set (as_Records a) = bridge_answers m (sp_bridge sp) q
     else if spec_answers (known m) (sp_map sp) q \<noteq> {} then as_Found a \<and> set (as_Records a) = spec_answers (known m) (sp_map sp) q
     else (\<forall>f. Forwarder_Lookup m ex q (e_forwarder e) = Inr f \<and> as_Found f \<longrightarrow> a = f) \<and>
       ((\<nexists>f. Forwarder_Lookup m ex q (e_forwarder e) = Inr f \<and> as_Found f) \<longrightarrow> \<not> as_Found a \<and> as_Records a = []))"
  unfolding e_def sp_def by (rule Lookup_answers [OF engine_steps_rel [OF assms(1) NewEngine_rel [OF assms(1)]] assms(2,3)])

theorem engine_Lookup_exact_witness:
  defines "r \<equiv> zero_DNSRecord\<lparr>dr_ID := ''1'', dr_FQDN := ''a.b.'', dr_RecordType := ''A'', dr_ValuesJSON := ''10.0.0.1'', dr_Enabled := True\<rparr>"
    and "opts \<equiv> \<lparr>eo_Forwarder = DefaultForwarderConfig, eo_GeoIPEnabled = False, eo_GeoIPMMDBPath = [], eo_K8sEnabled = False\<rparr>"
    and "q \<equiv> \<lparr>q_FQDN = ''a.b.'', q_RecordType = ''A''\<rparr>"
  shows "\<exists>a. Lookup std_mdns (\<lambda>_ _. Inr None) q (engine_step std_mdns (DoRestore [r]) (NewEngine std_mdns (\<lambda>_. Inl ErrRecordNotFound) False opts)) = Inr a \<and>
    as_Records a \<noteq> [] \<and> set (as_Records a) = {r}"
proof -
  have nb: "no_bar (known std_mdns)" by (auto simp: no_bar_def std_known)
  have n: "normalizeFQDN ''a.b.'' = ''a.b.''" by code_simp
  have k: "sp_map (sp_step std_mdns (DoRestore [r]) (sp_new False)) = [(''a.b.'', ''1'') \<mapsto> r]"
    by (simp add: sp_install_def sp_new_def sp_flat_def spec_put_def r_def n zero_DNSRecord_def)
  have b: "bridge_answers std_mdns (sp_bridge (sp_step std_mdns (DoRestore [r]) (sp_new False))) q = {}"
    by (simp add: sp_install_def sp_new_def bridge_answers_def)
  have s: "spec_answers (known std_mdns) [(''a.b.'', ''1'') \<mapsto> r] q = {r}"
    by (auto simp: spec_answers_def q_def std_normal r_def n)
  have q: "normalizeFQDN (q_FQDN q) \<noteq> []" "normalizeRecordType (known std_mdns) (q_RecordType q) \<noteq> []" by (simp_all add: q_def n std_normal)
  have o: "(eo_K8sEnabled opts \<and> False) = False" by simp
  obtain a where "Lookup std_mdns (\<lambda>_ _. Inr None) q (engine_step std_mdns (DoRestore [r]) (NewEngine std_mdns (\<lambda>_. Inl ErrRecordNotFound) False opts)) = Inr a"
    "set (as_Records a) = {r}"
    using engine_Lookup_exact [OF nb q, of "\<lambda>_ _. Inr None" "[DoRestore [r]]" "\<lambda>_. Inl ErrRecordNotFound" False opts]
    unfolding fold_simps o b k s by auto
  then show ?thesis by (intro exI [of _ a]) auto
qed

text \<open>C24. How a query is answered. A message without a question gets the plain reply. If looking up or
  rendering some question fails, the response code is SERVFAIL.  Otherwise the answer section consists of
  the answers of all questions, in the order of the questions, and the code is NXDOMAIN if that is empty and
  NOERROR if not.\<close>

theorem serveDNS_classified:
  fixes m :: mdns and ex :: "nat \<Rightarrow> exchange" and remote :: "net_addr option" and e :: Engine and req :: Msg
  assumes "reply_ok m"
  defines "ans \<equiv> \<lambda>i. question_answers m (ex i) remote e (msg_Question req ! i)" and "n \<equiv> length (msg_Question req)"
    and "resp \<equiv> serveDNS m ex remote e req"
  shows "if n = 0 then resp = SetReply m req
    else if \<exists>i < n. \<not> is_ok (ans i) then msg_Rcode resp = RcodeServerFailure
    else msg_Answer resp = concat (map (\<lambda>i. projr (ans i)) [0..<n]) \<and>
      msg_Rcode resp = (if msg_Answer resp = [] then RcodeNameError else RcodeSuccess)"
proof (cases "msg_Question req = []")
  case True
  then show ?thesis by (simp add: n_def resp_def serveDNS_def)
next
  case False
  then have n: "n \<noteq> 0" by (simp add: n_def)
  have c: "(\<exists>err. answer_all m ex remote e 0 (msg_Question req) = Inl err) \<longleftrightarrow> (\<exists>i < n. \<not> is_ok (ans i))"
    "answer_all m ex remote e 0 (msg_Question req) = (if \<forall>i < n. is_ok (ans i) then Inr (concat (map (\<lambda>i. projr (ans i)) [0..<n]))
       else answer_all m ex remote e 0 (msg_Question req))"
    using answer_all_conv [of m ex remote e 0 "msg_Question req"] by (simp_all only: ans_def n_def add_0)
  show ?thesis
  proof (cases "\<exists>i < n. \<not> is_ok (ans i)")
    case True
    then obtain err where "answer_all m ex remote e 0 (msg_Question req) = Inl err" using c(1) by blast
    from serveDNS_outcome(2) [OF assms(1) False this] show ?thesis using n True by (simp add: resp_def)
  next
    case ok: False
    then have "answer_all m ex remote e 0 (msg_Question req) = Inr (concat (map (\<lambda>i. projr (ans i)) [0..<n]))" using c(2) by simp
    from serveDNS_outcome(1) [OF assms(1) False this] show ?thesis using n ok by (simp add: resp_def)
  qed
qed

theorem serveDNS_classified_witness:
  defines "e \<equiv> NewEngine std_mdns (\<lambda>_. Inl ErrRecordNotFound) False
      \<lparr>eo_Forwarder = DefaultForwarderConfig, eo_GeoIPEnabled = False, eo_GeoIPMMDBPath = [], eo_K8sEnabled = False\<rparr>"
    and "req \<equiv> \<lparr>msg_Response = False, msg_RecursionDesired = True, msg_Rcode = 0, msg_Question = [([], 1)], msg_Answer = [], msg_Ns = [], msg_Extra = []\<rparr>"
  shows "msg_Rcode (serveDNS std_mdns (\<lambda>_ _ _. Inr None) None e req) = RcodeServerFailure"
proof -
  have r: "reply_ok std_mdns" by (simp add: reply_ok_def std_mdns_def)
  have "normalizeFQDN [] = []" by code_simp
  then have "\<not> is_ok (question_answers std_mdns (\<lambda>_ _. Inr None) None e (msg_Question req ! 0))"
    by (simp add: question_answers_def Lookup_def req_def)
  moreover have "length (msg_Question req) = 1" by (simp add: req_def)
  ultimately show ?thesis using serveDNS_classified [OF r, where ex = "\<lambda>_ _ _. Inr None" and remote = None and e = e and req = req]
    by (simp add: split: if_splits)
qed



text \<open>C26. The values of a record declared in the cluster reach the client as they were declared. If they consist of
  printable characters without quotation marks, backslashes, commas and the three characters JSON escapes,
  then reading the stored text gives the declared values back, trimmed, without the empty ones, in order.\<close>

theorem k8s_values_roundtrip:
  assumes "item_record m domain domainID idx (Some item) = Some r" "\<forall>v \<in> set (ri_values item). list_all json_plain v"
  shows "splitValues (dr_ValuesJSON r) = filter (\<lambda>v. v \<noteq> []) (map TrimSpace (ri_values item))"
proof -
  let ?vs = "compactStrings (ri_values item)"
  have r: "?vs \<noteq> []" "dr_ValuesJSON r = json_strings ?vs" using assms(1) by (auto simp: item_record_def Let_def split: if_splits)
  have trim: "set (TrimSpace v) \<subseteq> set v" for v
    by (auto simp: TrimSpace_def TrimFunc_def TrimLeftFunc_def TrimRightFunc_def dest!: set_dropWhileD)
  have "\<forall>v \<in> set ?vs. v \<noteq> [] \<and> list_all json_plain v \<and> TrimSpace v = v"
    using assms(2) trim by (fastforce simp: compactStrings_def list_all_iff)
  from splitValues_json [OF r(1) this] show ?thesis by (simp add: r(2) compactStrings_def)
qed

theorem k8s_values_roundtrip_witness:
  defines "item \<equiv> \<lparr>ri_type = ''TXT'', ri_values = ['' v=1 '', [], ''x y''], ri_name = ''@'', ri_ttl = None\<rparr>"
  shows "\<exists>r. item_record std_mdns ''a.b'' ''k8s:n:d'' 0 (Some item) = Some r \<and> splitValues (dr_ValuesJSON r) = [''v=1'', ''x y'']"
proof -
  have c: "compactStrings (ri_values item) = [''v=1'', ''x y'']" unfolding item_def by code_simp
  have n: "normalizeRecordType (known std_mdns) (ri_type item) = ''TXT''" by (simp add: item_def std_normal)
  have "\<exists>r. item_record std_mdns ''a.b'' ''k8s:n:d'' 0 (Some item) = Some r" by (simp add: item_record_def Let_def c n)
  then obtain r where r: "item_record std_mdns ''a.b'' ''k8s:n:d'' 0 (Some item) = Some r" by blast
  have "\<forall>v \<in> set (ri_values item). list_all json_plain v" unfolding item_def by code_simp
  from k8s_values_roundtrip [OF r this] r c show ?thesis by (auto simp: compactStrings_def)
qed


text \<open>C28. Installing records is not atomic. If a Kubernetes event has merged its records, and before it installs them
  the replica restores a new set of records, then the store ends up with the records that the replica had
  given before: what it gave last is recorded as the base but answers no question.\<close>

theorem interleaved_install_stale:
  assumes "no_bar (known m)" "replace_merge ks e = (merged1, e1)" "restore_merge rs e1 = (merged2, e2)"
    "e' = install m merged1 (install m merged2 e2)"
  shows "baseDNS e' = rs \<and> k8sDNS e' = ks \<and>
    set (as_Records (fst (store_Lookup (known m) q (e_store e')))) = spec_answers (known m) (fold spec_put (baseDNS e @ ks) Map.empty) q"
proof -
  have e1: "merged1 = baseDNS e @ ks" "e1 = e\<lparr>k8sDNS := ks\<rparr>" using assms(2) by (auto simp: replace_merge_def cloneDNSRecords_def Let_def)
  have e2: "e2 = e\<lparr>k8sDNS := ks, baseDNS := rs\<rparr>" using assms(3) e1 by (auto simp: restore_merge_def Let_def cloneDNSRecords_def)
  have "store_inv (known m) (e_store e') \<and> abs_store (e_store e') = fold spec_put (baseDNS e @ ks) Map.empty"
    using store_Restore_refines [OF assms(1), of "baseDNS e @ ks" "e_store (install m merged2 e2)"] assms(4) e1 by (simp add: install_def)
  then show ?thesis using store_Lookup_answers(1) [of "known m" "e_store e'" q] assms(4) e2 by (simp add: install_def)
qed

theorem interleaved_install_stale_witness:
  defines "old \<equiv> zero_DNSRecord\<lparr>dr_ID := ''1'', dr_FQDN := ''a.b.'', dr_RecordType := ''A'', dr_ValuesJSON := ''10.0.0.1'', dr_Enabled := True\<rparr>"
    and "new \<equiv> zero_DNSRecord\<lparr>dr_ID := ''1'', dr_FQDN := ''a.b.'', dr_RecordType := ''A'', dr_ValuesJSON := ''10.0.0.2'', dr_Enabled := True\<rparr>"
    and "opts \<equiv> \<lparr>eo_Forwarder = DefaultForwarderConfig, eo_GeoIPEnabled = False, eo_GeoIPMMDBPath = [], eo_K8sEnabled = True\<rparr>"
  shows "\<exists>e e1 e2 e' merged1 merged2. e = RestoreRecords std_mdns [old] (NewEngine std_mdns (\<lambda>_. Inl ErrRecordNotFound) True opts) \<and>
    replace_merge [] e = (merged1, e1) \<and> restore_merge [new] e1 = (merged2, e2) \<and> e' = install std_mdns merged1 (install std_mdns merged2 e2) \<and>
    baseDNS e' = [new] \<and> set (as_Records (fst (store_Lookup (known std_mdns) \<lparr>q_FQDN = ''a.b.'', q_RecordType = ''A''\<rparr> (e_store e')))) = {old}"
proof -
  define e where "e = RestoreRecords std_mdns [old] (NewEngine std_mdns (\<lambda>_. Inl ErrRecordNotFound) True opts)"
  obtain merged1 e1 where 1: "replace_merge [] e = (merged1, e1)" by fastforce
  obtain merged2 e2 where 2: "restore_merge [new] e1 = (merged2, e2)" by fastforce
  have nb: "no_bar (known std_mdns)" by (auto simp: no_bar_def std_known)
  have n: "normalizeFQDN ''a.b.'' = ''a.b.''" by code_simp
  have b: "baseDNS e = [old]" by (simp add: e_def RestoreRecords_def restore_merge_def install_def cloneDNSRecords_def Let_def)
  have "fold spec_put [old] Map.empty = [(''a.b.'', ''1'') \<mapsto> old]" by (simp add: spec_put_def old_def n zero_DNSRecord_def)
  then have "spec_answers (known std_mdns) (fold spec_put (baseDNS e @ []) Map.empty) \<lparr>q_FQDN = ''a.b.'', q_RecordType = ''A''\<rparr> = {old}"
    unfolding b append_Nil2 by (auto simp: spec_answers_def std_normal old_def n)
  then show ?thesis using interleaved_install_stale [OF nb 1 2 refl, of "\<lparr>q_FQDN = ''a.b.'', q_RecordType = ''A''\<rparr>"] 1 2 e_def by blast
qed

end
