(* ===== verification/Ingress_Bridge.thy ===== *)
theory Ingress_Bridge
  imports Hostnames Metadata "HOL-Library.Product_Lexorder"
begin

text \<open>
  The Kubernetes bridge of the ingress: \<^verbatim>\<open>ingress/k8s_bridge.go\<close>, \<^verbatim>\<open>k8s_bridge_ingress.go\<close> and \<^verbatim>\<open>k8s_bridge_gateway.go\<close>, with the
  types of \<^verbatim>\<open>types.go\<close> they use.  Typed objects of the Kubernetes API are records of the fields the code reads;
  untyped ones are records of the values that the accessors of the client library return, an element of a
  list that is not an object being \<^const>\<open>None\<close>.  The JSON text of an Ingress path is a parameter.  Materialised routes
  always carry a binding, as both places that build one set it.  Every operation holds the mutex throughout
  and is one state transformer.

  The lemmas show that after any history of events the route tables are the ones the stored objects
  determine, and that a lookup selects a best candidate among exactly the matching ones.
\<close>

section \<open>Types\<close>

type_synonym RouteKind = string
abbreviation (input) RouteKindHTTP :: RouteKind where "RouteKindHTTP \<equiv> ''http''"
abbreviation (input) RouteKindHTTPS :: RouteKind where "RouteKindHTTPS \<equiv> ''https''"
abbreviation (input) RouteKindGRPC :: RouteKind where "RouteKindGRPC \<equiv> ''grpc''"
abbreviation (input) RouteKindTLSTerminate :: RouteKind where "RouteKindTLSTerminate \<equiv> ''tls-terminate''"
abbreviation (input) RouteKindTLSPassthrough :: RouteKind where "RouteKindTLSPassthrough \<equiv> ''tls-passthrough''"
abbreviation (input) RouteKindTCP :: RouteKind where "RouteKindTCP \<equiv> ''tcp''"
abbreviation (input) RouteKindUDP :: RouteKind where "RouteKindUDP \<equiv> ''udp''"

record BackendBinding =
  bb_ID :: string
  bb_Hostname :: string
  bb_ServiceID :: string
  bb_Namespace :: string
  bb_Name :: string
  bb_Address :: string
  bb_Port :: "32 word"
  bb_Protocol :: RouteKind
  bb_RouteVersion :: "64 word"
  bb_Path :: string
  bb_Priority :: "32 word"
  bb_BackendJSON :: string
  bb_BackendRef :: "ServiceBackendRef option"
  bb_DomainEntryID :: string

record ResolvedRoute =
  rt_Hostname :: string
  rt_RouteVersion :: "64 word"
  rt_Protocol :: RouteKind
  rt_RouteJSON :: string
  rt_BindingID :: string

datatype k8sRoutePathKind = k8sRoutePathPrefix | k8sRoutePathExact

record k8sMaterializedRoute =
  mr_kind :: RouteKind
  mr_binding :: BackendBinding
  mr_route :: ResolvedRoute
  mr_hostname :: string
  mr_port :: "32 word"
  mr_path :: string
  mr_pathKind :: k8sRoutePathKind
  mr_listener :: string
  mr_routeOrder :: nat

record K8sResolvedBackend =
  kb_Kind :: RouteKind
  kb_Hostname :: string
  kb_Port :: "32 word"
  kb_Binding :: BackendBinding
  kb_Route :: ResolvedRoute

text \<open>An Ingress: a path has its service name, port number and port name if its backend is a service.\<close>

record ingress_path =
  ip_Path :: string
  ip_PathType :: "string option"
  ip_Service :: "(string \<times> 32 word \<times> string) option"

record ingress_rule =
  ir_Host :: string
  ir_HTTP :: "ingress_path list option"

record Ingress =
  in_Namespace :: string
  in_Name :: string
  in_Generation :: "64 word"
  in_IngressClassName :: "string option"
  in_Annotations :: "(string \<times> string) list option"
  in_Rules :: "ingress_rule list"

record Service =
  sv_Namespace :: string
  sv_Name :: string
  sv_Type :: string
  sv_ExternalName :: string

text \<open>Untyped objects of the Gateway API.\<close>

record listener_item =
  li_name :: string
  li_protocol :: string
  li_hostname :: string
  li_port :: "64 word"
  li_tls_mode :: string

record ref_item =
  rf_name :: string
  rf_namespace :: string
  rf_sectionName :: string
  rf_port :: "64 word"

record match_item =
  ma_path_value :: "string option"
  ma_path_type :: "string option"

record rule_item =
  ru_matches :: "match_item option list"
  ru_backendRefs :: "ref_item option list"

record gateway_object =
  go_Name :: string
  go_Namespace :: string
  go_listeners :: "listener_item option list"

record route_object =
  ro_Name :: string
  ro_Namespace :: string
  ro_hostnames :: "string list"
  ro_parentRefs :: "ref_item option list"
  ro_rules :: "rule_item option list"

record k8sGatewayListenerState =
  gl_name :: string
  gl_protocol :: string
  gl_hostname :: string
  gl_port :: "32 word"
  gl_tlsMode :: string
  gl_routeKind :: RouteKind

record k8sGatewayState =
  gs_name :: string
  gs_namespace :: string
  gs_listeners :: "(string \<times> k8sGatewayListenerState) list"

record k8sBackendRef =
  be_namespace :: string
  be_name :: string
  be_port :: "32 word"

record k8sParentRef =
  pr_gatewayKey :: string
  pr_sectionName :: string

record k8sHTTPRouteRuleState =
  rs_path :: string
  rs_pathKind :: k8sRoutePathKind
  rs_backend :: k8sBackendRef

record k8sHTTPRouteState =
  hr_name :: string
  hr_namespace :: string
  hr_hostnames :: "string list"
  hr_parentRefs :: "k8sParentRef list"
  hr_rules :: "k8sHTTPRouteRuleState list"

record k8sL4RouteState =
  l4_name :: string
  l4_namespace :: string
  l4_hostnames :: "string list"
  l4_parentRefs :: "k8sParentRef list"
  l4_backend :: k8sBackendRef

record K8sBridge =
  br_namespace :: string
  br_ingressClass :: string
  br_ingresses :: "(string \<times> Ingress) list"
  br_services :: "(string \<times> Service) list"
  br_gateways :: "(string \<times> k8sGatewayState) list"
  br_httpRoutes :: "(string \<times> k8sHTTPRouteState) list"
  br_grpcRoutes :: "(string \<times> k8sHTTPRouteState) list"
  br_tlsRoutes :: "(string \<times> k8sL4RouteState) list"
  br_tcpRoutes :: "(string \<times> k8sL4RouteState) list"
  br_udpRoutes :: "(string \<times> k8sL4RouteState) list"
  httpResolved :: "(string \<times> k8sMaterializedRoute list) list"
  httpsResolved :: "(string \<times> k8sMaterializedRoute list) list"
  grpcResolved :: "(string \<times> k8sMaterializedRoute list) list"
  tlsResolved :: "(string \<times> k8sMaterializedRoute list) list"
  tcpResolved :: "(32 word \<times> k8sMaterializedRoute list) list"
  udpResolved :: "(32 word \<times> k8sMaterializedRoute list) list"

section \<open>Helpers\<close>

text \<open>\<^verbatim>\<open>strings.EqualFold\<close> on ASCII text.\<close>

definition EqualFold :: "string \<Rightarrow> string \<Rightarrow> bool" where
  "EqualFold s t = (ToLower s = ToLower t)"

definition buildServiceAddress :: "string \<Rightarrow> string \<Rightarrow> string" where
  "buildServiceAddress name namespace = name @ ''.'' @ namespace @ ''.svc.cluster.local''"

definition normalizeIngressPath :: "string \<Rightarrow> string" where
  "normalizeIngressPath path0 = (let path = TrimSpace path0 in if path = [] \<or> hd path \<noteq> CHR ''/'' then ''/'' else path)"

definition bucket :: "('k \<times> 'v list) list \<Rightarrow> 'k \<Rightarrow> 'v list" where
  "bucket t k = (case map_of t k of None \<Rightarrow> [] | Some rs \<Rightarrow> rs)"

definition bucket_add :: "'k \<Rightarrow> 'v \<Rightarrow> ('k \<times> 'v list) list \<Rightarrow> ('k \<times> 'v list) list" where
  "bucket_add k r t = AList.update k (bucket t k @ [r]) t"

text \<open>The loops that keep the best candidate so far.\<close>

fun pick :: "('a \<Rightarrow> 'a \<Rightarrow> bool) \<Rightarrow> 'a option \<Rightarrow> 'a list \<Rightarrow> 'a option" where
  "pick better selected [] = selected"
| "pick better selected (c # cs) = pick better (case selected of None \<Rightarrow> Some c | Some s \<Rightarrow> if better c s then Some c else Some s) cs"

section \<open>Lookups\<close>

definition k8sPathMatches :: "k8sRoutePathKind \<Rightarrow> string \<Rightarrow> string \<Rightarrow> bool" where
  "k8sPathMatches pathKind routePath0 requestPath0 = (
     let routePath = normalizeIngressPath routePath0; requestPath = normalizeIngressPath requestPath0 in
     case pathKind of
       k8sRoutePathExact \<Rightarrow> requestPath = routePath
     | k8sRoutePathPrefix \<Rightarrow>
         if routePath = ''/'' then True
         else if requestPath = routePath then True
         else if \<not> HasPrefix requestPath routePath then False
         else HasPrefix (drop (length routePath) requestPath) ''/'')"

definition compareK8sRoutePriority :: "k8sMaterializedRoute \<Rightarrow> k8sMaterializedRoute \<Rightarrow> int" where
  "compareK8sRoutePriority l r = (
     if mr_pathKind l \<noteq> mr_pathKind r then (if mr_pathKind l = k8sRoutePathExact then 1 else -1)
     else if length (mr_path l) \<noteq> length (mr_path r) then (if length (mr_path l) > length (mr_path r) then 1 else -1)
     else if mr_routeOrder l \<noteq> mr_routeOrder r then (if mr_routeOrder l < mr_routeOrder r then 1 else -1)
     else if bb_ID (mr_binding l) \<noteq> bb_ID (mr_binding r) then (if bb_ID (mr_binding l) > bb_ID (mr_binding r) then 1 else -1)
     else 0)"

definition selectK8sRoute :: "k8sMaterializedRoute list \<Rightarrow> string \<Rightarrow> RouteKind \<Rightarrow> k8sMaterializedRoute option" where
  "selectK8sRoute routes requestPath kind = pick (\<lambda>c s. compareK8sRoutePriority c s > 0) None
     (filter (\<lambda>c. mr_kind c = kind \<and> k8sPathMatches (mr_pathKind c) (mr_path c) requestPath) routes)"

definition materializedToResolved :: "k8sMaterializedRoute \<Rightarrow> K8sResolvedBackend" where
  "materializedToResolved r = \<lparr>kb_Kind = mr_kind r, kb_Hostname = mr_hostname r, kb_Port = mr_port r, kb_Binding = mr_binding r, kb_Route = mr_route r\<rparr>"

definition host_routes :: "RouteKind \<Rightarrow> string \<Rightarrow> K8sBridge \<Rightarrow> k8sMaterializedRoute list option" where
  "host_routes kind host b = (
     if kind = RouteKindHTTP then Some (bucket (httpResolved b) host)
     else if kind = RouteKindHTTPS then Some (bucket (httpsResolved b) host)
     else if kind = RouteKindGRPC then Some (bucket (grpcResolved b) host)
     else if kind = RouteKindTLSTerminate \<or> kind = RouteKindTLSPassthrough then Some (bucket (tlsResolved b) host)
     else None)"

definition resolveHostPath :: "RouteKind \<Rightarrow> string \<Rightarrow> string \<Rightarrow> K8sBridge \<Rightarrow> K8sResolvedBackend option" where
  "resolveHostPath kind host0 requestPath0 b = (
     let host = normalizeHost host0 in
     if host = [] then None
     else let requestPath = normalizeIngressPath requestPath0 in
       case host_routes kind host b of
         None \<Rightarrow> None
       | Some routes \<Rightarrow> (case selectK8sRoute routes requestPath kind of None \<Rightarrow> None | Some selected \<Rightarrow> Some (materializedToResolved selected)))"

definition resolvePort :: "RouteKind \<Rightarrow> 32 word \<Rightarrow> K8sBridge \<Rightarrow> K8sResolvedBackend option" where
  "resolvePort kind port b = (
     let routes = (if kind = RouteKindTCP then bucket (tcpResolved b) port else if kind = RouteKindUDP then bucket (udpResolved b) port else []) in
     if routes = [] then None else Some (materializedToResolved (hd routes)))"

definition ResolveHTTP :: "string \<Rightarrow> string \<Rightarrow> K8sBridge \<Rightarrow> K8sResolvedBackend option" where
  "ResolveHTTP host requestPath b = resolveHostPath RouteKindHTTP host requestPath b"

definition ResolveRequest :: "string \<Rightarrow> string \<Rightarrow> K8sBridge \<Rightarrow> (BackendBinding \<times> ResolvedRoute) option" where
  "ResolveRequest host requestPath b = (case ResolveHTTP host requestPath b of
      None \<Rightarrow> None | Some resolved \<Rightarrow> Some (kb_Binding resolved, kb_Route resolved))"

definition ResolveHost :: "string \<Rightarrow> K8sBridge \<Rightarrow> (BackendBinding \<times> ResolvedRoute) option" where
  "ResolveHost host b = ResolveRequest host ''/'' b"

definition ResolveGRPC :: "string \<Rightarrow> string \<Rightarrow> K8sBridge \<Rightarrow> K8sResolvedBackend option" where
  "ResolveGRPC host requestPath b = resolveHostPath RouteKindGRPC host requestPath b"

definition ResolveHTTPS :: "string \<Rightarrow> string \<Rightarrow> K8sBridge \<Rightarrow> K8sResolvedBackend option" where
  "ResolveHTTPS host requestPath b = resolveHostPath RouteKindHTTPS host requestPath b"

definition ResolveTLS :: "string \<Rightarrow> K8sBridge \<Rightarrow> K8sResolvedBackend option" where
  "ResolveTLS serverName b = resolveHostPath RouteKindTLSTerminate serverName ''/'' b"

definition ResolveTLSPassthrough :: "string \<Rightarrow> K8sBridge \<Rightarrow> K8sResolvedBackend option" where
  "ResolveTLSPassthrough serverName b = resolveHostPath RouteKindTLSPassthrough serverName ''/'' b"

definition ResolveTCP :: "32 word \<Rightarrow> K8sBridge \<Rightarrow> K8sResolvedBackend option" where
  "ResolveTCP port b = resolvePort RouteKindTCP port b"

definition ResolveUDP :: "32 word \<Rightarrow> K8sBridge \<Rightarrow> K8sResolvedBackend option" where
  "ResolveUDP port b = resolvePort RouteKindUDP port b"

section \<open>Routes of Ingress objects\<close>

definition matchesIngressClass :: "Ingress \<Rightarrow> K8sBridge \<Rightarrow> bool" where
  "matchesIngressClass ing b = (
     let expected = br_ingressClass b;
         annotated = (case in_Annotations ing of
             Some annotations \<Rightarrow> (case map_of annotations ''kubernetes.io/ingress.class'' of Some v \<Rightarrow> v | None \<Rightarrow> []) = expected
           | None \<Rightarrow> False) in
     if expected = [] then False
     else case in_IngressClassName ing of
       Some c \<Rightarrow> if c \<noteq> [] then c = expected else annotated
     | None \<Rightarrow> annotated)"

definition resolveIngressBackendServiceAddressLocked :: "string \<Rightarrow> string \<Rightarrow> K8sBridge \<Rightarrow> string option" where
  "resolveIngressBackendServiceAddressLocked namespace name b = (case map_of (br_services b) (namespace @ ''/'' @ name) of
      None \<Rightarrow> None
    | Some svc \<Rightarrow> if sv_Type svc \<noteq> ''ExternalName'' then None
        else let address = normalizeHost (sv_ExternalName svc) in if address = [] then None else Some address)"

definition ingress_path_route :: "(ingress_path \<Rightarrow> string) \<Rightarrow> K8sBridge \<Rightarrow> Ingress \<Rightarrow> string \<Rightarrow> nat \<Rightarrow> ingress_path \<Rightarrow> k8sMaterializedRoute option" where
  "ingress_path_route marshal b ing host idx path = (case ip_Service path of
      None \<Rightarrow> None
    | Some (service, portNumber, portName) \<Rightarrow>
        (let servicePort0 = (if 0 < sint portNumber then portNumber else 80);
             servicePort = (if portName \<noteq> [] \<and> servicePort0 = 0 then 80 else servicePort0);
             serviceAddress = (case resolveIngressBackendServiceAddressLocked (in_Namespace ing) service b of
               Some resolved \<Rightarrow> resolved | None \<Rightarrow> buildServiceAddress service (in_Namespace ing));
             bindingID = ''k8s:ingress:'' @ in_Namespace ing @ '':'' @ in_Name ing @ '':'' @ host @ '':'' @ FormatNat idx;
             routeVersion = (if in_Generation ing = 0 then 1 else in_Generation ing);
             pathKind = (if ip_PathType path = Some ''Exact'' then k8sRoutePathExact else k8sRoutePathPrefix);
             normalizedPath = normalizeIngressPath (ip_Path path);
             routeJSON = marshal path in
         Some \<lparr>mr_kind = RouteKindHTTP,
           mr_binding = \<lparr>bb_ID = bindingID, bb_Hostname = host, bb_ServiceID = in_Namespace ing @ ''/'' @ service, bb_Namespace = in_Namespace ing,
             bb_Name = service, bb_Address = serviceAddress, bb_Port = servicePort, bb_Protocol = RouteKindHTTP, bb_RouteVersion = routeVersion,
             bb_Path = normalizedPath, bb_Priority = 0, bb_BackendJSON = routeJSON, bb_BackendRef = None, bb_DomainEntryID = []\<rparr>,
           mr_route = \<lparr>rt_Hostname = host, rt_RouteVersion = routeVersion, rt_Protocol = RouteKindHTTP, rt_RouteJSON = routeJSON, rt_BindingID = bindingID\<rparr>,
           mr_hostname = host, mr_port = 80, mr_path = normalizedPath, mr_pathKind = pathKind, mr_listener = [], mr_routeOrder = 0\<rparr>))"

definition ingress_rule_routes :: "(ingress_path \<Rightarrow> string) \<Rightarrow> K8sBridge \<Rightarrow> Ingress \<Rightarrow> ingress_rule \<Rightarrow> k8sMaterializedRoute list" where
  "ingress_rule_routes marshal b ing rule = (
     let host = normalizeHost (ir_Host rule) in
     if host = [] \<or> ir_HTTP rule = None then []
     else List.map_filter (\<lambda>(idx, path). ingress_path_route marshal b ing host idx path) (List.enumerate 0 (the (ir_HTTP rule))))"

text \<open>Appending a route to the table of its kind.\<close>

definition emit_route :: "k8sMaterializedRoute \<Rightarrow> K8sBridge \<Rightarrow> K8sBridge" where
  "emit_route r b = (
     if mr_kind r = RouteKindHTTP then b\<lparr>httpResolved := bucket_add (mr_hostname r) r (httpResolved b)\<rparr>
     else if mr_kind r = RouteKindHTTPS then b\<lparr>httpsResolved := bucket_add (mr_hostname r) r (httpsResolved b)\<rparr>
     else if mr_kind r = RouteKindGRPC then b\<lparr>grpcResolved := bucket_add (mr_hostname r) r (grpcResolved b)\<rparr>
     else if mr_kind r = RouteKindTLSTerminate \<or> mr_kind r = RouteKindTLSPassthrough then
       (if mr_hostname r \<noteq> [] then b\<lparr>tlsResolved := bucket_add (mr_hostname r) r (tlsResolved b)\<rparr> else b)
     else if mr_kind r = RouteKindTCP then b\<lparr>tcpResolved := bucket_add (mr_port r) r (tcpResolved b)\<rparr>
     else if mr_kind r = RouteKindUDP then b\<lparr>udpResolved := bucket_add (mr_port r) r (udpResolved b)\<rparr>
     else b)"

definition rebuildIngressRoutesLocked :: "(ingress_path \<Rightarrow> string) \<Rightarrow> K8sBridge \<Rightarrow> K8sBridge" where
  "rebuildIngressRoutesLocked marshal b = fold (\<lambda>ing b. fold (\<lambda>rule b. fold emit_route (ingress_rule_routes marshal b ing rule) b) (in_Rules ing) b)
     (map snd (br_ingresses b)) b"

section \<open>Routes of Gateway API objects\<close>

definition backendProtocolForRouteKind :: "RouteKind \<Rightarrow> RouteKind" where
  "backendProtocolForRouteKind kind = (if kind = RouteKindHTTPS then RouteKindHTTP else kind)"

definition listenerAllowsKind :: "k8sGatewayListenerState \<Rightarrow> RouteKind \<Rightarrow> bool" where
  "listenerAllowsKind listener kind = (
     if kind = RouteKindHTTP then gl_routeKind listener = RouteKindHTTP
     else if kind = RouteKindHTTPS then gl_routeKind listener = RouteKindHTTPS
     else if kind = RouteKindGRPC then gl_routeKind listener = RouteKindGRPC \<or> gl_routeKind listener = RouteKindHTTP
     else if kind = RouteKindTLSTerminate \<or> kind = RouteKindTLSPassthrough then gl_routeKind listener = RouteKindTLSTerminate
     else if kind = RouteKindTCP then gl_routeKind listener = RouteKindTCP
     else if kind = RouteKindUDP then gl_routeKind listener = RouteKindUDP
     else False)"

definition effectiveHosts :: "string list \<Rightarrow> string \<Rightarrow> string list" where
  "effectiveHosts routeHosts listenerHost = (
     if routeHosts \<noteq> [] then filter (\<lambda>h. h \<noteq> []) (map normalizeHost routeHosts)
     else if normalizeHost listenerHost \<noteq> [] then [normalizeHost listenerHost]
     else [])"

text \<open>The JSON text of the rules and backends of the model is \<^verbatim>\<open>{}\<close>: their structs have no exported field.\<close>

definition newMaterializedRoute :: "RouteKind \<Rightarrow> string \<Rightarrow> string \<Rightarrow> string \<Rightarrow> 32 word \<Rightarrow> k8sBackendRef \<Rightarrow> string \<Rightarrow> nat \<Rightarrow> k8sMaterializedRoute" where
  "newMaterializedRoute kind namespace routeName host port backend raw order = (
     let bindingID = ''k8s:'' @ kind @ '':'' @ namespace @ '':'' @ routeName @ '':'' @ be_name backend @ '':'' @ FormatNat order in
     \<lparr>mr_kind = kind,
      mr_binding = \<lparr>bb_ID = bindingID, bb_Hostname = host, bb_ServiceID = be_namespace backend @ ''/'' @ be_name backend, bb_Namespace = be_namespace backend,
        bb_Name = be_name backend, bb_Address = buildServiceAddress (be_name backend) (be_namespace backend), bb_Port = be_port backend,
        bb_Protocol = backendProtocolForRouteKind kind, bb_RouteVersion = 1, bb_Path = [], bb_Priority = 0, bb_BackendJSON = raw,
        bb_BackendRef = None, bb_DomainEntryID = []\<rparr>,
      mr_route = \<lparr>rt_Hostname = host, rt_RouteVersion = 1, rt_Protocol = kind, rt_RouteJSON = raw, rt_BindingID = bindingID\<rparr>,
      mr_hostname = host, mr_port = port, mr_path = ''/'', mr_pathKind = k8sRoutePathPrefix, mr_listener = [], mr_routeOrder = order\<rparr>)"

text \<open>The listeners that the parent references of a route select.\<close>

definition parent_listeners :: "k8sParentRef list \<Rightarrow> K8sBridge \<Rightarrow> k8sGatewayListenerState list" where
  "parent_listeners parentRefs b = concat (map (\<lambda>p. case map_of (br_gateways b) (pr_gatewayKey p) of
      None \<Rightarrow> []
    | Some gateway \<Rightarrow> filter (\<lambda>l. \<not> (pr_sectionName p \<noteq> [] \<and> gl_name l \<noteq> pr_sectionName p)) (map snd (gs_listeners gateway))) parentRefs)"

definition rule_route :: "RouteKind \<Rightarrow> string \<Rightarrow> string \<Rightarrow> k8sGatewayListenerState \<Rightarrow> string \<Rightarrow> nat \<Rightarrow> k8sHTTPRouteRuleState \<Rightarrow> k8sMaterializedRoute" where
  "rule_route kind namespace routeName listener host idx rule =
     (newMaterializedRoute kind namespace routeName host (gl_port listener) (rs_backend rule) ''{}'' idx)
       \<lparr>mr_path := rs_path rule, mr_pathKind := rs_pathKind rule, mr_listener := gl_name listener\<rparr>"

definition family_routes :: "(k8sGatewayListenerState \<Rightarrow> RouteKind) \<Rightarrow> k8sHTTPRouteState \<Rightarrow> k8sGatewayListenerState list \<Rightarrow> k8sMaterializedRoute list" where
  "family_routes kindOf route listeners = concat (map (\<lambda>listener. concat (map (\<lambda>host.
     map (\<lambda>(idx, rule). rule_route (kindOf listener) (hr_namespace route) (hr_name route) listener host idx rule) (List.enumerate 0 (hr_rules route)))
       (effectiveHosts (hr_hostnames route) (gl_hostname listener)))) listeners)"

definition materializeHTTPFamilyLocked :: "k8sHTTPRouteState \<Rightarrow> K8sBridge \<Rightarrow> K8sBridge" where
  "materializeHTTPFamilyLocked route b = fold emit_route (family_routes gl_routeKind route
     (filter (\<lambda>l. gl_routeKind l = RouteKindHTTP \<or> gl_routeKind l = RouteKindHTTPS) (parent_listeners (hr_parentRefs route) b))) b"

definition materializeGRPCFamilyLocked :: "k8sHTTPRouteState \<Rightarrow> K8sBridge \<Rightarrow> K8sBridge" where
  "materializeGRPCFamilyLocked route b = fold emit_route (family_routes (\<lambda>_. RouteKindGRPC) route
     (filter (\<lambda>l. listenerAllowsKind l RouteKindGRPC) (parent_listeners (hr_parentRefs route) b))) b"

definition l4_route :: "RouteKind \<Rightarrow> k8sL4RouteState \<Rightarrow> k8sGatewayListenerState \<Rightarrow> string \<Rightarrow> k8sMaterializedRoute" where
  "l4_route kind route listener host = (
     let materialized = (newMaterializedRoute kind (l4_namespace route) (l4_name route) host (gl_port listener) (l4_backend route) ''{}'' 0)
           \<lparr>mr_listener := gl_name listener\<rparr> in
     if kind = RouteKindTLSTerminate \<and> EqualFold (gl_tlsMode listener) ''Passthrough'' then materialized\<lparr>mr_kind := RouteKindTLSPassthrough\<rparr>
     else materialized)"

definition l4_routes :: "RouteKind \<Rightarrow> k8sL4RouteState \<Rightarrow> k8sGatewayListenerState list \<Rightarrow> k8sMaterializedRoute list" where
  "l4_routes kind route listeners = concat (map (\<lambda>listener.
     let hosts0 = effectiveHosts (l4_hostnames route) (gl_hostname listener); hosts = (if hosts0 = [] then [gl_hostname listener] else hosts0) in
     map (l4_route kind route listener) hosts) listeners)"

definition materializeL4Locked :: "RouteKind \<Rightarrow> k8sL4RouteState \<Rightarrow> K8sBridge \<Rightarrow> K8sBridge" where
  "materializeL4Locked kind route b = fold emit_route (l4_routes kind route
     (filter (\<lambda>l. listenerAllowsKind l kind) (parent_listeners (l4_parentRefs route) b))) b"

definition rebuildGatewayRoutesLocked :: "K8sBridge \<Rightarrow> K8sBridge" where
  "rebuildGatewayRoutesLocked b0 = (
     let b1 = fold materializeHTTPFamilyLocked (map snd (br_httpRoutes b0)) b0;
         b2 = fold materializeGRPCFamilyLocked (map snd (br_grpcRoutes b1)) b1;
         b3 = fold (materializeL4Locked RouteKindTLSTerminate) (map snd (br_tlsRoutes b2)) b2;
         b4 = fold (materializeL4Locked RouteKindTCP) (map snd (br_tcpRoutes b3)) b3 in
     fold (materializeL4Locked RouteKindUDP) (map snd (br_udpRoutes b4)) b4)"

definition rebuildRoutesLocked :: "(ingress_path \<Rightarrow> string) \<Rightarrow> K8sBridge \<Rightarrow> K8sBridge" where
  "rebuildRoutesLocked marshal b = rebuildGatewayRoutesLocked (rebuildIngressRoutesLocked marshal
     (b\<lparr>httpResolved := [], httpsResolved := [], grpcResolved := [], tlsResolved := [], tcpResolved := [], udpResolved := []\<rparr>))"

section \<open>Parsing untyped objects\<close>

definition routeKindFromListener :: "string \<Rightarrow> string \<Rightarrow> string \<Rightarrow> RouteKind" where
  "routeKindFromListener name protocol tlsMode = (
     let n = ToLower (TrimSpace name); p = ToUpper (TrimSpace protocol) in
     if n = ''web'' then RouteKindHTTP
     else if n = ''websecure'' then RouteKindHTTPS
     else if p = ''HTTP'' then RouteKindHTTP
     else if p = ''HTTPS'' then RouteKindHTTPS
     else if p = ''GRPC'' \<or> p = ''HTTPS+GRPC'' then RouteKindGRPC
     else if p = ''TLS'' then RouteKindTLSTerminate
     else if p = ''TCP'' then RouteKindTCP
     else if p = ''UDP'' then RouteKindUDP
     else RouteKindHTTP)"

definition listener_state :: "listener_item \<Rightarrow> k8sGatewayListenerState" where
  "listener_state item = \<lparr>gl_name = li_name item, gl_protocol = ToUpper (TrimSpace (li_protocol item)), gl_hostname = li_hostname item,
     gl_port = ucast (li_port item), gl_tlsMode = TrimSpace (li_tls_mode item),
     gl_routeKind = routeKindFromListener (li_name item) (li_protocol item) (li_tls_mode item)\<rparr>"

fun parse_listeners :: "listener_item option list \<Rightarrow> (string \<times> k8sGatewayListenerState) list \<Rightarrow> (string \<times> k8sGatewayListenerState) list" where
  "parse_listeners [] ls = ls"
| "parse_listeners (None # items) ls = parse_listeners items ls"
| "parse_listeners (Some item # items) ls = parse_listeners items
     (if li_name item = [] then ls else AList.update (li_name item) (listener_state item) ls)"

definition parseGatewayState :: "gateway_object option \<Rightarrow> k8sGatewayState option" where
  "parseGatewayState obj = (case obj of None \<Rightarrow> None
    | Some o' \<Rightarrow> Some \<lparr>gs_name = go_Name o', gs_namespace = go_Namespace o', gs_listeners = parse_listeners (go_listeners o') []\<rparr>)"

definition parseParentRefs :: "route_object \<Rightarrow> k8sParentRef list" where
  "parseParentRefs obj = List.map_filter (\<lambda>raw. case raw of
      None \<Rightarrow> None
    | Some item \<Rightarrow> if rf_name item = [] then None
        else let namespace = (if rf_namespace item = [] then ro_Namespace obj else rf_namespace item) in
          Some \<lparr>pr_gatewayKey = namespace @ ''/'' @ rf_name item, pr_sectionName = rf_sectionName item\<rparr>) (ro_parentRefs obj)"

fun parseFirstBackendRef :: "ref_item option list \<Rightarrow> string \<Rightarrow> k8sBackendRef option" where
  "parseFirstBackendRef [] defaultNamespace = None"
| "parseFirstBackendRef (None # refs) defaultNamespace = parseFirstBackendRef refs defaultNamespace"
| "parseFirstBackendRef (Some item # refs) defaultNamespace = (
     if rf_name item = [] then parseFirstBackendRef refs defaultNamespace
     else let namespace = (if rf_namespace item = [] then defaultNamespace else rf_namespace item); port = (ucast (rf_port item) :: 32 word) in
       Some \<lparr>be_namespace = namespace, be_name = rf_name item, be_port = (if port = 0 then 80 else port)\<rparr>)"

definition rule_match :: "rule_item \<Rightarrow> string \<times> k8sRoutePathKind" where
  "rule_match item = (case ru_matches item of
      Some m # _ \<Rightarrow>
        (case ma_path_value m of Some v \<Rightarrow> if v \<noteq> [] then normalizeIngressPath v else ''/'' | None \<Rightarrow> ''/'',
         case ma_path_type m of Some t \<Rightarrow> if EqualFold t ''Exact'' then k8sRoutePathExact else k8sRoutePathPrefix | None \<Rightarrow> k8sRoutePathPrefix)
    | _ \<Rightarrow> (''/'', k8sRoutePathPrefix))"

definition parse_rules :: "string \<Rightarrow> rule_item option list \<Rightarrow> k8sHTTPRouteRuleState list" where
  "parse_rules namespace items = List.map_filter (\<lambda>raw. case raw of
      None \<Rightarrow> None
    | Some item \<Rightarrow> (case parseFirstBackendRef (ru_backendRefs item) namespace of
        None \<Rightarrow> None
      | Some backend \<Rightarrow> Some \<lparr>rs_path = fst (rule_match item), rs_pathKind = snd (rule_match item), rs_backend = backend\<rparr>)) items"

definition parseHTTPRouteState :: "route_object option \<Rightarrow> k8sHTTPRouteState option" where
  "parseHTTPRouteState obj = (case obj of None \<Rightarrow> None
    | Some o' \<Rightarrow> Some \<lparr>hr_name = ro_Name o', hr_namespace = ro_Namespace o', hr_hostnames = ro_hostnames o', hr_parentRefs = parseParentRefs o',
        hr_rules = parse_rules (ro_Namespace o') (ro_rules o')\<rparr>)"

fun first_rule_backend :: "string \<Rightarrow> rule_item option list \<Rightarrow> k8sBackendRef option" where
  "first_rule_backend namespace [] = None"
| "first_rule_backend namespace (None # items) = first_rule_backend namespace items"
| "first_rule_backend namespace (Some item # items) = (case parseFirstBackendRef (ru_backendRefs item) namespace of
      Some backend \<Rightarrow> Some backend | None \<Rightarrow> first_rule_backend namespace items)"

definition parseL4RouteState :: "route_object option \<Rightarrow> k8sL4RouteState option" where
  "parseL4RouteState obj = (case obj of None \<Rightarrow> None
    | Some o' \<Rightarrow> (case first_rule_backend (ro_Namespace o') (ro_rules o') of
        None \<Rightarrow> None
      | Some backend \<Rightarrow> if be_name backend = [] then None
          else Some \<lparr>l4_name = ro_Name o', l4_namespace = ro_Namespace o', l4_hostnames = ro_hostnames o', l4_parentRefs = parseParentRefs o',
            l4_backend = backend\<rparr>))"

section \<open>Events\<close>

datatype deleted_object =
    DeletedMeta string string
  | DeletedUnknown "(string \<times> string) option"   \<comment> \<open>\<^verbatim>\<open>DeletedFinalStateUnknown\<close> with the name of the object, if it has one\<close>
  | DeletedOther

definition ingress_deleteByNamespaceName :: "deleted_object \<Rightarrow> (string \<times> string) option" where
  "ingress_deleteByNamespaceName obj = (case obj of DeletedMeta namespace name \<Rightarrow> Some (namespace, name) | DeletedUnknown n \<Rightarrow> n | DeletedOther \<Rightarrow> None)"

definition on_deleted :: "deleted_object \<Rightarrow> (string \<Rightarrow> K8sBridge \<Rightarrow> K8sBridge) \<Rightarrow> K8sBridge \<Rightarrow> K8sBridge" where
  "on_deleted obj f b = (case ingress_deleteByNamespaceName obj of Some (namespace, name) \<Rightarrow> f (namespace @ ''/'' @ name) b | None \<Rightarrow> b)"

definition storeIngress :: "(ingress_path \<Rightarrow> string) \<Rightarrow> Ingress option \<Rightarrow> K8sBridge \<Rightarrow> K8sBridge" where
  "storeIngress marshal obj b = (case obj of None \<Rightarrow> b
    | Some ing \<Rightarrow> (let key = in_Namespace ing @ ''/'' @ in_Name ing in
        if \<not> matchesIngressClass ing b then rebuildRoutesLocked marshal (b\<lparr>br_ingresses := AList.delete key (br_ingresses b)\<rparr>)
        else rebuildRoutesLocked marshal (b\<lparr>br_ingresses := AList.update key ing (br_ingresses b)\<rparr>)))"

definition storeService :: "(ingress_path \<Rightarrow> string) \<Rightarrow> Service option \<Rightarrow> K8sBridge \<Rightarrow> K8sBridge" where
  "storeService marshal obj b = (case obj of None \<Rightarrow> b
    | Some svc \<Rightarrow> rebuildRoutesLocked marshal (b\<lparr>br_services := AList.update (sv_Namespace svc @ ''/'' @ sv_Name svc) svc (br_services b)\<rparr>))"

definition deleteIngress :: "(ingress_path \<Rightarrow> string) \<Rightarrow> deleted_object \<Rightarrow> K8sBridge \<Rightarrow> K8sBridge" where
  "deleteIngress marshal obj b = on_deleted obj (\<lambda>key b. rebuildRoutesLocked marshal (b\<lparr>br_ingresses := AList.delete key (br_ingresses b)\<rparr>)) b"

definition deleteService :: "(ingress_path \<Rightarrow> string) \<Rightarrow> deleted_object \<Rightarrow> K8sBridge \<Rightarrow> K8sBridge" where
  "deleteService marshal obj b = on_deleted obj (\<lambda>key b. rebuildRoutesLocked marshal (b\<lparr>br_services := AList.delete key (br_services b)\<rparr>)) b"

definition storeGatewayUnstructured :: "(ingress_path \<Rightarrow> string) \<Rightarrow> gateway_object option \<Rightarrow> K8sBridge \<Rightarrow> K8sBridge" where
  "storeGatewayUnstructured marshal obj b = (case parseGatewayState obj of None \<Rightarrow> b
    | Some state \<Rightarrow> rebuildRoutesLocked marshal (b\<lparr>br_gateways := AList.update (gs_namespace state @ ''/'' @ gs_name state) state (br_gateways b)\<rparr>))"

definition storeHTTPRouteUnstructured :: "(ingress_path \<Rightarrow> string) \<Rightarrow> route_object option \<Rightarrow> K8sBridge \<Rightarrow> K8sBridge" where
  "storeHTTPRouteUnstructured marshal obj b = (case parseHTTPRouteState obj of None \<Rightarrow> b
    | Some state \<Rightarrow> rebuildRoutesLocked marshal (b\<lparr>br_httpRoutes := AList.update (hr_namespace state @ ''/'' @ hr_name state) state (br_httpRoutes b)\<rparr>))"

definition storeGRPCRouteUnstructured :: "(ingress_path \<Rightarrow> string) \<Rightarrow> route_object option \<Rightarrow> K8sBridge \<Rightarrow> K8sBridge" where
  "storeGRPCRouteUnstructured marshal obj b = (case parseHTTPRouteState obj of None \<Rightarrow> b
    | Some state \<Rightarrow> rebuildRoutesLocked marshal (b\<lparr>br_grpcRoutes := AList.update (hr_namespace state @ ''/'' @ hr_name state) state (br_grpcRoutes b)\<rparr>))"

definition storeTLSRouteUnstructured :: "(ingress_path \<Rightarrow> string) \<Rightarrow> route_object option \<Rightarrow> K8sBridge \<Rightarrow> K8sBridge" where
  "storeTLSRouteUnstructured marshal obj b = (case parseL4RouteState obj of None \<Rightarrow> b
    | Some state \<Rightarrow> rebuildRoutesLocked marshal (b\<lparr>br_tlsRoutes := AList.update (l4_namespace state @ ''/'' @ l4_name state) state (br_tlsRoutes b)\<rparr>))"

definition storeTCPRouteUnstructured :: "(ingress_path \<Rightarrow> string) \<Rightarrow> route_object option \<Rightarrow> K8sBridge \<Rightarrow> K8sBridge" where
  "storeTCPRouteUnstructured marshal obj b = (case parseL4RouteState obj of None \<Rightarrow> b
    | Some state \<Rightarrow> rebuildRoutesLocked marshal (b\<lparr>br_tcpRoutes := AList.update (l4_namespace state @ ''/'' @ l4_name state) state (br_tcpRoutes b)\<rparr>))"

definition storeUDPRouteUnstructured :: "(ingress_path \<Rightarrow> string) \<Rightarrow> route_object option \<Rightarrow> K8sBridge \<Rightarrow> K8sBridge" where
  "storeUDPRouteUnstructured marshal obj b = (case parseL4RouteState obj of None \<Rightarrow> b
    | Some state \<Rightarrow> rebuildRoutesLocked marshal (b\<lparr>br_udpRoutes := AList.update (l4_namespace state @ ''/'' @ l4_name state) state (br_udpRoutes b)\<rparr>))"

definition deleteGatewayKey :: "(ingress_path \<Rightarrow> string) \<Rightarrow> deleted_object \<Rightarrow> K8sBridge \<Rightarrow> K8sBridge" where
  "deleteGatewayKey marshal obj b = on_deleted obj (\<lambda>key b. rebuildRoutesLocked marshal (b\<lparr>br_gateways := AList.delete key (br_gateways b)\<rparr>)) b"

definition deleteRouteKey :: "(ingress_path \<Rightarrow> string) \<Rightarrow> deleted_object \<Rightarrow> (string \<Rightarrow> K8sBridge \<Rightarrow> K8sBridge) \<Rightarrow> K8sBridge \<Rightarrow> K8sBridge" where
  "deleteRouteKey marshal obj deleter b = on_deleted obj (\<lambda>key b. rebuildRoutesLocked marshal (deleter key b)) b"

definition deleteHTTPRoute :: "(ingress_path \<Rightarrow> string) \<Rightarrow> deleted_object \<Rightarrow> K8sBridge \<Rightarrow> K8sBridge" where
  "deleteHTTPRoute marshal obj b = deleteRouteKey marshal obj (\<lambda>key b. b\<lparr>br_httpRoutes := AList.delete key (br_httpRoutes b)\<rparr>) b"

definition deleteGRPCRoute :: "(ingress_path \<Rightarrow> string) \<Rightarrow> deleted_object \<Rightarrow> K8sBridge \<Rightarrow> K8sBridge" where
  "deleteGRPCRoute marshal obj b = deleteRouteKey marshal obj (\<lambda>key b. b\<lparr>br_grpcRoutes := AList.delete key (br_grpcRoutes b)\<rparr>) b"

definition deleteTLSRoute :: "(ingress_path \<Rightarrow> string) \<Rightarrow> deleted_object \<Rightarrow> K8sBridge \<Rightarrow> K8sBridge" where
  "deleteTLSRoute marshal obj b = deleteRouteKey marshal obj (\<lambda>key b. b\<lparr>br_tlsRoutes := AList.delete key (br_tlsRoutes b)\<rparr>) b"

definition deleteTCPRoute :: "(ingress_path \<Rightarrow> string) \<Rightarrow> deleted_object \<Rightarrow> K8sBridge \<Rightarrow> K8sBridge" where
  "deleteTCPRoute marshal obj b = deleteRouteKey marshal obj (\<lambda>key b. b\<lparr>br_tcpRoutes := AList.delete key (br_tcpRoutes b)\<rparr>) b"

definition deleteUDPRoute :: "(ingress_path \<Rightarrow> string) \<Rightarrow> deleted_object \<Rightarrow> K8sBridge \<Rightarrow> K8sBridge" where
  "deleteUDPRoute marshal obj b = deleteRouteKey marshal obj (\<lambda>key b. b\<lparr>br_udpRoutes := AList.delete key (br_udpRoutes b)\<rparr>) b"

section \<open>Creation and initial load\<close>

definition NewK8sBridgeWithClients :: "string \<Rightarrow> string \<Rightarrow> string \<Rightarrow> K8sBridge" where
  "NewK8sBridgeWithClients POD_NAMESPACE namespace0 ingressClass = (
     let namespace1 = (if namespace0 = [] then POD_NAMESPACE else namespace0); namespace = (if namespace1 = [] then ''default'' else namespace1) in
     \<lparr>br_namespace = namespace, br_ingressClass = TrimSpace ingressClass, br_ingresses = [], br_services = [], br_gateways = [], br_httpRoutes = [],
      br_grpcRoutes = [], br_tlsRoutes = [], br_tcpRoutes = [], br_udpRoutes = [], httpResolved = [], httpsResolved = [], grpcResolved = [],
      tlsResolved = [], tcpResolved = [], udpResolved = []\<rparr>)"

text \<open>What the clients list: typed objects, whose failure ends the load, and untyped ones, whose failure does not.
  \<open>cl_typed\<close> tells whether there is a typed client; a missing untyped client lists nothing.\<close>

record cluster =
  cl_typed :: bool
  cl_ingresses :: "Ingress list result"
  cl_services :: "Service list result"
  cl_gateways :: "gateway_object list result"
  cl_httproutes :: "route_object list result"
  cl_grpcroutes :: "route_object list result"
  cl_tlsroutes :: "route_object list result"
  cl_tcproutes :: "route_object list result"
  cl_udproutes :: "route_object list result"

fun load_ingresses :: "Ingress list \<Rightarrow> K8sBridge \<Rightarrow> K8sBridge" where
  "load_ingresses [] b = b"
| "load_ingresses (ing # items) b = load_ingresses items (if \<not> matchesIngressClass ing b then b
     else b\<lparr>br_ingresses := AList.update (in_Namespace ing @ ''/'' @ in_Name ing) ing (br_ingresses b)\<rparr>)"

definition loadInitialIngresses :: "cluster \<Rightarrow> K8sBridge \<Rightarrow> unit result \<times> K8sBridge" where
  "loadInitialIngresses c b = (
     if \<not> cl_typed c then (Inr (), b)
     else case cl_ingresses c of Inl err \<Rightarrow> (Inl (ErrWrap ''list ingresses'' err), b) | Inr items \<Rightarrow> (Inr (), load_ingresses items b))"

definition loadInitialServices :: "cluster \<Rightarrow> K8sBridge \<Rightarrow> unit result \<times> K8sBridge" where
  "loadInitialServices c b = (
     if \<not> cl_typed c then (Inr (), b)
     else case cl_services c of Inl err \<Rightarrow> (Inl (ErrWrap ''list services'' err), b)
       | Inr items \<Rightarrow> (Inr (), fold (\<lambda>svc b. b\<lparr>br_services := AList.update (sv_Namespace svc @ ''/'' @ sv_Name svc) svc (br_services b)\<rparr>) items b))"

definition load_list :: "'o list result \<Rightarrow> ('o option \<Rightarrow> K8sBridge \<Rightarrow> K8sBridge) \<Rightarrow> K8sBridge \<Rightarrow> K8sBridge" where
  "load_list listed store b = (case listed of Inl err \<Rightarrow> b | Inr items \<Rightarrow> fold (\<lambda>obj. store (Some obj)) items b)"

definition loadInitialGateways :: "(ingress_path \<Rightarrow> string) \<Rightarrow> cluster \<Rightarrow> K8sBridge \<Rightarrow> K8sBridge" where
  "loadInitialGateways marshal c b =
     load_list (cl_udproutes c) (storeUDPRouteUnstructured marshal) (load_list (cl_tcproutes c) (storeTCPRouteUnstructured marshal)
       (load_list (cl_tlsroutes c) (storeTLSRouteUnstructured marshal) (load_list (cl_grpcroutes c) (storeGRPCRouteUnstructured marshal)
         (load_list (cl_httproutes c) (storeHTTPRouteUnstructured marshal) (load_list (cl_gateways c) (storeGatewayUnstructured marshal) b)))))"

definition ingress_LoadInitial :: "(ingress_path \<Rightarrow> string) \<Rightarrow> cluster \<Rightarrow> K8sBridge \<Rightarrow> unit result \<times> K8sBridge" where
  "ingress_LoadInitial marshal c b = (case loadInitialIngresses c b of
      (Inl err, b1) \<Rightarrow> (Inl err, b1)
    | (Inr _, b1) \<Rightarrow> (case loadInitialServices c b1 of
        (Inl err, b2) \<Rightarrow> (Inl err, b2)
      | (Inr _, b2) \<Rightarrow> (Inr (), rebuildRoutesLocked marshal (loadInitialGateways marshal c b2))))"

definition ListIngresses :: "K8sBridge \<Rightarrow> Ingress list" where
  "ListIngresses b = map snd (br_ingresses b)"

section \<open>Histories and specification\<close>

datatype bridge_event =
    EvIngress "Ingress option"
  | EvIngressDeleted deleted_object
  | EvService "Service option"
  | EvServiceDeleted deleted_object
  | EvGateway "gateway_object option"
  | EvGatewayDeleted deleted_object
  | EvHTTPRoute "route_object option"
  | EvHTTPRouteDeleted deleted_object
  | EvGRPCRoute "route_object option"
  | EvGRPCRouteDeleted deleted_object
  | EvTLSRoute "route_object option"
  | EvTLSRouteDeleted deleted_object
  | EvTCPRoute "route_object option"
  | EvTCPRouteDeleted deleted_object
  | EvUDPRoute "route_object option"
  | EvUDPRouteDeleted deleted_object

fun handle_event :: "(ingress_path \<Rightarrow> string) \<Rightarrow> bridge_event \<Rightarrow> K8sBridge \<Rightarrow> K8sBridge" where
  "handle_event marshal (EvIngress obj) b = storeIngress marshal obj b"
| "handle_event marshal (EvIngressDeleted obj) b = deleteIngress marshal obj b"
| "handle_event marshal (EvService obj) b = storeService marshal obj b"
| "handle_event marshal (EvServiceDeleted obj) b = deleteService marshal obj b"
| "handle_event marshal (EvGateway obj) b = storeGatewayUnstructured marshal obj b"
| "handle_event marshal (EvGatewayDeleted obj) b = deleteGatewayKey marshal obj b"
| "handle_event marshal (EvHTTPRoute obj) b = storeHTTPRouteUnstructured marshal obj b"
| "handle_event marshal (EvHTTPRouteDeleted obj) b = deleteHTTPRoute marshal obj b"
| "handle_event marshal (EvGRPCRoute obj) b = storeGRPCRouteUnstructured marshal obj b"
| "handle_event marshal (EvGRPCRouteDeleted obj) b = deleteGRPCRoute marshal obj b"
| "handle_event marshal (EvTLSRoute obj) b = storeTLSRouteUnstructured marshal obj b"
| "handle_event marshal (EvTLSRouteDeleted obj) b = deleteTLSRoute marshal obj b"
| "handle_event marshal (EvTCPRoute obj) b = storeTCPRouteUnstructured marshal obj b"
| "handle_event marshal (EvTCPRouteDeleted obj) b = deleteTCPRoute marshal obj b"
| "handle_event marshal (EvUDPRoute obj) b = storeUDPRouteUnstructured marshal obj b"
| "handle_event marshal (EvUDPRouteDeleted obj) b = deleteUDPRoute marshal obj b"

text \<open>The routes that the stored objects declare, whatever the tables hold.\<close>

definition ingress_routes :: "(ingress_path \<Rightarrow> string) \<Rightarrow> K8sBridge \<Rightarrow> k8sMaterializedRoute list" where
  "ingress_routes marshal b = concat (map (\<lambda>ing. concat (map (ingress_rule_routes marshal b ing) (in_Rules ing))) (map snd (br_ingresses b)))"

definition http_family :: "k8sHTTPRouteState \<Rightarrow> K8sBridge \<Rightarrow> k8sMaterializedRoute list" where
  "http_family route b = family_routes gl_routeKind route
     (filter (\<lambda>l. gl_routeKind l = RouteKindHTTP \<or> gl_routeKind l = RouteKindHTTPS) (parent_listeners (hr_parentRefs route) b))"

definition grpc_family :: "k8sHTTPRouteState \<Rightarrow> K8sBridge \<Rightarrow> k8sMaterializedRoute list" where
  "grpc_family route b = family_routes (\<lambda>_. RouteKindGRPC) route (filter (\<lambda>l. listenerAllowsKind l RouteKindGRPC) (parent_listeners (hr_parentRefs route) b))"

definition l4_family :: "RouteKind \<Rightarrow> k8sL4RouteState \<Rightarrow> K8sBridge \<Rightarrow> k8sMaterializedRoute list" where
  "l4_family kind route b = l4_routes kind route (filter (\<lambda>l. listenerAllowsKind l kind) (parent_listeners (l4_parentRefs route) b))"

definition declared_routes :: "(ingress_path \<Rightarrow> string) \<Rightarrow> K8sBridge \<Rightarrow> k8sMaterializedRoute list" where
  "declared_routes marshal b = ingress_routes marshal b @ concat (map (\<lambda>r. http_family r b) (map snd (br_httpRoutes b))) @
     concat (map (\<lambda>r. grpc_family r b) (map snd (br_grpcRoutes b))) @ concat (map (\<lambda>r. l4_family RouteKindTLSTerminate r b) (map snd (br_tlsRoutes b))) @
     concat (map (\<lambda>r. l4_family RouteKindTCP r b) (map snd (br_tcpRoutes b))) @ concat (map (\<lambda>r. l4_family RouteKindUDP r b) (map snd (br_udpRoutes b)))"

text \<open>The declared routes of a kind for a host that match a path, and the order among them: exact before prefix,
  longer paths first, then the position of the rule and the binding.\<close>

definition candidates :: "(ingress_path \<Rightarrow> string) \<Rightarrow> K8sBridge \<Rightarrow> RouteKind \<Rightarrow> string \<Rightarrow> string \<Rightarrow> k8sMaterializedRoute list" where
  "candidates marshal b kind host path = filter (\<lambda>r. mr_kind r = kind \<and> mr_hostname r = host \<and> k8sPathMatches (mr_pathKind r) (mr_path r) path)
     (declared_routes marshal b)"

definition route_rank :: "k8sMaterializedRoute \<Rightarrow> nat \<times> nat \<times> int \<times> string" where
  "route_rank r = (if mr_pathKind r = k8sRoutePathExact then 1 else 0, length (mr_path r), - int (mr_routeOrder r), bb_ID (mr_binding r))"

text \<open>The version of an Ingress that counts after an event: the last one stored, if it is of the class of the bridge.\<close>

fun ingress_after :: "K8sBridge \<Rightarrow> string \<Rightarrow> bridge_event \<Rightarrow> Ingress option \<Rightarrow> Ingress option" where
  "ingress_after b key (EvIngress (Some ing)) current = (if in_Namespace ing @ ''/'' @ in_Name ing = key
     then (if matchesIngressClass ing b then Some ing else None) else current)"
| "ingress_after b key (EvIngressDeleted obj) current = (case ingress_deleteByNamespaceName obj of
      Some (namespace, name) \<Rightarrow> if namespace @ ''/'' @ name = key then None else current | None \<Rightarrow> current)"
| "ingress_after b key _ current = current"

definition cleared :: "K8sBridge \<Rightarrow> K8sBridge" where
  "cleared b = b\<lparr>httpResolved := [], httpsResolved := [], grpcResolved := [], tlsResolved := [], tcpResolved := [], udpResolved := []\<rparr>"

definition tables_current :: "(ingress_path \<Rightarrow> string) \<Rightarrow> K8sBridge \<Rightarrow> bool" where
  "tables_current marshal b = (b = fold emit_route (declared_routes marshal b) (cleared b))"

section \<open>Selecting the best candidate\<close>

text \<open>A preference given by a rank: the loop returns the first candidate of the highest rank.\<close>

locale ranked_choice =
  fixes better :: "'a \<Rightarrow> 'a \<Rightarrow> bool" and rank :: "'a \<Rightarrow> 'r::linorder"
  assumes better_rank: "better c s \<longleftrightarrow> rank s < rank c"
begin

lemma pick_Some:
  "\<exists>r. pick better (Some s) cs = Some r \<and> (r = s \<and> (\<forall>c \<in> set cs. rank c \<le> rank s) \<or>
     (\<exists>xs ys. cs = xs @ r # ys \<and> rank s < rank r \<and> (\<forall>x \<in> set xs. rank x < rank r) \<and> (\<forall>y \<in> set ys. rank y \<le> rank r)))"
proof (induction cs arbitrary: s)
  case (Cons c cs)
  show ?case
  proof (cases "better c s")
    case True
    obtain r where r: "pick better (Some c) cs = Some r" "r = c \<and> (\<forall>d \<in> set cs. rank d \<le> rank c) \<or>
       (\<exists>xs ys. cs = xs @ r # ys \<and> rank c < rank r \<and> (\<forall>x \<in> set xs. rank x < rank r) \<and> (\<forall>y \<in> set ys. rank y \<le> rank r))"
      using Cons.IH [of c] by blast
    have sc: "rank s < rank c" using True by (simp add: better_rank)
    have "\<exists>xs ys. c # cs = xs @ r # ys \<and> rank s < rank r \<and> (\<forall>x \<in> set xs. rank x < rank r) \<and> (\<forall>y \<in> set ys. rank y \<le> rank r)"
      using r(2)
    proof
      assume "r = c \<and> (\<forall>d \<in> set cs. rank d \<le> rank c)"
      then show ?thesis using sc by (intro exI [of _ "[]"] exI [of _ cs]) simp
    next
      assume "\<exists>xs ys. cs = xs @ r # ys \<and> rank c < rank r \<and> (\<forall>x \<in> set xs. rank x < rank r) \<and> (\<forall>y \<in> set ys. rank y \<le> rank r)"
      then obtain xs ys where "cs = xs @ r # ys" "rank c < rank r" "\<forall>x \<in> set xs. rank x < rank r" "\<forall>y \<in> set ys. rank y \<le> rank r" by blast
      then show ?thesis using sc by (intro exI [of _ "c # xs"] exI [of _ ys]) (simp add: less_trans [OF sc])
    qed
    then show ?thesis using r(1) True by auto
  next
    case False
    obtain r where r: "pick better (Some s) cs = Some r" "r = s \<and> (\<forall>d \<in> set cs. rank d \<le> rank s) \<or>
       (\<exists>xs ys. cs = xs @ r # ys \<and> rank s < rank r \<and> (\<forall>x \<in> set xs. rank x < rank r) \<and> (\<forall>y \<in> set ys. rank y \<le> rank r))"
      using Cons.IH [of s] by blast
    have cs: "rank c \<le> rank s" using False by (simp add: better_rank not_less)
    from r(2) have "r = s \<and> (\<forall>d \<in> set (c # cs). rank d \<le> rank s) \<or>
       (\<exists>xs ys. c # cs = xs @ r # ys \<and> rank s < rank r \<and> (\<forall>x \<in> set xs. rank x < rank r) \<and> (\<forall>y \<in> set ys. rank y \<le> rank r))"
    proof
      assume "r = s \<and> (\<forall>d \<in> set cs. rank d \<le> rank s)"
      then show ?thesis using cs by simp
    next
      assume "\<exists>xs ys. cs = xs @ r # ys \<and> rank s < rank r \<and> (\<forall>x \<in> set xs. rank x < rank r) \<and> (\<forall>y \<in> set ys. rank y \<le> rank r)"
      then obtain xs ys where "cs = xs @ r # ys" "rank s < rank r" "\<forall>x \<in> set xs. rank x < rank r" "\<forall>y \<in> set ys. rank y \<le> rank r" by blast
      then show ?thesis using cs by (intro disjI2 exI [of _ "c # xs"] exI [of _ ys]) (simp add: le_less_trans [OF cs])
    qed
    then show ?thesis using r(1) False by simp
  qed
qed simp

lemma pick_None: "pick better None cs = None \<longleftrightarrow> cs = []"
  using pick_Some [of "hd cs" "tl cs"] by (cases cs) auto

lemma pick_first_best:
  assumes "pick better None cs = Some r"
  obtains xs ys where "cs = xs @ r # ys" "\<forall>x \<in> set xs. rank x < rank r" "\<forall>y \<in> set ys. rank y \<le> rank r"
proof (cases cs)
  case (Cons c ds)
  then have "pick better (Some c) ds = Some r" using assms by simp
  with pick_Some [of c ds] have "r = c \<and> (\<forall>d \<in> set ds. rank d \<le> rank c) \<or>
     (\<exists>xs ys. ds = xs @ r # ys \<and> rank c < rank r \<and> (\<forall>x \<in> set xs. rank x < rank r) \<and> (\<forall>y \<in> set ys. rank y \<le> rank r))" by simp
  then show ?thesis
  proof
    assume "r = c \<and> (\<forall>d \<in> set ds. rank d \<le> rank c)"
    then show ?thesis using that [of "[]" ds] Cons by simp
  next
    assume "\<exists>xs ys. ds = xs @ r # ys \<and> rank c < rank r \<and> (\<forall>x \<in> set xs. rank x < rank r) \<and> (\<forall>y \<in> set ys. rank y \<le> rank r)"
    then obtain xs ys where "ds = xs @ r # ys" "rank c < rank r" "\<forall>x \<in> set xs. rank x < rank r" "\<forall>y \<in> set ys. rank y \<le> rank r" by blast
    then show ?thesis using that [of "c # xs" ys] Cons by simp
  qed
qed (use assms in simp)

lemma pick_best:
  assumes "pick better None cs = Some r"
  shows "r \<in> set cs" "c \<in> set cs \<Longrightarrow> rank c \<le> rank r"
proof -
  obtain xs ys where "cs = xs @ r # ys" "\<forall>x \<in> set xs. rank x < rank r" "\<forall>y \<in> set ys. rank y \<le> rank r"
    using pick_first_best [OF assms] .
  then show "r \<in> set cs" "c \<in> set cs \<Longrightarrow> rank c \<le> rank r" by (auto simp: less_imp_le)
qed

lemma pick_order_irrelevant:
  assumes "set cs = set ds" "inj_on rank (set cs)"
  shows "pick better None cs = pick better None ds"
proof (cases "pick better None cs")
  case None
  then show ?thesis using pick_None [of cs] pick_None [of ds] assms(1) by simp
next
  case (Some r)
  then have "ds \<noteq> []" using pick_best(1) assms(1) by fastforce
  then obtain r' where r': "pick better None ds = Some r'" using pick_None [of ds] by auto
  have "rank r' \<le> rank r" "rank r \<le> rank r'" "r \<in> set cs" "r' \<in> set cs"
    using pick_best [OF Some] pick_best [OF r'] assms(1) by auto
  then have "r = r'" using assms(2) by (simp add: inj_on_def)
  then show ?thesis using Some r' by simp
qed

end

interpretation k8s_choice: ranked_choice "\<lambda>c s. compareK8sRoutePriority c s > 0" route_rank
proof
  fix c s
  show "compareK8sRoutePriority c s > 0 \<longleftrightarrow> route_rank s < route_rank c"
    by (cases "mr_pathKind c"; cases "mr_pathKind s") (auto simp: compareK8sRoutePriority_def route_rank_def less_prod_def less_eq_prod_def)
qed

section \<open>Tables\<close>

lemma cleared_simps [simp]:
  "cleared (cleared b) = cleared b" "cleared (emit_route r b) = cleared b" "cleared (fold emit_route rs b) = cleared b"
proof -
  show e: "cleared (emit_route r b) = cleared b" for r b by (simp add: cleared_def emit_route_def)
  show "cleared (fold emit_route rs b) = cleared b" by (induction rs arbitrary: b) (simp_all add: e)
qed (simp add: cleared_def)

lemma cleared_objects [simp]:
  "br_namespace (cleared b) = br_namespace b" "br_ingressClass (cleared b) = br_ingressClass b"
  "br_ingresses (cleared b) = br_ingresses b" "br_services (cleared b) = br_services b" "br_gateways (cleared b) = br_gateways b"
  "br_httpRoutes (cleared b) = br_httpRoutes b" "br_grpcRoutes (cleared b) = br_grpcRoutes b" "br_tlsRoutes (cleared b) = br_tlsRoutes b"
  "br_tcpRoutes (cleared b) = br_tcpRoutes b" "br_udpRoutes (cleared b) = br_udpRoutes b"
  by (simp_all add: cleared_def)

lemma objects_cong:
  assumes "cleared a = cleared b"
  shows "br_ingressClass a = br_ingressClass b"
    "br_ingresses a = br_ingresses b" "br_services a = br_services b" "br_gateways a = br_gateways b" "br_httpRoutes a = br_httpRoutes b"
    "br_grpcRoutes a = br_grpcRoutes b" "br_tlsRoutes a = br_tlsRoutes b" "br_tcpRoutes a = br_tcpRoutes b" "br_udpRoutes a = br_udpRoutes b"
  using cleared_objects [of a] unfolding assms cleared_objects by simp_all

lemma routes_cong:
  assumes "cleared a = cleared b"
  shows "ingress_rule_routes marshal a ing rule = ingress_rule_routes marshal b ing rule" "ingress_routes marshal a = ingress_routes marshal b"
    "http_family hr a = http_family hr b" "grpc_family hr a = grpc_family hr b" "l4_family k l4 a = l4_family k l4 b"
    "declared_routes marshal a = declared_routes marshal b"
proof -
  note o = objects_cong [OF assms]
  have p: "parent_listeners ps a = parent_listeners ps b" for ps by (simp add: parent_listeners_def o)
  have "resolveIngressBackendServiceAddressLocked ns n a = resolveIngressBackendServiceAddressLocked ns n b" for ns n
    by (simp add: resolveIngressBackendServiceAddressLocked_def o)
  then have "ingress_path_route marshal a ing host idx path = ingress_path_route marshal b ing host idx path" for ing host idx path
    unfolding ingress_path_route_def by (simp only:)
  then have path: "ingress_path_route marshal a = ingress_path_route marshal b" by (intro ext)
  show r: "ingress_rule_routes marshal a ing rule = ingress_rule_routes marshal b ing rule" for ing rule unfolding ingress_rule_routes_def path ..
  have "ingress_rule_routes marshal a = ingress_rule_routes marshal b" by (intro ext r)
  then show i: "ingress_routes marshal a = ingress_routes marshal b" by (simp only: ingress_routes_def o)
  show h: "http_family hr a = http_family hr b" "grpc_family hr a = grpc_family hr b" "l4_family k l4 a = l4_family k l4 b" for hr k l4
    by (simp_all add: http_family_def grpc_family_def l4_family_def p)
  show "declared_routes marshal a = declared_routes marshal b" by (simp add: declared_routes_def i h o)
qed

lemma fold_emit:
  assumes "\<And>x b. f x b = fold emit_route (g x b) b" "\<And>x a b. cleared a = cleared b \<Longrightarrow> g x a = g x b"
  shows "fold f xs b = fold emit_route (concat (map (\<lambda>x. g x b) xs)) b"
proof (induction xs arbitrary: b)
  case (Cons x xs)
  have "map (\<lambda>y. g y (fold emit_route (g x b) b)) xs = map (\<lambda>y. g y b) xs" by (intro map_cong refl assms(2)) simp
  then have "fold f xs (fold emit_route (g x b) b) = fold emit_route (concat (map (\<lambda>y. g y b) xs)) (fold emit_route (g x b) b)"
    using Cons.IH [of "fold emit_route (g x b) b"] by (simp only:)
  moreover have "fold f (x # xs) b = fold f xs (fold emit_route (g x b) b)" unfolding fold_simps assms(1) [of x b] ..
  ultimately show ?case by (simp only: list.map concat.simps fold_append comp_apply)
qed simp

lemma rebuildIngress_emits: "rebuildIngressRoutesLocked marshal b = fold emit_route (ingress_routes marshal b) b"
proof -
  define g where "g = (\<lambda>ing b. concat (map (ingress_rule_routes marshal b ing) (in_Rules ing)))"
  have 1: "fold (\<lambda>rule b. fold emit_route (ingress_rule_routes marshal b ing rule) b) (in_Rules ing) b = fold emit_route (g ing b) b" for ing b
    unfolding g_def by (rule fold_emit [where g = "\<lambda>rule b. ingress_rule_routes marshal b ing rule"], rule refl, rule routes_cong(1))
  have 2: "g ing a = g ing b" if "cleared a = cleared b" for ing a b unfolding g_def routes_cong(1) [OF that] ..
  have "rebuildIngressRoutesLocked marshal b = fold emit_route (concat (map (\<lambda>ing. g ing b) (map snd (br_ingresses b)))) b"
    unfolding rebuildIngressRoutesLocked_def by (rule fold_emit [where g = g], rule 1, rule 2)
  then show ?thesis unfolding ingress_routes_def g_def .
qed

lemma family_emits:
  "fold materializeHTTPFamilyLocked hrs b = fold emit_route (concat (map (\<lambda>r. http_family r b) hrs)) b"
  "fold materializeGRPCFamilyLocked hrs b = fold emit_route (concat (map (\<lambda>r. grpc_family r b) hrs)) b"
  "fold (materializeL4Locked kind) l4s b = fold emit_route (concat (map (\<lambda>r. l4_family kind r b) l4s)) b"
proof -
  show "fold materializeHTTPFamilyLocked hrs b = fold emit_route (concat (map (\<lambda>r. http_family r b) hrs)) b"
    by (rule fold_emit [where g = http_family], simp only: materializeHTTPFamilyLocked_def http_family_def, rule routes_cong(3))
  show "fold materializeGRPCFamilyLocked hrs b = fold emit_route (concat (map (\<lambda>r. grpc_family r b) hrs)) b"
    by (rule fold_emit [where g = grpc_family], simp only: materializeGRPCFamilyLocked_def grpc_family_def, rule routes_cong(4))
  show "fold (materializeL4Locked kind) l4s b = fold emit_route (concat (map (\<lambda>r. l4_family kind r b) l4s)) b"
    by (rule fold_emit [where g = "l4_family kind"], simp only: materializeL4Locked_def l4_family_def, rule routes_cong(5))
qed

lemma rebuild_emits: "rebuildRoutesLocked marshal b = fold emit_route (declared_routes marshal b) (cleared b)"
proof -
  define f where "f = fold emit_route"
  have c: "cleared (f rs x) = cleared x" for rs x unfolding f_def by (rule cleared_simps(3))
  have fam: "fold materializeHTTPFamilyLocked (map snd (br_httpRoutes x)) x = f (concat (map (\<lambda>r. http_family r b) (map snd (br_httpRoutes b)))) x"
    "fold materializeGRPCFamilyLocked (map snd (br_grpcRoutes x)) x = f (concat (map (\<lambda>r. grpc_family r b) (map snd (br_grpcRoutes b)))) x"
    "fold (materializeL4Locked k) (map snd (br_tlsRoutes x)) x = f (concat (map (\<lambda>r. l4_family k r b) (map snd (br_tlsRoutes b)))) x"
    "fold (materializeL4Locked k) (map snd (br_tcpRoutes x)) x = f (concat (map (\<lambda>r. l4_family k r b) (map snd (br_tcpRoutes b)))) x"
    "fold (materializeL4Locked k) (map snd (br_udpRoutes x)) x = f (concat (map (\<lambda>r. l4_family k r b) (map snd (br_udpRoutes b)))) x"
    "rebuildIngressRoutesLocked marshal x = f (ingress_routes marshal b) x" if "cleared x = cleared b" for x k
    unfolding f_def family_emits rebuildIngress_emits by (simp_all only: routes_cong(2-5) [OF that] objects_cong [OF that])
  define x0 where "x0 = cleared b"
  define x1 where "x1 = f (ingress_routes marshal b) x0"
  define x2 where "x2 = f (concat (map (\<lambda>r. http_family r b) (map snd (br_httpRoutes b)))) x1"
  define x3 where "x3 = f (concat (map (\<lambda>r. grpc_family r b) (map snd (br_grpcRoutes b)))) x2"
  define x4 where "x4 = f (concat (map (\<lambda>r. l4_family RouteKindTLSTerminate r b) (map snd (br_tlsRoutes b)))) x3"
  define x5 where "x5 = f (concat (map (\<lambda>r. l4_family RouteKindTCP r b) (map snd (br_tcpRoutes b)))) x4"
  have c0: "cleared x0 = cleared b" unfolding x0_def by (rule cleared_simps(1))
  have c1: "cleared x1 = cleared b" unfolding x1_def c by (rule c0)
  have c2: "cleared x2 = cleared b" unfolding x2_def c by (rule c1)
  have c3: "cleared x3 = cleared b" unfolding x3_def c by (rule c2)
  have c4: "cleared x4 = cleared b" unfolding x4_def c by (rule c3)
  have c5: "cleared x5 = cleared b" unfolding x5_def c by (rule c4)
  have "rebuildRoutesLocked marshal b = f (concat (map (\<lambda>r. l4_family RouteKindUDP r b) (map snd (br_udpRoutes b)))) x5"
    unfolding rebuildRoutesLocked_def cleared_def [symmetric] x0_def [symmetric] rebuildGatewayRoutesLocked_def Let_def
      fam(6) [OF c0] x1_def [symmetric] fam(1) [OF c1] x2_def [symmetric] fam(2) [OF c2] x3_def [symmetric] fam(3) [OF c3] x4_def [symmetric]
      fam(4) [OF c4] x5_def [symmetric] fam(5) [OF c5] ..
  then show ?thesis unfolding x5_def x4_def x3_def x2_def x1_def x0_def f_def declared_routes_def fold_append comp_apply .
qed

lemma rebuild_current: "tables_current marshal (rebuildRoutesLocked marshal b)"
  unfolding tables_current_def rebuild_emits using routes_cong(6) [of "fold emit_route (declared_routes marshal b) (cleared b)" b] by simp

lemma new_current: "tables_current marshal (NewK8sBridgeWithClients pod ns cls)"
  by (simp add: tables_current_def NewK8sBridgeWithClients_def declared_routes_def ingress_routes_def cleared_def Let_def)

lemma event_current: "tables_current marshal b \<Longrightarrow> tables_current marshal (handle_event marshal ev b)"
  by (cases ev) (simp_all add: storeIngress_def deleteIngress_def storeService_def deleteService_def storeGatewayUnstructured_def deleteGatewayKey_def
      storeHTTPRouteUnstructured_def deleteHTTPRoute_def storeGRPCRouteUnstructured_def deleteGRPCRoute_def storeTLSRouteUnstructured_def deleteTLSRoute_def
      storeTCPRouteUnstructured_def deleteTCPRoute_def storeUDPRouteUnstructured_def deleteUDPRoute_def deleteRouteKey_def on_deleted_def Let_def rebuild_current
      split: option.split)

lemma events_current: "tables_current marshal b \<Longrightarrow> tables_current marshal (fold (handle_event marshal) evs b)"
  by (induction evs arbitrary: b) (simp_all add: event_current)

lemma bucket_add_apply: "bucket (bucket_add k r t) j = (if j = k then bucket t k @ [r] else bucket t j)"
  by (simp add: bucket_def bucket_add_def update_conv')

lemma emitted_tables:
  "bucket (httpResolved (fold emit_route rs b)) h = bucket (httpResolved b) h @ filter (\<lambda>r. mr_kind r = RouteKindHTTP \<and> mr_hostname r = h) rs"
  "bucket (httpsResolved (fold emit_route rs b)) h = bucket (httpsResolved b) h @ filter (\<lambda>r. mr_kind r = RouteKindHTTPS \<and> mr_hostname r = h) rs"
  "bucket (grpcResolved (fold emit_route rs b)) h = bucket (grpcResolved b) h @ filter (\<lambda>r. mr_kind r = RouteKindGRPC \<and> mr_hostname r = h) rs"
  "h \<noteq> [] \<Longrightarrow> bucket (tlsResolved (fold emit_route rs b)) h =
     bucket (tlsResolved b) h @ filter (\<lambda>r. (mr_kind r = RouteKindTLSTerminate \<or> mr_kind r = RouteKindTLSPassthrough) \<and> mr_hostname r = h) rs"
  "bucket (tcpResolved (fold emit_route rs b)) p = bucket (tcpResolved b) p @ filter (\<lambda>r. mr_kind r = RouteKindTCP \<and> mr_port r = p) rs"
  "bucket (udpResolved (fold emit_route rs b)) p = bucket (udpResolved b) p @ filter (\<lambda>r. mr_kind r = RouteKindUDP \<and> mr_port r = p) rs"
  by (induction rs arbitrary: b) (auto simp: emit_route_def bucket_add_apply)

lemma current_tables:
  assumes "tables_current marshal b" "h \<noteq> []"
  shows "host_routes kind h b = (if kind \<in> {RouteKindHTTP, RouteKindHTTPS, RouteKindGRPC} then Some (filter (\<lambda>r. mr_kind r = kind \<and> mr_hostname r = h) (declared_routes marshal b))
      else if kind \<in> {RouteKindTLSTerminate, RouteKindTLSPassthrough} then
        Some (filter (\<lambda>r. (mr_kind r = RouteKindTLSTerminate \<or> mr_kind r = RouteKindTLSPassthrough) \<and> mr_hostname r = h) (declared_routes marshal b))
      else None)"
    "bucket (tcpResolved b) p = filter (\<lambda>r. mr_kind r = RouteKindTCP \<and> mr_port r = p) (declared_routes marshal b)"
    "bucket (udpResolved b) p = filter (\<lambda>r. mr_kind r = RouteKindUDP \<and> mr_port r = p) (declared_routes marshal b)"
proof -
  define rs where "rs = declared_routes marshal b"
  define c where "c = cleared b"
  have b: "b = fold emit_route rs c" using assms(1) unfolding tables_current_def rs_def c_def .
  have e: "bucket (httpResolved c) k = []" "bucket (httpsResolved c) k = []" "bucket (grpcResolved c) k = []" "bucket (tlsResolved c) k = []"
    "bucket (tcpResolved c) q = []" "bucket (udpResolved c) q = []" for k q
    by (simp_all add: c_def cleared_def bucket_def)
  show "bucket (tcpResolved b) p = filter (\<lambda>r. mr_kind r = RouteKindTCP \<and> mr_port r = p) (declared_routes marshal b)"
    "bucket (udpResolved b) p = filter (\<lambda>r. mr_kind r = RouteKindUDP \<and> mr_port r = p) (declared_routes marshal b)"
    unfolding rs_def [symmetric] by (subst b, simp add: emitted_tables e)+
  show "host_routes kind h b = (if kind \<in> {RouteKindHTTP, RouteKindHTTPS, RouteKindGRPC} then Some (filter (\<lambda>r. mr_kind r = kind \<and> mr_hostname r = h) (declared_routes marshal b))
      else if kind \<in> {RouteKindTLSTerminate, RouteKindTLSPassthrough} then
        Some (filter (\<lambda>r. (mr_kind r = RouteKindTLSTerminate \<or> mr_kind r = RouteKindTLSPassthrough) \<and> mr_hostname r = h) (declared_routes marshal b))
      else None)"
    unfolding rs_def [symmetric] by (subst b) (auto simp: host_routes_def emitted_tables e assms(2))
qed

lemma resolve_candidates:
  assumes "tables_current marshal b" "normalizeHost host \<noteq> []"
    "kind \<in> {RouteKindHTTP, RouteKindHTTPS, RouteKindGRPC, RouteKindTLSTerminate, RouteKindTLSPassthrough}"
  shows "resolveHostPath kind host path b = map_option materializedToResolved (pick (\<lambda>c s. compareK8sRoutePriority c s > 0) None
    (candidates marshal b kind (normalizeHost host) (normalizeIngressPath path)))"
proof -
  define h where "h = normalizeHost host"
  define q where "q = normalizeIngressPath path"
  obtain rs where rs: "host_routes kind h b = Some rs"
    "filter (\<lambda>c. mr_kind c = kind \<and> k8sPathMatches (mr_pathKind c) (mr_path c) q) rs = candidates marshal b kind h q"
  proof (cases "kind \<in> {RouteKindHTTP, RouteKindHTTPS, RouteKindGRPC}")
    case True
    then have "host_routes kind h b = Some (filter (\<lambda>r. mr_kind r = kind \<and> mr_hostname r = h) (declared_routes marshal b))"
      using current_tables(1) [OF assms(1), of h kind] assms(2) by (simp add: h_def)
    then show ?thesis by (rule that) (simp add: candidates_def conj_ac cong: conj_cong)
  next
    case False
    then have k: "kind = RouteKindTLSTerminate \<or> kind = RouteKindTLSPassthrough" using assms(3) by simp
    then have "host_routes kind h b =
        Some (filter (\<lambda>r. (mr_kind r = RouteKindTLSTerminate \<or> mr_kind r = RouteKindTLSPassthrough) \<and> mr_hostname r = h) (declared_routes marshal b))"
      using current_tables(1) [OF assms(1), of h kind] assms(2) by (auto simp: h_def)
    then show ?thesis by (rule that) (unfold candidates_def filter_filter, rule filter_cong, use k in auto)
  qed
  have "resolveHostPath kind host path b = map_option materializedToResolved (selectK8sRoute rs q kind)"
    using rs(1) assms(2) by (simp add: resolveHostPath_def Let_def h_def q_def split: option.split)
  then show ?thesis by (simp only: selectK8sRoute_def rs(2) h_def [symmetric] q_def [symmetric])
qed

lemma start_current:
  assumes "b0 = NewK8sBridgeWithClients pod ns cls \<or> ingress_LoadInitial marshal c (NewK8sBridgeWithClients pod ns cls) = (Inr (), b0)"
  shows "tables_current marshal b0"
  using assms by (auto simp: new_current ingress_LoadInitial_def rebuild_current split: prod.splits sum.splits)

section \<open>Matching paths\<close>

lemma Split_append: "Split (s @ b # t) b = Split s b @ Split t b"
proof (induction s)
  case (Cons c s)
  then show ?case using Split_not_Nil [of s b] by (auto split: list.split)
qed simp

lemma prefix_segments:
  "(q = r \<or> (\<exists>t. q = r @ b # t)) \<longleftrightarrow> take (length (Split r b)) (Split q b) = Split r b"
proof
  assume "q = r \<or> (\<exists>t. q = r @ b # t)"
  then show "take (length (Split r b)) (Split q b) = Split r b" by (auto simp: Split_append)
next
  assume t: "take (length (Split r b)) (Split q b) = Split r b"
  define ws where "ws = drop (length (Split r b)) (Split q b)"
  have q: "Split q b = Split r b @ ws" unfolding ws_def using t append_take_drop_id [of "length (Split r b)" "Split q b"] by simp
  show "q = r \<or> (\<exists>t. q = r @ b # t)"
  proof (cases "ws = []")
    case True
    then have "Join (Split q b) [b] = Join (Split r b) [b]" using q by simp
    then show ?thesis by simp
  next
    case False
    have "Split (r @ b # Join ws [b]) b = Split r b @ ws"
      unfolding Split_append using False q Split_parts [of _ q b] by (subst Split_Join) auto
    then have "Join (Split (r @ b # Join ws [b]) b) [b] = Join (Split q b) [b]" using q by simp
    then show ?thesis by auto
  qed
qed

section \<open>A small cluster\<close>

definition sample_ingress :: "string \<Rightarrow> string \<Rightarrow> string \<Rightarrow> Ingress" where
  "sample_ingress name path service = \<lparr>in_Namespace = ''n'', in_Name = name, in_Generation = 1, in_IngressClassName = Some ''luna'', in_Annotations = None,
     in_Rules = [\<lparr>ir_Host = ''a.b'', ir_HTTP = Some [\<lparr>ip_Path = path, ip_PathType = None, ip_Service = Some (service, 80, [])\<rparr>]\<rparr>]\<rparr>"

definition sample_bridge :: "(string \<times> Ingress) list \<Rightarrow> K8sBridge" where
  "sample_bridge is = (NewK8sBridgeWithClients [] ''n'' ''luna'')\<lparr>br_ingresses := is\<rparr>"

lemma rebuild_objects [simp]:
  "br_ingresses (rebuildRoutesLocked marshal b) = br_ingresses b" "br_ingressClass (rebuildRoutesLocked marshal b) = br_ingressClass b"
  "declared_routes marshal (rebuildRoutesLocked marshal b) = declared_routes marshal b"
  using objects_cong(1,2) [of "rebuildRoutesLocked marshal b" b] routes_cong(6) [of "rebuildRoutesLocked marshal b" b] unfolding rebuild_emits by simp_all

lemma sample_names: "normalizeHost ''a.b'' = ''a.b''" "FormatNat 0 = ''0''" "TrimSpace ''luna'' = ''luna''"
  "normalizeIngressPath ''/api'' = ''/api''" "normalizeIngressPath ''/api/x'' = ''/api/x''" "normalizeIngressPath ''/'' = ''/''"
  by code_simp+

lemma sample_routes:
  assumes "normalizeIngressPath path = path"
  shows "\<exists>r. ingress_rule_routes marshal b (sample_ingress name path service) (hd (in_Rules (sample_ingress name path service))) = [r] \<and>
    mr_kind r = RouteKindHTTP \<and> mr_hostname r = ''a.b'' \<and> mr_path r = path \<and> mr_pathKind r = k8sRoutePathPrefix \<and> bb_Name (mr_binding r) = service"
  by (simp add: sample_ingress_def ingress_rule_routes_def ingress_path_route_def List.map_filter_simps sample_names assms Let_def)

section \<open>Properties\<close>

text \<open>C1. After any history of events, with or without an initial load, a lookup is answered from exactly what
  the objects of the cluster declare. It finds a backend if and only if some declared route of that kind
  and host matches the path, and what it returns is one of those with the best rank: exact paths before
  prefixes, longer paths before shorter ones, earlier rules before later ones.  The tables that are
  rebuilt at every event never miss an object and never keep a stale one.\<close>

theorem bridge_lookup_exact:
  fixes marshal :: "ingress_path \<Rightarrow> string" and kind :: RouteKind and host :: string and path :: string and evs :: "bridge_event list" and b0 :: K8sBridge
  assumes "b0 = NewK8sBridgeWithClients pod ns cls \<or> ingress_LoadInitial marshal c (NewK8sBridgeWithClients pod ns cls) = (Inr (), b0)"
    "normalizeHost host \<noteq> []" "kind \<in> {RouteKindHTTP, RouteKindHTTPS, RouteKindGRPC, RouteKindTLSTerminate, RouteKindTLSPassthrough}"
  defines "b \<equiv> fold (handle_event marshal) evs b0"
    and "cs \<equiv> set (candidates marshal (fold (handle_event marshal) evs b0) kind (normalizeHost host) (normalizeIngressPath path))"
  shows "(resolveHostPath kind host path b = None \<longleftrightarrow> cs = {}) \<and>
    (\<forall>x. resolveHostPath kind host path b = Some x \<longrightarrow> (\<exists>r \<in> cs. x = materializedToResolved r \<and> (\<forall>d \<in> cs. route_rank d \<le> route_rank r)))"
proof -
  have t: "tables_current marshal b" unfolding b_def by (rule events_current [OF start_current [OF assms(1)]])
  have r: "resolveHostPath kind host path b = map_option materializedToResolved (pick (\<lambda>c s. compareK8sRoutePriority c s > 0) None
      (candidates marshal b kind (normalizeHost host) (normalizeIngressPath path)))"
    by (rule resolve_candidates [OF t assms(2,3)])
  have cs: "cs = set (candidates marshal b kind (normalizeHost host) (normalizeIngressPath path))" by (simp add: cs_def b_def)
  show ?thesis unfolding r cs using k8s_choice.pick_None k8s_choice.pick_best by auto
qed

theorem bridge_lookup_exact_witness:
  "\<exists>x. resolveHostPath RouteKindHTTP ''a.b'' ''/api/x'' (handle_event (\<lambda>_. []) (EvIngress (Some (sample_ingress ''i'' ''/api'' ''web'')))
     (NewK8sBridgeWithClients [] ''n'' ''luna'')) = Some x \<and> bb_Name (kb_Binding x) = ''web''"
proof -
  let ?start = "NewK8sBridgeWithClients [] ''n'' ''luna''" and ?i = "sample_ingress ''i'' ''/api'' ''web''"
  let ?b = "handle_event (\<lambda>_. []) (EvIngress (Some ?i)) ?start"
  have "matchesIngressClass ?i ?start" by (simp add: matchesIngressClass_def sample_ingress_def NewK8sBridgeWithClients_def sample_names)
  moreover have "in_Namespace ?i = ''n''" "in_Name ?i = ''i''" "br_ingresses ?start = []" by (simp_all add: sample_ingress_def NewK8sBridgeWithClients_def)
  ultimately have b: "?b = rebuildRoutesLocked (\<lambda>_. []) (sample_bridge [(''n/i'', ?i)])" by (simp add: storeIngress_def sample_bridge_def)
  obtain r where r: "ingress_rule_routes (\<lambda>_. []) (sample_bridge [(''n/i'', ?i)]) ?i (hd (in_Rules ?i)) = [r]" "mr_kind r = RouteKindHTTP"
    "mr_hostname r = ''a.b''" "mr_path r = ''/api''" "mr_pathKind r = k8sRoutePathPrefix" "bb_Name (mr_binding r) = ''web''"
    using sample_routes [OF sample_names(4)] by blast
  have ru: "in_Rules ?i = [hd (in_Rules ?i)]" by (simp add: sample_ingress_def)
  have stored: "map snd (br_ingresses (sample_bridge [(''n/i'', ?i)])) = [?i]" by (simp add: sample_bridge_def)
  have "concat (map (ingress_rule_routes (\<lambda>_. []) (sample_bridge [(''n/i'', ?i)]) ?i) (in_Rules ?i)) = [r]"
    by (subst ru) (simp only: list.map concat.simps append_Nil2 r(1))
  then have "ingress_routes (\<lambda>_. []) (sample_bridge [(''n/i'', ?i)]) = [r]"
    unfolding ingress_routes_def stored by (simp only: list.map concat.simps append_Nil2)
  then have d: "declared_routes (\<lambda>_. []) ?b = [r]" unfolding b rebuild_objects(3) by (simp add: declared_routes_def sample_bridge_def NewK8sBridgeWithClients_def)
  have "k8sPathMatches k8sRoutePathPrefix ''/api'' (normalizeIngressPath ''/api/x'')" by code_simp
  then have c: "set (candidates (\<lambda>_. []) (fold (handle_event (\<lambda>_. [])) [EvIngress (Some ?i)] ?start) RouteKindHTTP (normalizeHost ''a.b'') (normalizeIngressPath ''/api/x'')) = {r}"
    using d r by (simp add: candidates_def sample_names del: handle_event.simps)
  have h: "normalizeHost ''a.b'' \<noteq> []" by (simp add: sample_names)
  have "(resolveHostPath RouteKindHTTP ''a.b'' ''/api/x'' ?b = None \<longleftrightarrow> {r} = {}) \<and>
    (\<forall>x. resolveHostPath RouteKindHTTP ''a.b'' ''/api/x'' ?b = Some x \<longrightarrow> (\<exists>r \<in> {r}. x = materializedToResolved r \<and> (\<forall>d \<in> {r}. route_rank d \<le> route_rank r)))"
    using bridge_lookup_exact [OF disjI1 [OF refl] h, where pod = "[]" and ns = "''n''" and cls = "''luna''" and kind = RouteKindHTTP and marshal = "\<lambda>_. []" and evs = "[EvIngress (Some ?i)]" and path = "''/api/x''"]
    unfolding c by (simp del: handle_event.simps)
  then show ?thesis using r(6) by (cases "resolveHostPath RouteKindHTTP ''a.b'' ''/api/x'' ?b") (auto simp: materializedToResolved_def)
qed

text \<open>C1. The bridge holds the latest version of every Ingress. After any history of events an Ingress is stored
  under its key if and only if the last event about it stored a version of the class of the bridge, and
  then that version is what is stored; a version of another class removes it.\<close>

theorem ingress_objects_latest:
  "map_of (br_ingresses (fold (handle_event marshal) evs (NewK8sBridgeWithClients pod ns cls))) key =
   fold (ingress_after (NewK8sBridgeWithClients pod ns cls) key) evs None"
proof -
  have step: "map_of (br_ingresses (handle_event marshal ev b)) key = ingress_after b key ev (map_of (br_ingresses b) key) \<and>
      br_ingressClass (handle_event marshal ev b) = br_ingressClass b" for ev b
    by (cases "(b, key, ev, map_of (br_ingresses b) key)" rule: ingress_after.cases)
      (auto simp: storeIngress_def deleteIngress_def storeService_def deleteService_def storeGatewayUnstructured_def deleteGatewayKey_def
        storeHTTPRouteUnstructured_def deleteHTTPRoute_def storeGRPCRouteUnstructured_def deleteGRPCRoute_def storeTLSRouteUnstructured_def deleteTLSRoute_def
        storeTCPRouteUnstructured_def deleteTCPRoute_def storeUDPRouteUnstructured_def deleteUDPRoute_def deleteRouteKey_def on_deleted_def Let_def
        update_conv' delete_conv' split: option.split)
  have cls: "ingress_after b key ev = ingress_after b' key ev" if "br_ingressClass b = br_ingressClass b'" for b b' ev
    by (rule ext, rule ingress_after.cases [of "(b, key, ev, x)" for x]) (auto simp: matchesIngressClass_def that)
  have "map_of (br_ingresses (fold (handle_event marshal) evs b)) key = fold (ingress_after b0 key) evs (map_of (br_ingresses b) key)"
    if "br_ingressClass b = br_ingressClass b0" for b b0
    using that
  proof (induction evs arbitrary: b)
    case (Cons ev evs)
    have "br_ingressClass (handle_event marshal ev b) = br_ingressClass b0" using step [of ev b] Cons.prems by simp
    from Cons.IH [OF this] show ?case using step [of ev b] cls [OF Cons.prems, of ev] by simp
  qed simp
  from this [OF refl] show ?thesis by (simp add: NewK8sBridgeWithClients_def Let_def)
qed

text \<open>C1. The order in which Go visits its maps does not change what a lookup finds. If two bridges hold the same
  objects in any order, and the matching routes have pairwise different ranks, the lookups after rebuilding
  the tables agree.\<close>

theorem lookup_order_irrelevant:
  assumes "set (br_ingresses b') = set (br_ingresses b)" "map_of (br_services b') = map_of (br_services b)" "map_of (br_gateways b') = map_of (br_gateways b)"
    "set (br_httpRoutes b') = set (br_httpRoutes b)" "set (br_grpcRoutes b') = set (br_grpcRoutes b)" "set (br_tlsRoutes b') = set (br_tlsRoutes b)"
    "set (br_tcpRoutes b') = set (br_tcpRoutes b)" "set (br_udpRoutes b') = set (br_udpRoutes b)"
    "inj_on route_rank (set (candidates marshal b kind (normalizeHost host) (normalizeIngressPath path)))"
  shows "resolveHostPath kind host path (rebuildRoutesLocked marshal b') = resolveHostPath kind host path (rebuildRoutesLocked marshal b)"
proof (cases "normalizeHost host \<noteq> [] \<and> kind \<in> {RouteKindHTTP, RouteKindHTTPS, RouteKindGRPC, RouteKindTLSTerminate, RouteKindTLSPassthrough}")
  case True
  have p: "parent_listeners ps b' = parent_listeners ps b" for ps by (simp add: parent_listeners_def assms(3))
  have "resolveIngressBackendServiceAddressLocked ns n b' = resolveIngressBackendServiceAddressLocked ns n b" for ns n
    by (simp add: resolveIngressBackendServiceAddressLocked_def assms(2))
  then have "ingress_path_route marshal b' ing host idx path = ingress_path_route marshal b ing host idx path" for ing host idx path
    unfolding ingress_path_route_def by (simp only:)
  then have path: "ingress_path_route marshal b' = ingress_path_route marshal b" by (intro ext)
  have r: "ingress_rule_routes marshal b' = ingress_rule_routes marshal b" by (intro ext) (unfold ingress_rule_routes_def path, rule refl)
  have "set (declared_routes marshal b') = set (declared_routes marshal b)"
    unfolding declared_routes_def ingress_routes_def http_family_def grpc_family_def l4_family_def p r set_append set_concat set_map
    by (simp only: assms(1,4-8))
  then have "set (candidates marshal b' kind (normalizeHost host) (normalizeIngressPath path)) = set (candidates marshal b kind (normalizeHost host) (normalizeIngressPath path))"
    unfolding candidates_def set_filter by (simp only:)
  from k8s_choice.pick_order_irrelevant [OF this [symmetric] assms(9)]
  have "pick (\<lambda>c s. compareK8sRoutePriority c s > 0) None (candidates marshal b' kind (normalizeHost host) (normalizeIngressPath path)) =
    pick (\<lambda>c s. compareK8sRoutePriority c s > 0) None (candidates marshal b kind (normalizeHost host) (normalizeIngressPath path))" by (rule sym)
  moreover have "candidates marshal (rebuildRoutesLocked marshal x) kind h q = candidates marshal x kind h q" for x h q by (simp add: candidates_def)
  ultimately show ?thesis
    using resolve_candidates [OF rebuild_current, where host = host and kind = kind and path = path] True by simp
qed (auto simp: resolveHostPath_def host_routes_def Let_def)

theorem lookup_order_irrelevant_witness:
  defines "api \<equiv> (''n/i'', sample_ingress ''i'' ''/api'' ''web'')" and "root \<equiv> (''n/j'', sample_ingress ''j'' ''/'' ''root'')"
  shows "resolveHostPath RouteKindHTTP ''a.b'' ''/api/x'' (rebuildRoutesLocked (\<lambda>_. []) (sample_bridge [root, api])) =
    resolveHostPath RouteKindHTTP ''a.b'' ''/api/x'' (rebuildRoutesLocked (\<lambda>_. []) (sample_bridge [api, root]))"
proof -
  let ?b = "sample_bridge [api, root]"
  obtain r1 where r1: "ingress_rule_routes (\<lambda>_. []) ?b (snd api) (hd (in_Rules (snd api))) = [r1]" "mr_path r1 = ''/api''"
    using sample_routes [OF sample_names(4), of "\<lambda>_. []" ?b "''i''" "''web''"] unfolding api_def snd_conv by blast
  obtain r2 where r2: "ingress_rule_routes (\<lambda>_. []) ?b (snd root) (hd (in_Rules (snd root))) = [r2]" "mr_path r2 = ''/''"
    using sample_routes [OF sample_names(6), of "\<lambda>_. []" ?b "''j''" "''root''"] unfolding root_def snd_conv by blast
  have ru: "in_Rules (snd api) = [hd (in_Rules (snd api))]" "in_Rules (snd root) = [hd (in_Rules (snd root))]" by (simp_all add: api_def root_def sample_ingress_def)
  have stored: "map snd (br_ingresses ?b) = [snd api, snd root]" by (simp add: sample_bridge_def)
  have "concat (map (ingress_rule_routes (\<lambda>_. []) ?b (snd api)) (in_Rules (snd api))) = [r1]" by (subst ru) (simp only: list.map concat.simps append_Nil2 r1(1))
  moreover have "concat (map (ingress_rule_routes (\<lambda>_. []) ?b (snd root)) (in_Rules (snd root))) = [r2]" by (subst ru) (simp only: list.map concat.simps append_Nil2 r2(1))
  ultimately have "ingress_routes (\<lambda>_. []) ?b = [r1, r2]" unfolding ingress_routes_def stored by (simp only: list.map concat.simps append_Nil2 append_Cons append_Nil)
  then have "set (declared_routes (\<lambda>_. []) ?b) = {r1, r2}" by (simp add: declared_routes_def sample_bridge_def NewK8sBridgeWithClients_def)
  then have "set (candidates (\<lambda>_. []) ?b RouteKindHTTP (normalizeHost ''a.b'') (normalizeIngressPath ''/api/x'')) \<subseteq> {r1, r2}" by (auto simp: candidates_def)
  moreover have "inj_on route_rank {r1, r2}" using r1(2) r2(2) by (auto simp: inj_on_def route_rank_def)
  ultimately have "inj_on route_rank (set (candidates (\<lambda>_. []) ?b RouteKindHTTP (normalizeHost ''a.b'') (normalizeIngressPath ''/api/x'')))" by (rule inj_on_subset [rotated])
  then show ?thesis by (rule lookup_order_irrelevant [rotated 8]) (simp_all add: sample_bridge_def insert_commute)
qed

text \<open>C1. Paths match by whole segments. An exact route matches the same path only.  A prefix route matches if it is the
  root or if its segments are the first segments of the request path, so that \<^verbatim>\<open>/api\<close> matches \<^verbatim>\<open>/api/x\<close> and not \<^verbatim>\<open>/apix\<close>.\<close>

theorem path_matches_segments:
  "(k8sPathMatches k8sRoutePathExact route request \<longleftrightarrow> normalizeIngressPath request = normalizeIngressPath route) \<and>
   (k8sPathMatches k8sRoutePathPrefix route request \<longleftrightarrow> normalizeIngressPath route = ''/'' \<or>
     take (length (Split (normalizeIngressPath route) (CHR ''/''))) (Split (normalizeIngressPath request) (CHR ''/'')) = Split (normalizeIngressPath route) (CHR ''/''))"
proof -
  define r where "r = normalizeIngressPath route"
  define q where "q = normalizeIngressPath request"
  have "HasPrefix q r \<and> HasPrefix (drop (length r) q) ''/'' \<longleftrightarrow> (\<exists>t. q = r @ CHR ''/'' # t)" by (auto simp: HasPrefix_conv)
  then have "k8sPathMatches k8sRoutePathPrefix route request \<longleftrightarrow> r = ''/'' \<or> q = r \<or> (\<exists>t. q = r @ CHR ''/'' # t)"
    by (simp add: k8sPathMatches_def Let_def r_def [symmetric] q_def [symmetric]) blast
  moreover have "k8sPathMatches k8sRoutePathExact route request \<longleftrightarrow> q = r" by (simp add: k8sPathMatches_def Let_def r_def q_def)
  ultimately show ?thesis unfolding r_def [symmetric] q_def [symmetric] prefix_segments by blast
qed

text \<open>C1. A prefix route that ends in a slash does not match the paths below it. With \<^verbatim>\<open>/api/\<close> as the path of a rule of
  type Prefix the request \<^verbatim>\<open>/api/x\<close> is not routed, whatever follows the slash, although the slash at the end of
  a prefix is meant to be irrelevant.\<close>

theorem slash_prefix_misses_children:
  assumes "normalizeIngressPath (p @ ''/'') = p @ ''/''" "p \<noteq> []" "c \<noteq> CHR ''/''" "normalizeIngressPath (p @ ''/'' @ c # rest) = p @ ''/'' @ c # rest"
  shows "\<not> k8sPathMatches k8sRoutePathPrefix (p @ ''/'') (p @ ''/'' @ c # rest)"
  using assms by (simp add: k8sPathMatches_def Let_def HasPrefix_conv)

theorem slash_prefix_misses_children_witness: "\<not> k8sPathMatches k8sRoutePathPrefix ''/api/'' ''/api/x''"
proof -
  have "normalizeIngressPath ''/api/'' = ''/api/''" "normalizeIngressPath ''/api/x'' = ''/api/x''" by code_simp+
  then show ?thesis using slash_prefix_misses_children [of "''/api''" "CHR ''x''" "[]"] by simp
qed

end
