(* ===== verification/Ingress_Route.thy ===== *)
theory Ingress_Route
  imports Ingress_Bridge Go_Net
begin

text \<open>
  Request routing of the ingress: the binding cache of \<^verbatim>\<open>ingress/store.go\<close>, the helpers of \<^verbatim>\<open>utils.go\<close>, and the routing
  and request handling of \<^verbatim>\<open>engine.go\<close> and \<^verbatim>\<open>engine_http.go\<close>.  Reading a projection from the replica or from the
  repository is a function of the engine state, so that it may fail.  Reverse proxies appear as the request they send.

  The lemmas show which route a projection selects, how the path of a request is rewritten, how every request is
  answered, and two defects of the binding cache: it ignores paths, and it grows with every request.
\<close>

section \<open>Types\<close>

record ProxyTarget =
  pt_Hostname :: string
  pt_Port :: "32 word"
  pt_UpstreamURL :: string
  pt_Protocol :: string
  pt_PathPrefix :: string

record RouteResult =
  rr_Found :: bool
  rr_Target :: ProxyTarget

definition zero_ProxyTarget :: ProxyTarget where
  "zero_ProxyTarget = \<lparr>pt_Hostname = [], pt_Port = 0, pt_UpstreamURL = [], pt_Protocol = [], pt_PathPrefix = []\<rparr>"

definition not_found :: RouteResult where
  "not_found = \<lparr>rr_Found = False, rr_Target = zero_ProxyTarget\<rparr>"

section \<open>Helpers\<close>

definition buildUpstreamURL :: "string \<Rightarrow> string \<Rightarrow> 32 word \<Rightarrow> string" where
  "buildUpstreamURL protocol0 address0 port = (
     let protocol1 = TrimSpace (ToLower protocol0); protocol = (if protocol1 = [] then ''http'' else protocol1); address = TrimSpace address0 in
     if address = [] then []
     else if HasPrefix address ''http://'' \<or> HasPrefix address ''https://'' then address
     else if Contains address '':'' then protocol @ ''://'' @ address
     else if 0 < port then protocol @ ''://'' @ address @ '':'' @ FormatNat (unat port)
     else protocol @ ''://'' @ address)"

definition backendAddress :: "ServiceBackendRef option \<Rightarrow> string" where
  "backendAddress ref = (case ref of
      None \<Rightarrow> []
    | Some r \<Rightarrow> if sb_Type r = ServiceBackendTypeExternal then TrimSpace (sb_ArbitraryEndpoint r)
        else buildServiceAddress (sb_ServiceName r) (sb_ServiceNamespace r))"

definition normalizeProxyPathPrefix :: "string \<Rightarrow> string" where
  "normalizeProxyPathPrefix path0 = (let path = TrimSpace path0 in if path = [] \<or> \<not> HasPrefix path ''/'' then ''/'' else path)"

definition trimMatchedPrefix :: "string \<Rightarrow> string \<Rightarrow> string" where
  "trimMatchedPrefix pre path = (
     if path = [] then ''/''
     else if pre = ''/'' \<or> pre = [] then path
     else let trimmed = TrimPrefix path pre in
       if trimmed = [] then ''/'' else if \<not> HasPrefix trimmed ''/'' then ''/'' @ trimmed else trimmed)"

definition rewriteUpstreamPath :: "string \<Rightarrow> string \<Rightarrow> string \<Rightarrow> string \<times> string" where
  "rewriteUpstreamPath pre0 requestPath0 rawPath = (
     let pre = normalizeProxyPathPrefix pre0; requestPath = (if requestPath0 = [] then ''/'' else requestPath0) in
     (trimMatchedPrefix pre requestPath, if rawPath \<noteq> [] then trimMatchedPrefix pre rawPath else rawPath))"

definition ingressClientIP :: "string \<Rightarrow> string \<Rightarrow> string \<Rightarrow> string" where
  "ingressClientIP xForwardedFor xRealIP remoteAddr = (
     let forwardedFor = TrimSpace xForwardedFor; realIP = TrimSpace xRealIP in
     if forwardedFor \<noteq> [] then TrimSpace (hd (Split forwardedFor (CHR '','')))
     else if realIP \<noteq> [] then realIP
     else case SplitHostPort (TrimSpace remoteAddr) of Some (host, _) \<Rightarrow> host | None \<Rightarrow> TrimSpace remoteAddr)"

section \<open>The routes of a projection\<close>

definition httpRouteMatches :: "string \<Rightarrow> string \<Rightarrow> bool" where
  "httpRouteMatches path requestPath0 = (
     if path = [] \<or> path = ''/'' then True
     else let requestPath = (if requestPath0 = [] then ''/'' else requestPath0) in HasPrefix requestPath path)"

definition betterRoute :: "HTTPRouteProjection \<Rightarrow> HTTPRouteProjection \<Rightarrow> bool" where
  "betterRoute route selected = (sint (hp_Priority route) > sint (hp_Priority selected) \<or>
     (hp_Priority route = hp_Priority selected \<and> length (hp_Path route) > length (hp_Path selected)))"

definition selectHTTPRoute :: "HTTPRouteProjection list \<Rightarrow> string \<Rightarrow> HTTPRouteProjection option" where
  "selectHTTPRoute routes requestPath = pick betterRoute None (filter (\<lambda>r. httpRouteMatches (hp_Path r) requestPath) routes)"

definition bindingFromProjection :: "DomainEntryProjection option \<Rightarrow> string \<Rightarrow> RouteKind \<Rightarrow> BackendBinding option" where
  "bindingFromProjection entry0 requestPath kind = (case entry0 of None \<Rightarrow> None | Some entry \<Rightarrow>
     if kind = RouteKindHTTP \<or> kind = RouteKindHTTPS \<or> kind = RouteKindGRPC then
       (case selectHTTPRoute (dp_HTTPRoutes entry) requestPath of
          None \<Rightarrow> None
        | Some route \<Rightarrow> (case hp_BackendRef route of
            None \<Rightarrow> None
          | Some ref \<Rightarrow> Some \<lparr>bb_ID = hp_ID route, bb_Hostname = dp_Hostname entry, bb_ServiceID = [], bb_Namespace = sb_ServiceNamespace ref,
              bb_Name = sb_ServiceName ref, bb_Address = backendAddress (Some ref), bb_Port = sb_Port ref,
              bb_Protocol = (if kind = RouteKindGRPC then RouteKindGRPC else RouteKindHTTP), bb_RouteVersion = 1, bb_Path = hp_Path route,
              bb_Priority = hp_Priority route, bb_BackendJSON = [], bb_BackendRef = Some ref, bb_DomainEntryID = []\<rparr>))
     else if kind = RouteKindTLSTerminate \<or> kind = RouteKindTLSPassthrough \<or> kind = RouteKindTCP \<or> kind = RouteKindUDP then
       (case dp_BindedBackendRef entry of
          None \<Rightarrow> None
        | Some ref \<Rightarrow> Some \<lparr>bb_ID = sb_ID ref, bb_Hostname = dp_Hostname entry, bb_ServiceID = [], bb_Namespace = sb_ServiceNamespace ref,
            bb_Name = sb_ServiceName ref, bb_Address = backendAddress (Some ref), bb_Port = sb_Port ref, bb_Protocol = kind, bb_RouteVersion = 0,
            bb_Path = [], bb_Priority = 0, bb_BackendJSON = [], bb_BackendRef = Some ref, bb_DomainEntryID = []\<rparr>)
     else None)"

section \<open>The binding cache\<close>

type_synonym memoryStore = "(string \<times> BackendBinding list) list"

definition newMemoryStore :: memoryStore where
  "newMemoryStore = []"

definition parseBindingPath :: "BackendBinding \<Rightarrow> string" where
  "parseBindingPath b = (if bb_Path b = [] then ''/'' else bb_Path b)"

definition parseBindingPriority :: "BackendBinding \<Rightarrow> 32 word" where
  "parseBindingPriority b = bb_Priority b"

definition bindingMatchesPath :: "BackendBinding \<Rightarrow> string \<Rightarrow> bool" where
  "bindingMatchesPath b requestPath = (
     let path = parseBindingPath b in
     if path = ''/'' \<or> path = [] then True
     else if length requestPath < length path then False
     else take (length path) requestPath = path)"

definition betterBinding :: "string \<Rightarrow> BackendBinding \<Rightarrow> BackendBinding \<Rightarrow> bool" where
  "betterBinding requestPath l r = (
     if parseBindingPriority l \<noteq> parseBindingPriority r then sint (parseBindingPriority l) > sint (parseBindingPriority r)
     else if length (parseBindingPath l) \<noteq> length (parseBindingPath r) then length (parseBindingPath l) > length (parseBindingPath r)
     else bindingMatchesPath l requestPath \<and> \<not> bindingMatchesPath r requestPath)"

definition selectLocked :: "string \<Rightarrow> string \<Rightarrow> RouteKind list option \<Rightarrow> memoryStore \<Rightarrow> BackendBinding option" where
  "selectLocked hostname requestPath allowed s = (case map_of s hostname of
      None \<Rightarrow> None
    | Some bindings \<Rightarrow> if bindings = [] then None
        else pick (betterBinding requestPath) None (filter (\<lambda>b. case allowed of None \<Rightarrow> True | Some ks \<Rightarrow> bb_Protocol b \<in> set ks) bindings))"

definition memory_Get :: "string \<Rightarrow> string \<Rightarrow> memoryStore \<Rightarrow> BackendBinding option" where
  "memory_Get hostname requestPath s = selectLocked (normalizeHost hostname) requestPath None s"

definition memory_GetByProtocol :: "string \<Rightarrow> string \<Rightarrow> RouteKind list \<Rightarrow> memoryStore \<Rightarrow> BackendBinding option" where
  "memory_GetByProtocol hostname requestPath protocols s = selectLocked (normalizeHost hostname) requestPath (Some protocols) s"

definition memory_Put :: "BackendBinding \<Rightarrow> memoryStore \<Rightarrow> memoryStore" where
  "memory_Put binding s = bucket_add (normalizeHost (bb_Hostname binding)) binding s"

definition memory_Delete :: "string \<Rightarrow> memoryStore \<Rightarrow> memoryStore" where
  "memory_Delete hostname s = AList.delete (normalizeHost hostname) s"

definition memory_Clear :: "memoryStore \<Rightarrow> memoryStore" where
  "memory_Clear s = []"

section \<open>The engine\<close>

text \<open>A reader answers a host name with a projection, nothing (nil) or an error.  The replica may have no cache yet.\<close>

type_synonym projection_reader = "string \<Rightarrow> DomainEntryProjection option result"

record ingress_Engine =
  ie_k8sBridge :: "K8sBridge option"
  ie_memory :: memoryStore
  ie_slave :: "projection_reader option option"
  ie_repo :: "projection_reader option"
  MasterHTTP01ProxyURL :: string

definition lookupRouteFromReadOnlyCache :: "projection_reader option option \<Rightarrow> string \<Rightarrow> DomainEntryProjection option result" where
  "lookupRouteFromReadOnlyCache slave hostname = (case slave of
      None \<Rightarrow> Inl (Err ''slave is nil'')
    | Some None \<Rightarrow> Inr None
    | Some (Some cache) \<Rightarrow> cache hostname)"

definition resultFromBinding :: "string \<Rightarrow> BackendBinding \<Rightarrow> ingress_Engine \<Rightarrow> RouteResult option result \<times> ingress_Engine" where
  "resultFromBinding hostname binding e = (
     let upstreamURL = buildUpstreamURL (bb_Protocol binding) (bb_Address binding) (bb_Port binding) in
     if upstreamURL = [] then (Inl (ErrOn ''service binding has no valid upstream'' (bb_ID binding)), e)
     else (Inr (Some \<lparr>rr_Found = True, rr_Target = \<lparr>pt_Hostname = hostname, pt_Port = 0, pt_UpstreamURL = upstreamURL, pt_Protocol = bb_Protocol binding,
             pt_PathPrefix = normalizeProxyPathPrefix (bb_Path binding)\<rparr>\<rparr>),
           e\<lparr>ie_memory := memory_Put binding (ie_memory e)\<rparr>))"

definition resultFromProjection :: "string \<Rightarrow> string \<Rightarrow> RouteKind \<Rightarrow> DomainEntryProjection \<Rightarrow> ingress_Engine \<Rightarrow> RouteResult option result \<times> ingress_Engine" where
  "resultFromProjection hostname requestPath kind entry e = (case bindingFromProjection (Some entry) requestPath kind of
      None \<Rightarrow> (Inr (Some not_found), e)
    | Some binding \<Rightarrow> resultFromBinding hostname binding e)"

definition bridge_binding :: "RouteKind \<Rightarrow> string \<Rightarrow> string \<Rightarrow> ingress_Engine \<Rightarrow> BackendBinding option" where
  "bridge_binding kind hostname requestPath e = (case ie_k8sBridge e of
      None \<Rightarrow> None
    | Some b \<Rightarrow> if kind = RouteKindHTTPS then map_option kb_Binding (ResolveHTTPS hostname requestPath b)
        else map_option fst (ResolveRequest hostname requestPath b))"

definition route_projection :: "string \<Rightarrow> string \<Rightarrow> RouteKind \<Rightarrow> ingress_Engine \<Rightarrow> RouteResult option result \<times> ingress_Engine" where
  "route_projection hostname requestPath kind e = (
     if ie_slave e \<noteq> None then
       (case lookupRouteFromReadOnlyCache (ie_slave e) hostname of
          Inr (Some entry) \<Rightarrow> resultFromProjection hostname requestPath kind entry e
        | Inr None \<Rightarrow> (Inr None, e)
        | Inl err \<Rightarrow> (Inl err, e))
     else case ie_repo e of
       Some repo \<Rightarrow> (case repo hostname of
           Inr (Some entry) \<Rightarrow> resultFromProjection hostname requestPath kind entry e
         | _ \<Rightarrow> (Inr (Some not_found), e))
     | None \<Rightarrow> (Inr (Some not_found), e))"

definition routeByKind :: "string \<Rightarrow> string \<Rightarrow> RouteKind \<Rightarrow> ingress_Engine \<Rightarrow> RouteResult option result \<times> ingress_Engine" where
  "routeByKind host requestPath kind e = (
     let hostname = normalizeHost host in
     if hostname = [] then (Inl (Err ''host is required''), e)
     else case bridge_binding kind hostname requestPath e of
       Some binding \<Rightarrow> resultFromBinding hostname binding e
     | None \<Rightarrow> (case memory_Get hostname requestPath (ie_memory e) of
         Some binding \<Rightarrow> resultFromBinding hostname binding e
       | None \<Rightarrow> route_projection hostname requestPath kind e))"

definition Route :: "string \<Rightarrow> string \<Rightarrow> ingress_Engine \<Rightarrow> RouteResult option result \<times> ingress_Engine" where
  "Route host requestPath e = routeByKind host requestPath RouteKindHTTP e"

definition RouteHTTPS :: "string \<Rightarrow> string \<Rightarrow> ingress_Engine \<Rightarrow> RouteResult option result \<times> ingress_Engine" where
  "RouteHTTPS host requestPath e = routeByKind host requestPath RouteKindHTTPS e"

definition InjectRepository :: "projection_reader option \<Rightarrow> ingress_Engine \<Rightarrow> ingress_Engine" where
  "InjectRepository repo e = e\<lparr>ie_repo := repo\<rparr>"

definition InjectSlave :: "projection_reader option option \<Rightarrow> ingress_Engine \<Rightarrow> ingress_Engine" where
  "InjectSlave slave e = e\<lparr>ie_slave := slave\<rparr>"

definition RefreshHost :: "string \<Rightarrow> ingress_Engine \<Rightarrow> ingress_Engine" where
  "RefreshHost hostname e = e\<lparr>ie_memory := memory_Delete hostname (ie_memory e)\<rparr>"

section \<open>Requests\<close>

record http_request =
  rq_Host :: string
  rq_Path :: string
  rq_RawPath :: string
  rq_RawQuery :: string
  rq_XForwardedProto :: string

text \<open>The answers of the handler: an error status with its text, 404, or a request sent to scheme and host of a URL with a
  path, a raw path and a query.\<close>

datatype http_outcome =
    HTTPError nat error
  | HTTPNotFound
  | Proxied string string string string

definition acmeHTTP01Prefix :: string where
  "acmeHTTP01Prefix = ''/.well-known/acme-challenge/''"

text \<open>\<open>parses\<close> tells which texts \<^verbatim>\<open>url.Parse\<close> accepts.\<close>

definition serveACMEHTTP01Proxy :: "(string \<Rightarrow> bool) \<Rightarrow> http_request \<Rightarrow> ingress_Engine \<Rightarrow> http_outcome" where
  "serveACMEHTTP01Proxy parses r e = (
     let base = TrimRightFunc (\<lambda>c. c = CHR ''/'') (MasterHTTP01ProxyURL e) in
     if parses base then Proxied base (rq_Path r) (rq_RawPath r) (rq_RawQuery r)
     else HTTPError 500 (Err ''invalid acme http01 proxy url''))"

definition serve_target :: "(string \<Rightarrow> bool) \<Rightarrow> http_request \<Rightarrow> ProxyTarget \<Rightarrow> http_outcome" where
  "serve_target parses r target = (
     if \<not> parses (pt_UpstreamURL target) then HTTPError 500 (Err ''invalid upstream url'')
     else case rewriteUpstreamPath (pt_PathPrefix target) (rq_Path r) (rq_RawPath r) of
       (path, rawPath) \<Rightarrow> Proxied (pt_UpstreamURL target) path rawPath (rq_RawQuery r))"

definition serveHTTP :: "(string \<Rightarrow> bool) \<Rightarrow> http_request \<Rightarrow> ingress_Engine \<Rightarrow> http_outcome \<times> ingress_Engine" where
  "serveHTTP parses r e = (
     if HasPrefix (rq_Path r) acmeHTTP01Prefix \<and> TrimSpace (MasterHTTP01ProxyURL e) \<noteq> [] then (serveACMEHTTP01Proxy parses r e, e)
     else case (if EqualFold (rq_XForwardedProto r) ''https'' then RouteHTTPS (rq_Host r) (rq_Path r) e else Route (rq_Host r) (rq_Path r) e) of
       (Inl err, e') \<Rightarrow> (HTTPError 500 err, e')
     | (Inr None, e') \<Rightarrow> (HTTPNotFound, e')
     | (Inr (Some result), e') \<Rightarrow> (if \<not> rr_Found result then HTTPNotFound else serve_target parses r (rr_Target result), e'))"

end
