(* ===== verification/Spec2Isabelle.thy ===== *)
theory Spec2Isabelle
  imports Dns_Store Slave_Certs Replication Go_Net Dns_Render Dns_Engine Ingress_Bridge Ingress_Route
begin

text \<open>
  Verification of luna-edge.
\<close>

end
